(* ===== verification/Nx_Prelude.thy ===== *)
theory Nx_Prelude
  imports Main "HOL-Library.Word" "HOL-Library.Monad_Syntax"
begin

text \<open>
  Shared ground of the development.

  \<^item> Machine types: \<open>u32\<close> for \<^verbatim>\<open>uint32_t\<close>; return codes are \<open>int\<close>, zero for OK and a
    negated errno for a failure, with the errno numbers of \<^verbatim>\<open>nuttx/include/errno.h\<close>.
  \<^item> The register bus: the memory-mapped registers as a store from addresses to words,
    together with the log of all writes (newest first). The log makes the order of the
    register accesses a part of the model, and it is what write-only registers such as
    \<^verbatim>\<open>BSRR\<close> are read from.
  \<^item> Register fields: the read-modify-write idiom of the chip code and the laws that a
    field update sets its own field and no other.
  \<^item> Arrays whose stores are checked: a store outside the array has no result.
\<close>

unbundle bit_operations_syntax

named_theorems bus_simps "reads, writes and fields of registers"
named_theorems cfg_simps "the bit fields of a pin configuration word"

type_synonym u32 = "32 word"

subsection \<open>Return codes\<close>

abbreviation (input) OK :: int where "OK \<equiv> 0"

definition ENOENT :: int where "ENOENT = 2"
definition EAGAIN :: int where "EAGAIN = 11"
definition ENOMEM :: int where "ENOMEM = 12"
definition EACCES :: int where "EACCES = 13"
definition EBUSY :: int where "EBUSY = 16"
definition ENODEV :: int where "ENODEV = 19"
definition EINVAL :: int where "EINVAL = 22"
definition ENOTTY :: int where "ENOTTY = 25"
definition ERANGE :: int where "ERANGE = 34"
definition ENOSYS :: int where "ENOSYS = 38"

lemmas errno_defs = ENOMEM_def EINVAL_def ERANGE_def ENOENT_def EAGAIN_def EACCES_def EBUSY_def
  ENODEV_def ENOTTY_def ENOSYS_def

lemma errno_neg [simp]:
  "0 < EINVAL" "0 < ENOMEM" "EINVAL \<noteq> 0" "ENOMEM \<noteq> 0"
  "0 < EACCES" "0 < EBUSY" "0 < ENODEV" "0 < ENOTTY" "0 < ENOSYS" "0 < EAGAIN" "0 < ENOENT"
  "EACCES \<noteq> 0" "EBUSY \<noteq> 0" "ENODEV \<noteq> 0" "ENOTTY \<noteq> 0" "ENOSYS \<noteq> 0" "EAGAIN \<noteq> 0" "ENOENT \<noteq> 0"
  by (simp_all add: errno_defs)

subsection \<open>The register bus\<close>

record bus =
  regs :: "u32 \<Rightarrow> u32"
  wlog :: "(u32 \<times> u32) list"

definition getreg32 :: "u32 \<Rightarrow> bus \<Rightarrow> u32" where
  "getreg32 a h = regs h a"

definition putreg32 :: "u32 \<Rightarrow> u32 \<Rightarrow> bus \<Rightarrow> bus" where
  "putreg32 v a h = h\<lparr>regs := (regs h)(a := v), wlog := (a, v) # wlog h\<rparr>"

definition modifyreg32 :: "u32 \<Rightarrow> u32 \<Rightarrow> u32 \<Rightarrow> bus \<Rightarrow> bus" where
  "modifyreg32 addr clearbits setbits h =
     (let regval = getreg32 addr h;
          regval = regval AND NOT clearbits;
          regval = regval OR setbits
      in putreg32 regval addr h)"

lemma getreg32_putreg32 [bus_simps]:
  "getreg32 a (putreg32 v b h) = (if a = b then v else getreg32 a h)"
  by (simp add: getreg32_def putreg32_def)

lemma wlog_putreg32 [bus_simps]: "wlog (putreg32 v a h) = (a, v) # wlog h"
  by (simp add: putreg32_def)

lemma getreg32_modifyreg32 [bus_simps]:
  "getreg32 a (modifyreg32 b c s h) =
     (if a = b then (getreg32 b h AND NOT c) OR s else getreg32 a h)"
  by (simp add: modifyreg32_def Let_def getreg32_putreg32)

lemma wlog_modifyreg32 [bus_simps]:
  "wlog (modifyreg32 a c s h) = (a, (getreg32 a h AND NOT c) OR s) # wlog h"
  by (simp add: modifyreg32_def Let_def wlog_putreg32)

subsection \<open>Register fields\<close>

text \<open>
  \<open>reg_update m s v r\<close> is the idiom \<^verbatim>\<open>r &= ~(m << s); r |= (v << s)\<close>; \<open>reg_field w s r\<close>
  reads the field of \<open>w\<close> bits at bit \<open>s\<close>.
\<close>

definition reg_update :: "u32 \<Rightarrow> nat \<Rightarrow> u32 \<Rightarrow> u32 \<Rightarrow> u32" where
  "reg_update m s v r = (r AND NOT (push_bit s m)) OR push_bit s v"

definition reg_field :: "nat \<Rightarrow> nat \<Rightarrow> u32 \<Rightarrow> u32" where
  "reg_field w s r = take_bit w (drop_bit s r)"

lemma bit_reg_field [bus_simps]:
  "bit (reg_field w s r) i \<longleftrightarrow> i < w \<and> bit r (s + i)"
  by (simp add: reg_field_def bit_simps ac_simps)

lemma reg_field_update_same:
  assumes "s + w \<le> 32" and "take_bit w v = v"
  shows "reg_field w s (reg_update (mask w) s v r) = v"
proof (rule bit_word_eqI)
  fix i assume i: "i < LENGTH(32)"
  have v: "bit v i \<longleftrightarrow> i < w \<and> bit v i"
    using assms(2) by (metis bit_take_bit_iff)
  show "bit (reg_field w s (reg_update (mask w) s v r)) i = bit v i"
    using assms(1) v by (auto simp: bit_reg_field reg_update_def bit_simps)
qed

lemma reg_field_update_other:
  assumes "take_bit w v = v" and "s + w \<le> t \<or> t + w' \<le> s"
  shows "reg_field w' t (reg_update (mask w) s v r) = reg_field w' t r"
proof (rule bit_word_eqI)
  fix i assume i: "i < LENGTH(32)"
  have v: "bit v j \<Longrightarrow> j < w" for j
    using assms(1) by (metis bit_take_bit_iff)
  show "bit (reg_field w' t (reg_update (mask w) s v r)) i = bit (reg_field w' t r) i"
    using assms(2) v [of "t + i - s"]
    by (auto simp: bit_reg_field reg_update_def bit_simps dest: bit_imp_le_length)
qed

lemma mask_numerals: "mask 1 = (1 :: u32)" "mask 2 = (3 :: u32)" "mask 4 = (15 :: u32)"
  by (simp_all add: mask_eq_exp_minus_1)

lemma unat_and_15 [cfg_simps]: "unat (x AND 15 :: u32) < 16"
proof -
  have "x AND 15 \<le> (15 :: u32)" by (rule word_and_le1)
  then show ?thesis by (simp add: word_le_nat_alt)
qed

subsection \<open>Small ranges, by enumeration\<close>

lemma below_6: "n < 6 \<Longrightarrow> n \<in> {0, 1, 2, 3, 4, 5 :: nat}"
  by auto

lemma below_8: "n < 8 \<Longrightarrow> n \<in> {0, 1, 2, 3, 4, 5, 6, 7 :: nat}"
  by auto

lemma below_16: "n < 16 \<Longrightarrow> n \<in> {0, 1, 2, 3, 4, 5, 6, 7, 8, 9, 10, 11, 12, 13, 14, 15 :: nat}"
  unfolding insert_iff empty_iff by presburger

lemmas enumE = insertE emptyE

subsection \<open>Arrays with checked stores\<close>

definition arr_set :: "'a list \<Rightarrow> nat \<Rightarrow> 'a \<Rightarrow> 'a list option" where
  "arr_set xs i v = (if i < length xs then Some (xs[i := v]) else None)"

lemma arr_set_Some [simp]: "i < length xs \<Longrightarrow> arr_set xs i v = Some (xs[i := v])"
  by (simp add: arr_set_def)

lemma take_Suc_update [simp]: "i < length xs \<Longrightarrow> take (Suc i) (xs[i := v]) = take i xs @ [v]"
  by (simp add: take_Suc_conv_app_nth)

lemma nth_mem_take: "i < n \<Longrightarrow> n \<le> length xs \<Longrightarrow> xs ! i \<in> set (take n xs)"
  by (metis in_set_conv_nth length_take min.absorb2 nth_take)

end
