(* ===== verification/Libc_Str.thy ===== *)
theory Libc_Str
  imports Nx_Prelude
begin

text \<open>
  The string routines of NuttX's C library that the board code parses its configuration
  strings with: \<^verbatim>\<open>strlen\<close>, \<^verbatim>\<open>strchr\<close>, \<^verbatim>\<open>strncpy\<close>, \<^verbatim>\<open>strtok_r\<close>, \<^verbatim>\<open>strtoul\<close>, \<^verbatim>\<open>strtol\<close> and their
  helpers, under \<^verbatim>\<open>nuttx/libs/libc\<close>.

  A C string is the list of its characters; the terminating NUL is the end of the list, and a
  NUL inside the list ends the string there, as it does in memory. Where the code steps
  backwards (the end pointer of \<^verbatim>\<open>strtol\<close>) a pointer is a zipper \<open>cptr\<close>: the characters before
  it, nearest first, and the characters from it on. A \<^verbatim>\<open>long\<close> has 32 bits on this target; a
  plain \<^verbatim>\<open>char\<close> is unsigned.
\<close>

subsection \<open>Characters and pointers\<close>

abbreviation NUL :: char where "NUL \<equiv> CHR 0x00"

type_synonym cptr = "string \<times> string"

definition c2i :: "char \<Rightarrow> int" where
  "c2i c = of_char c"

fun deref :: "cptr \<Rightarrow> char" where
  "deref (b, []) = NUL"
| "deref (b, c # a) = c"

fun pinc :: "cptr \<Rightarrow> cptr" where
  "pinc (b, []) = (b, [])"
| "pinc (b, c # a) = (c # b, a)"

fun pdec :: "cptr \<Rightarrow> cptr" where
  "pdec ([], a) = ([], a)"
| "pdec (c # b, a) = (b, c # a)"

fun prevc :: "cptr \<Rightarrow> char option" where
  "prevc ([], a) = None"
| "prevc (c # b, a) = Some c"

fun pat :: "cptr \<Rightarrow> nat \<Rightarrow> char" where
  "pat (b, a) n = (if n < length a then a ! n else NUL)"

definition cstr :: "string \<Rightarrow> string" where
  "cstr s = takeWhile (\<lambda>c. c \<noteq> NUL) s"

subsection \<open>strlen, strchr, strncpy\<close>

fun strlen :: "string \<Rightarrow> nat" where
  "strlen [] = 0"
| "strlen (c # s) = (if c = NUL then 0 else Suc (strlen s))"

fun strchr :: "string \<Rightarrow> char \<Rightarrow> string option" where
  "strchr [] c = (if NUL = c then Some [] else None)"
| "strchr (x # s) c = (if x = c then Some (x # s) else if x = NUL then None else strchr s c)"

text \<open>The \<open>n\<close> bytes \<^verbatim>\<open>strncpy\<close> writes: the copied characters, then NUL padding.\<close>

fun strncpy :: "string \<Rightarrow> nat \<Rightarrow> string" where
  "strncpy src 0 = []"
| "strncpy [] (Suc n) = replicate (Suc n) NUL"
| "strncpy (c # src) (Suc n) = (if c = NUL then replicate (Suc n) NUL else c # strncpy src n)"

subsection \<open>strtok_r and strtok\<close>

fun strtok_skip :: "string \<Rightarrow> string \<Rightarrow> string" where
  "strtok_skip delim [] = []"
| "strtok_skip delim (c # s) =
     (if c \<noteq> NUL \<and> strchr delim c \<noteq> None then strtok_skip delim s else c # s)"

fun strtok_span :: "string \<Rightarrow> string \<Rightarrow> string \<times> string" where
  "strtok_span delim [] = ([], [])"
| "strtok_span delim (c # s) =
     (if c \<noteq> NUL \<and> strchr delim c = None
      then (let (t, r) = strtok_span delim s in (c # t, r)) else ([], c # s))"

text \<open>
  The saved pointer is the rest of the buffer from where the last call left off, or
  \<open>None\<close> for a null pointer; the result is the token (\<open>None\<close> for a null pointer) and the new
  saved pointer. The token is NUL-terminated in place by the write of the delimiter, so the
  rest of the buffer is reached through the saved pointer only.
\<close>

definition strtok_r :: "string option \<Rightarrow> string \<Rightarrow> string option \<Rightarrow> string option \<times> string option"
where
  "strtok_r str delim saveptr =
     (case (case str of Some s \<Rightarrow> Some s | None \<Rightarrow> saveptr) of
        None \<Rightarrow> (None, saveptr)
      | Some s \<Rightarrow>
          (case strtok_skip delim s of
             [] \<Rightarrow> (None, saveptr)
           | c # s' \<Rightarrow>
               if c = NUL then (None, saveptr)
               else let (t, pend) = strtok_span delim s';
                        pend = (case pend of [] \<Rightarrow> []
                                | d # r \<Rightarrow> if d \<noteq> NUL then r else pend)
                    in (Some (c # t), Some pend)))"

definition strtok :: "string option \<Rightarrow> string \<Rightarrow> string option \<Rightarrow> string option \<times> string option"
where
  "strtok str delim g_saveptr = strtok_r str delim g_saveptr"

subsection \<open>strtoul and strtol\<close>

definition isspace :: "char \<Rightarrow> bool" where
  "isspace c \<longleftrightarrow> c = CHR '' '' \<or> c = CHR 0x09 \<or> c = CHR 0x0A \<or> c = CHR 0x0D \<or>
     c = CHR 0x0C \<or> c = CHR 0x0B"

fun lib_skipspace :: "cptr \<Rightarrow> cptr" where
  "lib_skipspace (b, []) = (b, [])"
| "lib_skipspace (b, c # a) = (if isspace c then lib_skipspace (c # b, a) else (b, c # a))"

definition lib_isbasedigit :: "char \<Rightarrow> int \<Rightarrow> int option" where
  "lib_isbasedigit c base =
     (let ch = c2i c in
      if base \<le> 10 then
        (if ch \<ge> 48 \<and> ch \<le> base + 48 - 1 then Some (ch - 48) else None)
      else if base \<le> 36 then
        (if ch \<ge> 48 \<and> ch \<le> 57 then Some (ch - 48)
         else if ch \<ge> 97 \<and> ch \<le> 97 + base - 11 then Some (ch - 97 + 10)
         else if ch \<ge> 65 \<and> ch \<le> 65 + base - 11 then Some (ch - 65 + 10)
         else None)
      else None)"

definition lib_checkbase :: "int \<Rightarrow> cptr \<Rightarrow> int \<times> cptr" where
  "lib_checkbase base ptr =
     (if base = 0 then
        (if deref ptr = CHR ''0'' then
           (if lib_isbasedigit (pat ptr 1) 8 \<noteq> None then (8, pinc ptr)
            else if (pat ptr 1 = CHR ''X'' \<or> pat ptr 1 = CHR ''x'') \<and>
                    lib_isbasedigit (pat ptr 2) 16 \<noteq> None
            then (16, pinc (pinc ptr))
            else (10, ptr))
         else (10, ptr))
      else if base = 16 then
        (if pat ptr 0 = CHR ''0'' \<and> (pat ptr 1 = CHR ''X'' \<or> pat ptr 1 = CHR ''x'')
         then (16, pinc (pinc ptr)) else (16, ptr))
      else if base < 2 \<or> base > 26 then (-1, ptr)
      else (base, ptr))"

definition ULONG_MAX :: u32 where "ULONG_MAX = 4294967295"
definition LONG_MAX :: int where "LONG_MAX = 2147483647"
definition LONG_MIN :: int where "LONG_MIN = - LONG_MAX - 1"

text \<open>The digit loop of \<^verbatim>\<open>strtoul\<close>: accumulator, last digit value, pointer and errno at its end.\<close>

fun strtoul_acc :: "int \<Rightarrow> u32 \<Rightarrow> int \<Rightarrow> cptr \<Rightarrow> u32 \<times> int \<times> cptr \<times> int option" where
  "strtoul_acc base accum value (b, []) = (accum, value, (b, []), None)"
| "strtoul_acc base accum value (b, c # a) =
     (case lib_isbasedigit c base of
        None \<Rightarrow> (accum, value, (b, c # a), None)
      | Some v \<Rightarrow>
          (let limit = ULONG_MAX div word_of_int base;
               last_digit = uint (ULONG_MAX mod word_of_int base) in
           if accum > limit \<or> (accum = limit \<and> v > last_digit)
           then (ULONG_MAX, v, (b, c # a), Some ERANGE)
           else strtoul_acc base (accum * word_of_int base + word_of_int v) v (c # b, a)))"

fun strtoul_rest :: "int \<Rightarrow> int \<Rightarrow> cptr \<Rightarrow> int \<times> cptr" where
  "strtoul_rest base value (b, []) = (value, (b, []))"
| "strtoul_rest base value (b, c # a) =
     (case lib_isbasedigit c base of
        None \<Rightarrow> (value, (b, c # a))
      | Some v \<Rightarrow> strtoul_rest base v (c # b, a))"

definition take_sign :: "cptr \<Rightarrow> char option \<times> cptr" where
  "take_sign p = (if deref p = CHR ''-'' \<or> deref p = CHR ''+'' then (Some (deref p), pinc p)
                  else (None, p))"

text \<open>The result is the value, the end pointer stored (if one is) and the errno set (if one is).\<close>

definition strtoul :: "cptr option \<Rightarrow> int \<Rightarrow> u32 \<times> cptr option \<times> int option" where
  "strtoul nptr base =
     (case nptr of
        None \<Rightarrow> (0, None, None)
      | Some origin \<Rightarrow>
          (let p = lib_skipspace origin;
               (sign, p) = take_sign p;
               (base', p) = lib_checkbase base p;
               (accum, value, p, err) =
                 (if base' < 0 then (0, -1, p, Some EINVAL)
                  else let (accum, value, p, err) = strtoul_acc base' 0 (-1) p;
                           (value, p) = strtoul_rest base' value p;
                           accum = (if sign = Some (CHR ''-'') then NOT accum + 1 else accum)
                       in (accum, value, p, err));
               p = (if sign \<noteq> None \<and> prevc p = sign then pdec p else p)
           in (accum, Some (if value = -1 then origin else p), err)))"

definition strtol :: "cptr option \<Rightarrow> int \<Rightarrow> int \<times> cptr option \<times> int option" where
  "strtol nptr base =
     (case nptr of
        None \<Rightarrow> (0, None, None)
      | Some p \<Rightarrow>
          (let p = lib_skipspace p;
               (sign, p) = take_sign p;
               (accum, endptr, err) = strtoul (Some p) base;
               (retval, err) =
                 (if sign = Some (CHR ''-'') then
                    (let limit = - (LONG_MIN + 1) + 1 in
                     if uint accum > limit then (LONG_MIN, Some ERANGE)
                     else (if uint accum = limit then LONG_MIN else - uint accum, err))
                  else
                    (if uint accum > LONG_MAX then (LONG_MAX, Some ERANGE)
                     else (uint accum, err)));
               endptr = map_option (\<lambda>e. if sign \<noteq> None \<and> prevc e = sign then pdec e else e) endptr
           in (retval, endptr, err)))"


subsection \<open>Tokens\<close>

text \<open>
  The reference for a tokenizer: cut the string at every delimiter and drop the empty pieces.
\<close>

fun cut_at :: "char set \<Rightarrow> string \<Rightarrow> string list" where
  "cut_at D [] = [[]]"
| "cut_at D (c # s) =
     (if c \<in> D then [] # cut_at D s
      else (case cut_at D s of [] \<Rightarrow> [[c]] | t # ts \<Rightarrow> (c # t) # ts))"

definition pieces :: "char set \<Rightarrow> string \<Rightarrow> string list" where
  "pieces D s = filter (\<lambda>t. t \<noteq> []) (cut_at D s)"

lemma strchr_iff: "c \<noteq> NUL \<Longrightarrow> strchr d c \<noteq> None \<longleftrightarrow> c \<in> set (cstr d)"
  by (induction d c rule: strchr.induct) (auto simp: cstr_def)

lemma strtok_None_None [simp]: "strtok None d None = (None, None)"
  by (simp add: strtok_def strtok_r_def)

definition is_delim :: "string \<Rightarrow> char \<Rightarrow> bool" where
  "is_delim d c \<longleftrightarrow> c \<noteq> NUL \<and> c \<in> set (cstr d)"

definition is_tokc :: "string \<Rightarrow> char \<Rightarrow> bool" where
  "is_tokc d c \<longleftrightarrow> c \<noteq> NUL \<and> c \<notin> set (cstr d)"

lemma strtok_skip_eq: "strtok_skip d s = dropWhile (is_delim d) s"
  by (induction s) (auto simp: is_delim_def dest: strchr_iff)

lemma strtok_span_eq: "strtok_span d s = (takeWhile (is_tokc d) s, dropWhile (is_tokc d) s)"
  by (induction s) (auto simp: is_tokc_def dest: strchr_iff)

definition tok_next :: "string \<Rightarrow> string" where
  "tok_next pend = (if pend = [] \<or> hd pend = NUL then pend else tl pend)"

lemma strtok_Nil: "dropWhile (is_delim d) s = [] \<Longrightarrow> strtok (Some s) d g = (None, g)"
  by (simp add: strtok_def strtok_r_def strtok_skip_eq del: dropWhile_eq_Nil_conv)

lemma strtok_NUL: "dropWhile (is_delim d) s = NUL # s' \<Longrightarrow> strtok (Some s) d g = (None, g)"
  by (simp add: strtok_def strtok_r_def strtok_skip_eq)

lemma tok_next_case:
  "(case pend of [] \<Rightarrow> [] | d # r \<Rightarrow> if d \<noteq> NUL then r else pend) = tok_next pend"
  by (simp add: tok_next_def split: list.split)

lemma strtok_Cons:
  "dropWhile (is_delim d) s = c # s' \<Longrightarrow> c \<noteq> NUL \<Longrightarrow>
   strtok (Some s) d g =
     (Some (c # takeWhile (is_tokc d) s'), Some (tok_next (dropWhile (is_tokc d) s')))"
  by (simp add: strtok_def strtok_r_def strtok_skip_eq strtok_span_eq tok_next_case)

lemma strtok_SomeE:
  assumes "strtok (Some s) d g = (Some t, g')"
  obtains c s' where "dropWhile (is_delim d) s = c # s'" "c \<noteq> NUL" "is_tokc d c"
    "t = c # takeWhile (is_tokc d) s'" "g' = Some (tok_next (dropWhile (is_tokc d) s'))"
proof -
  obtain c s' where u: "dropWhile (is_delim d) s = c # s'"
    using assms strtok_Nil [of d s g] by (cases "dropWhile (is_delim d) s") auto
  moreover have "c \<noteq> NUL" using assms u strtok_NUL [of d s s' g] by auto
  moreover have "\<not> is_delim d c" using u hd_dropWhile [of "is_delim d" s] by simp
  ultimately show thesis
    using that [of c s'] assms strtok_Cons [of d s c s' g]
    by (simp add: is_delim_def is_tokc_def)
qed

lemma strtok_continue: "strtok None d (Some s) = strtok (Some s) d (Some s)"
  by (simp add: strtok_def strtok_r_def)

definition tok_size :: "string option \<Rightarrow> nat" where
  "tok_size g = (case g of None \<Rightarrow> 0 | Some s \<Rightarrow> Suc (length s))"

lemma strtok_shrinks:
  assumes "strtok None d g = (Some t, g')"
  shows "tok_size g' < tok_size g"
proof (cases g)
  case None
  with assms show ?thesis by simp
next
  case (Some s)
  with assms have "strtok (Some s) d g = (Some t, g')" by (simp add: strtok_continue)
  then obtain c s' where u: "dropWhile (is_delim d) s = c # s'"
    and g': "g' = Some (tok_next (dropWhile (is_tokc d) s'))"
    by (rule strtok_SomeE)
  have "length (tok_next (dropWhile (is_tokc d) s')) \<le> length s'"
    using length_dropWhile_le [of "is_tokc d" s'] by (auto simp: tok_next_def)
  moreover have "length s' < length s"
    using u length_dropWhile_le [of "is_delim d" s] by simp
  ultimately show ?thesis using g' Some by (simp add: tok_size_def)
qed

text \<open>The tokens that repeated calls with a null string deliver from a saved pointer.\<close>

function strtok_iter :: "string \<Rightarrow> string option \<Rightarrow> string list" where
  "strtok_iter d g = (case strtok None d g of (None, g') \<Rightarrow> [] | (Some t, g') \<Rightarrow> t # strtok_iter d g')"
  by pat_completeness auto
termination
  by (relation "measure (\<lambda>(d, g). tok_size g)") (simp_all, metis strtok_shrinks)

declare strtok_iter.simps [simp del]

text \<open>The state of a caller's token loop after \<open>n\<close> more calls, at most, with a null pointer.\<close>

fun strtok_again :: "string \<Rightarrow> nat \<Rightarrow> string option \<times> string option \<Rightarrow> string option \<times> string option" where
  "strtok_again d 0 x = x"
| "strtok_again d (Suc n) (None, g) = (None, g)"
| "strtok_again d (Suc n) (Some t, g) = strtok_again d n (strtok None d g)"

lemma cut_at_not_Nil [simp]: "cut_at D s \<noteq> []"
  by (induction s) (auto split: list.split)

lemma pieces_Nil [simp]: "pieces D [] = []"
  by (simp add: pieces_def)

lemma pieces_delim [simp]: "c \<in> D \<Longrightarrow> pieces D (c # s) = pieces D s"
  by (simp add: pieces_def)

lemma pieces_dropWhile: "pieces D (dropWhile (\<lambda>c. c \<in> D) s) = pieces D s"
  by (induction s) auto

lemma cut_at_append:
  "\<forall>c \<in> set t. c \<notin> D \<Longrightarrow> cut_at D (t @ r) = (t @ hd (cut_at D r)) # tl (cut_at D r)"
  by (induction t) auto

lemma pieces_append:
  assumes "t \<noteq> []" and "\<forall>c \<in> set t. c \<notin> D" and "r = [] \<or> hd r \<in> D"
  shows "pieces D (t @ r) = t # pieces D (tl r)"
proof -
  have "hd (cut_at D r) = []" and "filter (\<lambda>t. t \<noteq> []) (tl (cut_at D r)) = pieces D (tl r)"
    using assms(3) by (cases r; simp add: pieces_def)+
  then show ?thesis
    using assms(1,2) by (simp add: pieces_def cut_at_append)
qed

lemma cstr_Cons [simp]: "cstr (c # s) = (if c = NUL then [] else c # cstr s)"
  by (simp add: cstr_def)

lemma cstr_Nil [simp]: "cstr [] = []"
  by (simp add: cstr_def)

lemma cstr_idem: "NUL \<notin> set s \<Longrightarrow> cstr s = s"
  by (induction s) auto

lemma NUL_not_in_cstr [simp]: "NUL \<notin> set (cstr s)"
  by (induction s) auto

lemma cstr_dropWhile_delim:
  "cstr (dropWhile (is_delim d) s) = dropWhile (\<lambda>c. c \<in> set (cstr d)) (cstr s)"
  by (induction s) (auto simp: is_delim_def)

lemma cstr_token:
  "cstr s = takeWhile (is_tokc d) s @ cstr (dropWhile (is_tokc d) s)"
  by (induction s) (auto simp: is_tokc_def)

lemma cstr_tok_next:
  assumes "pend = dropWhile (is_tokc d) s"
  shows "cstr (tok_next pend) = tl (cstr pend)"
    and "cstr pend = [] \<or> hd (cstr pend) \<in> set (cstr d)"
proof -
  have "pend = [] \<or> \<not> is_tokc d (hd pend)"
    using assms hd_dropWhile [of "is_tokc d" s] by auto
  then show "cstr (tok_next pend) = tl (cstr pend)"
    and "cstr pend = [] \<or> hd (cstr pend) \<in> set (cstr d)"
    by (cases pend; auto simp: tok_next_def is_tokc_def)+
qed

lemma strtok_step_pieces:
  assumes "strtok (Some s) d g = (Some t, g')"
  obtains r where "g' = Some r" "pieces (set (cstr d)) (cstr s) = t # pieces (set (cstr d)) (cstr r)"
proof -
  let ?D = "set (cstr d)"
  obtain c s' where u: "dropWhile (is_delim d) s = c # s'" "is_tokc d c"
    and t: "t = c # takeWhile (is_tokc d) s'"
    and g': "g' = Some (tok_next (dropWhile (is_tokc d) s'))"
    using assms by (rule strtok_SomeE)
  define pend where "pend = dropWhile (is_tokc d) s'"
  have "cstr (c # s') = t @ cstr pend"
    using u(2) t cstr_token [of s' d] by (simp add: pend_def is_tokc_def)
  moreover have "\<forall>c \<in> set t. c \<notin> ?D"
    using u(2) t by (auto simp: is_tokc_def dest: set_takeWhileD)
  ultimately have "pieces ?D (cstr (c # s')) = t # pieces ?D (cstr (tok_next pend))"
    using t pieces_append [of t ?D "cstr pend"] cstr_tok_next [OF pend_def] by simp
  moreover have "pieces ?D (cstr (c # s')) = pieces ?D (cstr s)"
    using cstr_dropWhile_delim [of d s] u(1) by (simp add: pieces_dropWhile)
  ultimately show thesis using that g' by (simp add: pend_def)
qed

lemma strtok_end_pieces:
  assumes "strtok (Some s) d g = (None, g')"
  shows "pieces (set (cstr d)) (cstr s) = []" and "g' = g"
proof -
  define u where "u = dropWhile (is_delim d) s"
  have u: "u = [] \<or> hd u = NUL" and "g' = g"
    using assms strtok_Cons [of d s "hd u" "tl u" g] strtok_Nil [of d s g] strtok_NUL [of d s "tl u" g]
    by (cases u; auto simp: u_def)+
  then show "g' = g" by simp
  have "cstr u = []" using u by (cases u) auto
  then show "pieces (set (cstr d)) (cstr s) = []"
    using cstr_dropWhile_delim [of d s] pieces_dropWhile [of "set (cstr d)" "cstr s"]
    by (metis u_def pieces_Nil)
qed

lemma strtok_iter_pieces: "strtok_iter d (Some s) = pieces (set (cstr d)) (cstr s)"
proof (induction "length s" arbitrary: s rule: less_induct)
  case less
  show ?case
  proof (cases "strtok (Some s) d (Some s)")
    case (Pair t g')
    show ?thesis
    proof (cases t)
      case None
      then show ?thesis
        using Pair strtok_end_pieces [of s d "Some s"]
        by (subst strtok_iter.simps) (simp add: strtok_continue)
    next
      case (Some tt)
      with Pair have tok: "strtok (Some s) d (Some s) = (Some tt, g')" by simp
      then obtain r where r: "g' = Some r"
        "pieces (set (cstr d)) (cstr s) = tt # pieces (set (cstr d)) (cstr r)"
        by (rule strtok_step_pieces)
      have "length r < length s"
        using strtok_shrinks [of d "Some s" tt g'] tok r by (simp add: strtok_continue tok_size_def)
      with less r tok show ?thesis
        by (subst strtok_iter.simps) (simp add: strtok_continue)
    qed
  qed
qed

text \<open>A loop that asks for the next token until there is none ends.\<close>

lemma strtok_loop_dec:
  assumes "strtok None d g = (p', g')"
  shows "tok_size g' + (if p' = None then 0 else 1) < tok_size g + 1"
proof (cases p')
  case None
  have "g' = g"
  proof (cases g)
    case (Some s)
    then show ?thesis
      using assms None strtok_end_pieces(2) [of s d g g'] by (simp add: strtok_continue)
  qed (use assms in simp)
  with None show ?thesis by simp
next
  case (Some t)
  then show ?thesis using assms strtok_shrinks [of d g t g'] by simp
qed

subsection \<open>Numbers\<close>

text \<open>
  The number a digit string denotes, in unbounded integers, and the shape of the strings it is
  read from: digits up to a character that is none.
\<close>

definition dval :: "int \<Rightarrow> char \<Rightarrow> int" where
  "dval base c = the (lib_isbasedigit c base)"

definition num_val :: "int \<Rightarrow> string \<Rightarrow> int" where
  "num_val base ds = foldl (\<lambda>n c. n * base + dval base c) 0 ds"

definition all_digits :: "int \<Rightarrow> string \<Rightarrow> bool" where
  "all_digits base ds \<longleftrightarrow> list_all (\<lambda>c. lib_isbasedigit c base \<noteq> None) ds"

definition no_digit_first :: "int \<Rightarrow> string \<Rightarrow> bool" where
  "no_digit_first base r \<longleftrightarrow> (case r of [] \<Rightarrow> True | c # _ \<Rightarrow> lib_isbasedigit c base = None)"

lemma lib_isbasedigit_range:
  "lib_isbasedigit c base = Some v \<Longrightarrow> 0 \<le> v \<and> v < base"
  by (auto simp: lib_isbasedigit_def Let_def split: if_splits)

lemma lib_isbasedigit_not_sign:
  "lib_isbasedigit c base = Some v \<Longrightarrow> \<not> isspace c \<and> c \<noteq> CHR ''-'' \<and> c \<noteq> CHR ''+'' \<and> c \<noteq> NUL"
  by (auto simp: lib_isbasedigit_def Let_def c2i_def isspace_def split: if_splits)

lemma limit_iff:
  fixes a b v m :: int
  assumes "0 < b" "0 \<le> v" "v < b"
  shows "a > m div b \<or> (a = m div b \<and> v > m mod b) \<longleftrightarrow> a * b + v > m"
proof -
  have m: "m = m div b * b + m mod b" and "0 \<le> m mod b" "m mod b < b"
    using assms(1) by simp_all
  consider "a < m div b" | "a = m div b" | "a > m div b" by linarith
  then show ?thesis
  proof cases
    case 1
    then have "a * b + b \<le> m div b * b"
      using mult_right_mono [of "a + 1" "m div b" b] assms(1) by (simp add: algebra_simps)
    with 1 assms m \<open>0 \<le> m mod b\<close> show ?thesis by linarith
  next
    case 2
    with m show ?thesis by (smt (verit))
  next
    case 3
    then have "m div b * b + b \<le> a * b"
      using mult_right_mono [of "m div b + 1" a b] assms(1) by (simp add: algebra_simps)
    with 3 assms m \<open>m mod b < b\<close> show ?thesis by linarith
  qed
qed

lemma uint_word_of_base:
  "0 < base \<Longrightarrow> base \<le> 36 \<Longrightarrow> uint (word_of_int base :: u32) = base"
  by (simp add: uint_word_of_int)

lemma strtoul_overflow_iff:
  assumes "0 < base" "base \<le> 36" "0 \<le> v" "v < base"
  shows "accum > ULONG_MAX div word_of_int base \<or>
           (accum = ULONG_MAX div word_of_int base \<and> v > uint (ULONG_MAX mod word_of_int base))
         \<longleftrightarrow> uint accum * base + v > uint ULONG_MAX"
  using limit_iff [of base v "uint ULONG_MAX" "uint accum"] assms
  by (simp add: word_less_def uint_div uint_mod uint_word_of_base word_uint_eq_iff)

lemma uint_accum_step:
  fixes accum :: u32
  assumes "0 < base" "base \<le> 36" "0 \<le> v" "v < base" "uint accum * base + v \<le> uint ULONG_MAX"
  shows "uint (accum * word_of_int base + word_of_int v) = uint accum * base + v"
proof -
  have "accum * word_of_int base + word_of_int v = word_of_int (uint accum * base + v)"
    by simp
  moreover have "0 \<le> uint accum * base + v" "uint accum * base + v < 2 ^ 32"
    using assms by (simp_all add: ULONG_MAX_def)
  ultimately show ?thesis by (simp only: uint_word_of_int) simp
qed

lemma num_fold_mono:
  assumes "0 < base" "0 \<le> n" "all_digits base ds"
  shows "n \<le> foldl (\<lambda>n c. n * base + dval base c) n ds"
  using assms(2,3)
proof (induction ds arbitrary: n)
  case (Cons c ds)
  then obtain v where v: "lib_isbasedigit c base = Some v" by (auto simp: all_digits_def)
  note r = lib_isbasedigit_range [OF v]
  have "n * 1 \<le> n * base"
    using Cons.prems assms(1) by (intro mult_left_mono) auto
  with r v have le: "n \<le> n * base + dval base c" "0 \<le> n * base + dval base c"
    using Cons.prems(1) by (auto simp: dval_def)
  with Cons.IH [of "n * base + dval base c"] Cons.prems(2) show ?case
    by (auto simp: all_digits_def)
qed simp

lemma strtoul_rest_digits:
  assumes "all_digits base ds" "no_digit_first base r"
  shows "\<exists>v'. strtoul_rest base v (b, ds @ r) = (v', (rev ds @ b, r)) \<and> (v \<ge> 0 \<longrightarrow> v' \<ge> 0)"
  using assms(1)
proof (induction ds arbitrary: v b)
  case Nil
  then show ?case using assms(2) by (auto simp: no_digit_first_def split: list.splits)
next
  case (Cons c ds)
  then show ?case
    using lib_isbasedigit_range [of c base]
    by (fastforce simp: all_digits_def)
qed

lemma strtoul_loops:
  assumes base: "0 < base" "base \<le> 36" and ds: "all_digits base ds" and r: "no_digit_first base r"
    and v: "ds \<noteq> [] \<or> 0 \<le> v"
    and N: "N = foldl (\<lambda>n c. n * base + dval base c) (uint accum) ds"
  shows "\<exists>v' v'' p. 0 \<le> v'' \<and> strtoul_rest base v' p = (v'', (rev ds @ b, r)) \<and>
           strtoul_acc base accum v (b, ds @ r) =
             (if N \<le> uint ULONG_MAX then (word_of_int N, v', p, None)
              else (ULONG_MAX, v', p, Some ERANGE))"
  using ds v N
proof (induction ds arbitrary: accum v b)
  case Nil
  moreover have "uint accum \<le> uint ULONG_MAX"
    using uint_lt2p [of accum] by (simp add: ULONG_MAX_def)
  ultimately show ?case
    using r by (auto simp: no_digit_first_def split: list.splits)
next
  case (Cons c ds)
  then obtain d where d: "lib_isbasedigit c base = Some d" by (auto simp: all_digits_def)
  note dr = lib_isbasedigit_range [OF d]
  have ds': "all_digits base ds" using Cons.prems(1) by (simp add: all_digits_def)
  note ovf = strtoul_overflow_iff [OF base, of d accum]
  show ?case
  proof (cases "uint accum * base + d > uint ULONG_MAX")
    case True
    have "N > uint ULONG_MAX"
      using num_fold_mono [OF base(1) _ ds', of "uint accum * base + d"] True Cons.prems(3) d dr base
      by (simp add: dval_def)
    moreover obtain v'' where "strtoul_rest base d (b, (c # ds) @ r) = (v'', (rev (c # ds) @ b, r))"
        "0 \<le> v''"
      using strtoul_rest_digits [OF Cons.prems(1) r, of d b] dr by auto
    ultimately show ?thesis using True ovf d dr by auto
  next
    case False
    let ?a = "accum * word_of_int base + word_of_int d"
    have a: "uint ?a = uint accum * base + d"
      using uint_accum_step [OF base, of d accum] dr False by simp
    have "N = foldl (\<lambda>n c. n * base + dval base c) (uint ?a) ds"
      using Cons.prems(3) d a by (simp add: dval_def)
    from Cons.IH [OF ds' _ this, of d "c # b"] False ovf d dr show ?thesis by auto
  qed
qed

lemma lib_skipspace_append:
  "list_all isspace ws \<Longrightarrow> lib_skipspace (b, ws @ s) = lib_skipspace (rev ws @ b, s)"
  by (induction ws arbitrary: b) auto

lemma strtoul_unsigned:
  assumes base: "2 \<le> base" "base \<le> 26" "base \<noteq> 16" and ds: "ds \<noteq> []" "all_digits base ds"
    and r: "no_digit_first base r"
  shows "strtoul (Some (b, ds @ r)) base =
           (word_of_int (min (num_val base ds) (uint ULONG_MAX)), Some (rev ds @ b, r),
            if num_val base ds > uint ULONG_MAX then Some ERANGE else None)"
proof -
  obtain c ds' where c: "ds = c # ds'" using ds(1) by (cases ds) auto
  have c_nosign: "\<not> isspace c \<and> c \<noteq> CHR ''-'' \<and> c \<noteq> CHR ''+''"
    using ds(2) lib_isbasedigit_not_sign [of c base] by (auto simp: c all_digits_def)
  have pre: "lib_skipspace (b, ds @ r) = (b, ds @ r)" "take_sign (b, ds @ r) = (None, (b, ds @ r))"
    "lib_checkbase base (b, ds @ r) = (base, (b, ds @ r))"
    using c_nosign base by (simp_all add: c take_sign_def lib_checkbase_def)
  have "0 < base" "base \<le> 36" using base by simp_all
  from strtoul_loops [OF this ds(2) r, of "-1" "num_val base ds" 0 b] ds(1)
  obtain v' v'' p where p: "0 \<le> v''" "strtoul_rest base v' p = (v'', (rev ds @ b, r))"
    "strtoul_acc base 0 (-1) (b, ds @ r) =
       (if num_val base ds \<le> uint ULONG_MAX then (word_of_int (num_val base ds), v', p, None)
        else (ULONG_MAX, v', p, Some ERANGE))"
    by (auto simp: num_val_def)
  show ?thesis
    using p base by (simp add: strtoul_def pre Let_def)
qed

lemma num_val_nonneg: "0 < base \<Longrightarrow> all_digits base ds \<Longrightarrow> 0 \<le> num_val base ds"
  using num_fold_mono [of base 0 ds] by (simp add: num_val_def)

lemma strtol_reads:
  assumes base: "2 \<le> base" "base \<le> 26" "base \<noteq> 16" and ds: "ds \<noteq> []" "all_digits base ds"
    and r: "no_digit_first base r" and ws: "list_all isspace ws"
    and sg: "sg \<in> {[], ''-'', ''+''}"
    and n: "n = (if sg = ''-'' then - num_val base ds else num_val base ds)"
  shows "strtol (Some (b, ws @ sg @ ds @ r)) base =
           (max LONG_MIN (min LONG_MAX n), Some (rev (ws @ sg @ ds) @ b, r),
            if n < LONG_MIN \<or> n > LONG_MAX then Some ERANGE else None)"
proof -
  obtain c ds' where c: "ds = c # ds'" using ds(1) by (cases ds) auto
  have c_nosign: "\<not> isspace c \<and> c \<noteq> CHR ''-'' \<and> c \<noteq> CHR ''+''"
    using ds(2) lib_isbasedigit_not_sign [of c base] by (auto simp: c all_digits_def)
  have last: "last ds \<noteq> CHR ''-'' \<and> last ds \<noteq> CHR ''+''"
  proof -
    have "last ds \<in> set ds" using ds(1) by simp
    then show ?thesis
      using ds(2) lib_isbasedigit_not_sign [of "last ds" base] by (auto simp: all_digits_def list_all_iff)
  qed
  have prev_ds: "prevc (rev ds @ b', r) = Some (last ds)" for b'
    using ds(1) by (cases ds rule: rev_cases) auto
  have skip: "lib_skipspace (b, ws @ sg @ ds @ r) = (rev ws @ b, sg @ ds @ r)"
    using sg c_nosign ws by (auto simp: lib_skipspace_append c isspace_def)
  have sign: "take_sign (rev ws @ b, sg @ ds @ r) =
      (if sg = [] then None else Some (hd sg), (rev sg @ rev ws @ b, ds @ r))"
    using sg c_nosign by (auto simp: take_sign_def c)
  define N where "N = num_val base ds"
  have N: "0 \<le> N" using base ds by (simp add: N_def num_val_nonneg)
  define W :: u32 where "W = word_of_int (min N (uint ULONG_MAX))"
  have W: "uint W = min N 4294967295"
    using N by (simp add: W_def uint_word_of_int ULONG_MAX_def)
  have strtoul: "strtoul (Some (b', ds @ r)) base =
      (W, Some (rev ds @ b', r), if N > 4294967295 then Some ERANGE else None)" for b'
    using strtoul_unsigned [OF base ds r, of b'] by (simp add: W_def N_def ULONG_MAX_def)
  show ?thesis
    using sg N n last
    by (auto simp: strtol_def skip sign strtoul prev_ds W N_def [symmetric] LONG_MAX_def LONG_MIN_def
        simp del: of_int_min)
qed

text \<open>
  C23. \<^verbatim>\<open>strtol\<close> reads exactly the number that is written: on white space, an optional sign, a
  non-empty run of digits of the base and a rest that does not go on with a digit, it returns
  the number clamped to the range of a 32-bit \<^verbatim>\<open>long\<close>, sets ERANGE exactly when it clamped, and
  leaves the end pointer at the rest.
\<close>

theorem strtol_digits:
  assumes base: "2 \<le> base" "base \<le> 26" "base \<noteq> 16" and ds: "ds \<noteq> []" "all_digits base ds"
    and r: "no_digit_first base r" and ws: "list_all isspace ws"
    and sg: "sg \<in> {[], ''-'', ''+''}"
    and n: "n = (if sg = ''-'' then - num_val base ds else num_val base ds)"
  shows "strtol (Some (b, ws @ sg @ ds @ r)) base =
           (max LONG_MIN (min LONG_MAX n), Some (rev (ws @ sg @ ds) @ b, r),
            if n < LONG_MIN \<or> n > LONG_MAX then Some ERANGE else None)"
  using assms by (rule strtol_reads)

theorem strtol_digits_witness:
  "strtol (Some ([], '' -12,PA5'')) 10 = (-12, Some (''21- '', '',PA5''), None)"
  using strtol_digits [of 10 "''12''" "'',PA5''" "'' ''" "''-''" "-12" "[]"]
  by (simp add: all_digits_def no_digit_first_def lib_isbasedigit_def c2i_def isspace_def
      num_val_def dval_def LONG_MIN_def LONG_MAX_def)

lemma strtok_all_pieces:
  "(case strtok (Some s) delim g of
      (None, g') \<Rightarrow> []
    | (Some t, g') \<Rightarrow> t # strtok_iter delim g') = pieces (set (cstr delim)) (cstr s)"
proof (cases "strtok (Some s) delim g")
  case (Pair t g')
  show ?thesis
  proof (cases t)
    case None
    with Pair strtok_end_pieces [of s delim g] show ?thesis by simp
  next
    case (Some tt)
    with Pair have tok: "strtok (Some s) delim g = (Some tt, g')" by simp
    show ?thesis
      by (rule strtok_step_pieces [OF tok]) (simp add: tok strtok_iter_pieces)
  qed
qed

text \<open>
  C24. The tokens successive \<^verbatim>\<open>strtok\<close> calls hand out are exactly the non-empty pieces between
  delimiters, in order: the first call on the string followed by calls with a null pointer
  until one returns NULL gives the same list as cutting the string at every delimiter, whatever
  an earlier use left in the saved pointer.
\<close>

theorem strtok_tokens:
  "(case strtok (Some s) delim g of
      (None, g') \<Rightarrow> []
    | (Some t, g') \<Rightarrow> t # strtok_iter delim g') = pieces (set (cstr delim)) (cstr s)"
  by (rule strtok_all_pieces)

lemma cut_at_length: "sum_list (map length (cut_at D s)) + length (cut_at D s) = Suc (length s)"
proof (induction s)
  case (Cons c s)
  obtain t ts where "cut_at D s = t # ts" by (metis cut_at_not_Nil list.exhaust)
  with Cons show ?case by simp
qed simp

lemma pieces_length: "2 * length (pieces D s) \<le> length s + 1"
proof -
  have "length (filter (\<lambda>t. t \<noteq> []) ts) \<le> sum_list (map length ts)" for ts :: "string list"
    proof (induction ts)
    case (Cons t ts)
    then show ?case by (cases t) simp_all
  qed simp
  from this [of "cut_at D s"] cut_at_length [of D s] length_filter_le [of "\<lambda>t. t \<noteq> []" "cut_at D s"]
  show ?thesis unfolding pieces_def by linarith
qed

lemma strtok_again_iter: "fst (strtok_again d (Suc (length (strtok_iter d g))) (Some t, g)) = None"
proof (induction d g arbitrary: t rule: strtok_iter.induct)
  case (1 d g)
  obtain t' g' where s: "strtok None d g = (t', g')" by (rule prod.exhaust)
  show ?case
  proof (cases t')
    case None
    then show ?thesis using s by (simp add: strtok_iter.simps [of d g])
  next
    case (Some u)
    then show ?thesis using 1 s by (simp add: strtok_iter.simps [of d g])
  qed
qed

lemma cstr_length: "length (cstr s) = strlen s"
  by (induction s) (simp_all add: cstr_def)

text \<open>
  C25. A token loop ends: whatever the string and the delimiters, after the first \<^verbatim>\<open>strtok\<close> at most
  half as many further calls as the string has characters (rounded up) are made until one
  returns NULL, whatever an earlier use left in the saved pointer.
\<close>

theorem strtok_loop_ends:
  "\<exists>n. 2 * n \<le> strlen s + 1 \<and> fst (strtok_again delim n (strtok (Some s) delim g)) = None"
proof (cases "strtok (Some s) delim g")
  case (Pair t g')
  show ?thesis
  proof (cases t)
    case None
    then show ?thesis using Pair by (intro exI [of _ 0]) simp
  next
    case (Some u)
    have "Suc (length (strtok_iter delim g')) = length (pieces (set (cstr delim)) (cstr s))"
      using arg_cong [OF strtok_all_pieces [of delim s g], of length] Pair Some by simp
    then show ?thesis
      using strtok_again_iter [of delim g' u] pieces_length [of "set (cstr delim)" "cstr s"] Pair Some
      by (intro exI [of _ "Suc (length (strtok_iter delim g'))"]) (simp add: cstr_length)
  qed
qed

text \<open>
  \<^verbatim>\<open>strtoul\<close> accepts no base above 26, although the digit tables of \<^verbatim>\<open>lib_isbasedigit\<close> reach
  base 36: for such a base, as for base 1 and the negative ones, it returns 0 with EINVAL and
  the end pointer at the start of the string.
\<close>

theorem strtoul_bad_base:
  assumes "base > 26 \<or> base = 1 \<or> base < 0"
  shows "strtoul (Some p) base = (0, Some p, Some EINVAL)"
proof -
  obtain sg q where q: "take_sign (lib_skipspace p) = (sg, q)" by (rule prod.exhaust)
  have "lib_checkbase base q = (-1, q)"
    using assms by (auto simp: lib_checkbase_def)
  with q show ?thesis by (simp add: strtoul_def)
qed

theorem strtoul_bad_base_witness:
  "strtoul (Some ([], ''z'')) 36 = (0, Some ([], ''z''), Some EINVAL)"
  using strtoul_bad_base [of 36 "([], ''z'')"] by simp

end
