(* ===== verification/Stm32_Gpio.thy ===== *)
theory Stm32_Gpio
  imports Nx_Prelude
begin

text \<open>
  The GPIO port driver of the STM32H7, \<^verbatim>\<open>nuttx/arch/arm/src/stm32h7/stm32_gpio.c\<close>, with the pin
  encoding of \<^verbatim>\<open>stm32_gpio.h\<close> and the register layout of \<^verbatim>\<open>hardware/stm32h7x3xx_gpio.h\<close>.

  A pin is described by one 32-bit configuration word (mode, pull, alternate function, speed,
  output type, initial value or EXTI flag, port, pin). The operations read and write the
  register bus. The abstract view is \<open>gpio_abs\<close>: what every pin of every port is configured
  as, and \<open>latch\<close>: the output level last driven on a pin, read from the write log because
  \<^verbatim>\<open>BSRR\<close> is a write-only register. The input data registers are set by the outside world; a
  theorem about them holds for every content.

  The spinlock around the register updates is not modelled: an operation is one step.
\<close>

subsection \<open>The pin configuration word\<close>

definition GPIO_MODE_MASK :: u32 where "GPIO_MODE_MASK = push_bit 18 3"
definition GPIO_INPUT :: u32 where "GPIO_INPUT = push_bit 18 0"
definition GPIO_OUTPUT :: u32 where "GPIO_OUTPUT = push_bit 18 1"
definition GPIO_ALT :: u32 where "GPIO_ALT = push_bit 18 2"
definition GPIO_ANALOG :: u32 where "GPIO_ANALOG = push_bit 18 3"
definition GPIO_PUPD_MASK :: u32 where "GPIO_PUPD_MASK = push_bit 16 3"
definition GPIO_FLOAT :: u32 where "GPIO_FLOAT = push_bit 16 0"
definition GPIO_PULLUP :: u32 where "GPIO_PULLUP = push_bit 16 1"
definition GPIO_PULLDOWN :: u32 where "GPIO_PULLDOWN = push_bit 16 2"
definition GPIO_AF_MASK :: u32 where "GPIO_AF_MASK = push_bit 12 15"
definition GPIO_SPEED_MASK :: u32 where "GPIO_SPEED_MASK = push_bit 10 3"
definition GPIO_SPEED_2MHz :: u32 where "GPIO_SPEED_2MHz = push_bit 10 0"
definition GPIO_SPEED_25MHz :: u32 where "GPIO_SPEED_25MHz = push_bit 10 1"
definition GPIO_SPEED_50MHz :: u32 where "GPIO_SPEED_50MHz = push_bit 10 2"
definition GPIO_SPEED_100MHz :: u32 where "GPIO_SPEED_100MHz = push_bit 10 3"
definition GPIO_OPENDRAIN :: u32 where "GPIO_OPENDRAIN = push_bit 9 1"
definition GPIO_PUSHPULL :: u32 where "GPIO_PUSHPULL = 0"
definition GPIO_OUTPUT_SET :: u32 where "GPIO_OUTPUT_SET = push_bit 8 1"
definition GPIO_OUTPUT_CLEAR :: u32 where "GPIO_OUTPUT_CLEAR = 0"
definition GPIO_EXTI :: u32 where "GPIO_EXTI = push_bit 8 1"
definition GPIO_PORT_MASK :: u32 where "GPIO_PORT_MASK = push_bit 4 15"
definition GPIO_PIN_MASK :: u32 where "GPIO_PIN_MASK = push_bit 0 15"

lemmas gpio_consts =
  GPIO_MODE_MASK_def GPIO_INPUT_def GPIO_OUTPUT_def GPIO_ALT_def GPIO_ANALOG_def
  GPIO_PUPD_MASK_def GPIO_FLOAT_def GPIO_PULLUP_def GPIO_PULLDOWN_def GPIO_AF_MASK_def
  GPIO_SPEED_MASK_def GPIO_SPEED_2MHz_def GPIO_SPEED_25MHz_def GPIO_SPEED_50MHz_def
  GPIO_SPEED_100MHz_def GPIO_OPENDRAIN_def GPIO_PUSHPULL_def GPIO_OUTPUT_SET_def
  GPIO_OUTPUT_CLEAR_def GPIO_EXTI_def GPIO_PORT_MASK_def GPIO_PIN_MASK_def

text \<open>\<^verbatim>\<open>GPIO_PORTx\<close> and \<^verbatim>\<open>GPIO_PINn\<close>, by number.\<close>

definition GPIO_PORT :: "nat \<Rightarrow> u32" where "GPIO_PORT n = push_bit 4 (word_of_nat n)"
definition GPIO_PIN :: "nat \<Rightarrow> u32" where "GPIO_PIN n = push_bit 0 (word_of_nat n)"

definition gpio_port :: "u32 \<Rightarrow> nat" where
  "gpio_port cfgset = unat (drop_bit 4 (cfgset AND GPIO_PORT_MASK))"

definition gpio_pin :: "u32 \<Rightarrow> nat" where
  "gpio_pin cfgset = unat (drop_bit 0 (cfgset AND GPIO_PIN_MASK))"

subsection \<open>Ports and registers\<close>

definition STM32H7_NGPIO :: nat where "STM32H7_NGPIO = 8"

definition g_gpiobase :: "u32 list" where
  "g_gpiobase =
     [0x58020000, 0x58020400, 0x58020800, 0x58020c00, 0x58021000, 0x58021400, 0x58021800, 0x58021c00]"

definition STM32_GPIO_MODER_OFFSET :: u32 where "STM32_GPIO_MODER_OFFSET = 0x00"
definition STM32_GPIO_OTYPER_OFFSET :: u32 where "STM32_GPIO_OTYPER_OFFSET = 0x04"
definition STM32_GPIO_OSPEED_OFFSET :: u32 where "STM32_GPIO_OSPEED_OFFSET = 0x08"
definition STM32_GPIO_PUPDR_OFFSET :: u32 where "STM32_GPIO_PUPDR_OFFSET = 0x0c"
definition STM32_GPIO_IDR_OFFSET :: u32 where "STM32_GPIO_IDR_OFFSET = 0x10"
definition STM32_GPIO_ODR_OFFSET :: u32 where "STM32_GPIO_ODR_OFFSET = 0x14"
definition STM32_GPIO_BSRR_OFFSET :: u32 where "STM32_GPIO_BSRR_OFFSET = 0x18"
definition STM32_GPIO_AFRL_OFFSET :: u32 where "STM32_GPIO_AFRL_OFFSET = 0x20"
definition STM32_GPIO_AFRH_OFFSET :: u32 where "STM32_GPIO_AFRH_OFFSET = 0x24"

lemmas gpio_offsets =
  STM32_GPIO_MODER_OFFSET_def STM32_GPIO_OTYPER_OFFSET_def STM32_GPIO_OSPEED_OFFSET_def
  STM32_GPIO_PUPDR_OFFSET_def STM32_GPIO_IDR_OFFSET_def STM32_GPIO_ODR_OFFSET_def
  STM32_GPIO_BSRR_OFFSET_def STM32_GPIO_AFRL_OFFSET_def STM32_GPIO_AFRH_OFFSET_def

definition GPIO_MODER_INPUT :: u32 where "GPIO_MODER_INPUT = 0"
definition GPIO_MODER_OUTPUT :: u32 where "GPIO_MODER_OUTPUT = 1"
definition GPIO_MODER_ALT :: u32 where "GPIO_MODER_ALT = 2"
definition GPIO_MODER_ANALOG :: u32 where "GPIO_MODER_ANALOG = 3"

lemmas gpio_modes =
  GPIO_MODER_INPUT_def GPIO_MODER_OUTPUT_def GPIO_MODER_ALT_def GPIO_MODER_ANALOG_def

definition GPIO_PUPDR_NONE :: u32 where "GPIO_PUPDR_NONE = 0"
definition GPIO_PUPDR_PULLUP :: u32 where "GPIO_PUPDR_PULLUP = 1"
definition GPIO_PUPDR_PULLDOWN :: u32 where "GPIO_PUPDR_PULLDOWN = 2"

definition GPIO_OSPEED_2MHz :: u32 where "GPIO_OSPEED_2MHz = 0"
definition GPIO_OSPEED_25MHz :: u32 where "GPIO_OSPEED_25MHz = 1"
definition GPIO_OSPEED_50MHz :: u32 where "GPIO_OSPEED_50MHz = 2"
definition GPIO_OSPEED_100MHz :: u32 where "GPIO_OSPEED_100MHz = 3"

lemmas gpio_settings =
  GPIO_PUPDR_NONE_def GPIO_PUPDR_PULLUP_def GPIO_PUPDR_PULLDOWN_def
  GPIO_OSPEED_2MHz_def GPIO_OSPEED_25MHz_def GPIO_OSPEED_50MHz_def GPIO_OSPEED_100MHz_def

definition GPIO_BSRR_SET :: "nat \<Rightarrow> u32" where "GPIO_BSRR_SET n = push_bit n 1"
definition GPIO_BSRR_RESET :: "nat \<Rightarrow> u32" where "GPIO_BSRR_RESET n = push_bit (n + 16) 1"
definition GPIO_OTYPER_OD :: "nat \<Rightarrow> u32" where "GPIO_OTYPER_OD n = push_bit n 1"

definition STM32_SYSCFG_EXTICR :: "nat \<Rightarrow> u32" where
  "STM32_SYSCFG_EXTICR p = 0x58000400 + (0x0008 + (word_of_nat p AND 0x0c))"

definition SYSCFG_EXTICR_EXTI_SHIFT :: "nat \<Rightarrow> nat" where
  "SYSCFG_EXTICR_EXTI_SHIFT p = 4 * (p mod 4)"

lemma gpio_offset_bounds [simp]:
  "unat STM32_GPIO_MODER_OFFSET < 0x400"
  "unat STM32_GPIO_OTYPER_OFFSET < 0x400"
  "unat STM32_GPIO_OSPEED_OFFSET < 0x400"
  "unat STM32_GPIO_PUPDR_OFFSET < 0x400"
  "unat STM32_GPIO_IDR_OFFSET < 0x400"
  "unat STM32_GPIO_ODR_OFFSET < 0x400"
  "unat STM32_GPIO_BSRR_OFFSET < 0x400"
  "unat STM32_GPIO_AFRL_OFFSET < 0x400"
  "unat STM32_GPIO_AFRH_OFFSET < 0x400"
  "unat STM32_GPIO_MODER_OFFSET < 0x20"
  "unat STM32_GPIO_OTYPER_OFFSET < 0x20"
  "unat STM32_GPIO_OSPEED_OFFSET < 0x20"
  "unat STM32_GPIO_PUPDR_OFFSET < 0x20"
  "unat STM32_GPIO_IDR_OFFSET < 0x20"
  "unat STM32_GPIO_ODR_OFFSET < 0x20"
  "unat STM32_GPIO_BSRR_OFFSET < 0x20"
  by (simp_all add: gpio_offsets)

lemma gpio_offset_distinct:
  "distinct [STM32_GPIO_MODER_OFFSET,
     STM32_GPIO_OTYPER_OFFSET,
     STM32_GPIO_OSPEED_OFFSET,
     STM32_GPIO_PUPDR_OFFSET,
     STM32_GPIO_IDR_OFFSET,
     STM32_GPIO_ODR_OFFSET,
     STM32_GPIO_BSRR_OFFSET,
     STM32_GPIO_AFRL_OFFSET,
     STM32_GPIO_AFRH_OFFSET]"
  "distinct [STM32_GPIO_AFRH_OFFSET,
     STM32_GPIO_AFRL_OFFSET,
     STM32_GPIO_BSRR_OFFSET,
     STM32_GPIO_ODR_OFFSET,
     STM32_GPIO_IDR_OFFSET,
     STM32_GPIO_PUPDR_OFFSET,
     STM32_GPIO_OSPEED_OFFSET,
     STM32_GPIO_OTYPER_OFFSET,
     STM32_GPIO_MODER_OFFSET]"
  by (simp_all add: gpio_offsets)

lemmas gpio_offset_neq [simp] = gpio_offset_distinct [simplified]

subsection \<open>Operations\<close>

definition stm32_gpiowrite :: "u32 \<Rightarrow> bool \<Rightarrow> bus \<Rightarrow> bus" where
  "stm32_gpiowrite pinset value h =
     (let port = gpio_port pinset in
      if port < STM32H7_NGPIO then
        let base = g_gpiobase ! port in
        if base \<noteq> 0 then
          let pin = gpio_pin pinset;
              bit = (if value then GPIO_BSRR_SET pin else GPIO_BSRR_RESET pin)
          in putreg32 bit (base + STM32_GPIO_BSRR_OFFSET) h
        else h
      else h)"

definition stm32_gpioread :: "u32 \<Rightarrow> bus \<Rightarrow> bool" where
  "stm32_gpioread pinset h =
     (let port = gpio_port pinset in
      if port < STM32H7_NGPIO then
        let base = g_gpiobase ! port in
        if base \<noteq> 0 then
          let pin = gpio_pin pinset
          in getreg32 (base + STM32_GPIO_IDR_OFFSET) h AND push_bit pin 1 \<noteq> 0
        else False
      else False)"

text \<open>The alternate function write, which \<^verbatim>\<open>stm32_configgpio\<close> has in two places.\<close>

definition config_afr :: "u32 \<Rightarrow> nat \<Rightarrow> u32 \<Rightarrow> bus \<Rightarrow> bus" where
  "config_afr base pin alt_setting h =
     (let (regoffset, pos) = (if pin < 8 then (STM32_GPIO_AFRL_OFFSET, pin)
                              else (STM32_GPIO_AFRH_OFFSET, pin - 8));
          regval = getreg32 (base + regoffset) h
      in putreg32 (reg_update 15 (4 * pos) alt_setting regval) (base + regoffset) h)"

definition stm32_configgpio :: "u32 \<Rightarrow> bus \<Rightarrow> int \<times> bus" where
  "stm32_configgpio cfgset h =
     (let port = gpio_port cfgset in
      if port \<ge> STM32H7_NGPIO then (- EINVAL, h)
      else let base = g_gpiobase ! port in
      if base = 0 then (- EINVAL, h)
      else let
        pin = gpio_pin cfgset;
        mode = cfgset AND GPIO_MODE_MASK;
        (pinmode, h) =
          (if mode = GPIO_OUTPUT then
             (GPIO_MODER_OUTPUT, stm32_gpiowrite cfgset (cfgset AND GPIO_OUTPUT_SET \<noteq> 0) h)
           else if mode = GPIO_ALT then (GPIO_MODER_ALT, h)
           else if mode = GPIO_ANALOG then (GPIO_MODER_ANALOG, h)
           else (GPIO_MODER_INPUT, h));
        alt_setting =
          (if pinmode = GPIO_MODER_ALT then drop_bit 12 (cfgset AND GPIO_AF_MASK) else 0);
        h = (if alt_setting \<noteq> 0 then config_afr base pin alt_setting h else h);
        regval = getreg32 (base + STM32_GPIO_MODER_OFFSET) h;
        h = putreg32 (reg_update 3 (2 * pin) pinmode regval) (base + STM32_GPIO_MODER_OFFSET) h;
        setting =
          (if pinmode \<noteq> GPIO_MODER_ANALOG then
             (if cfgset AND GPIO_PUPD_MASK = GPIO_PULLUP then GPIO_PUPDR_PULLUP
              else if cfgset AND GPIO_PUPD_MASK = GPIO_PULLDOWN then GPIO_PUPDR_PULLDOWN
              else GPIO_PUPDR_NONE)
           else GPIO_PUPDR_NONE);
        regval = getreg32 (base + STM32_GPIO_PUPDR_OFFSET) h;
        h = putreg32 (reg_update 3 (2 * pin) setting regval) (base + STM32_GPIO_PUPDR_OFFSET) h;
        h = (if alt_setting = 0 then config_afr base pin alt_setting h else h);
        setting =
          (if pinmode = GPIO_MODER_OUTPUT \<or> pinmode = GPIO_MODER_ALT then
             (if cfgset AND GPIO_SPEED_MASK = GPIO_SPEED_25MHz then GPIO_OSPEED_25MHz
              else if cfgset AND GPIO_SPEED_MASK = GPIO_SPEED_50MHz then GPIO_OSPEED_50MHz
              else if cfgset AND GPIO_SPEED_MASK = GPIO_SPEED_100MHz then GPIO_OSPEED_100MHz
              else GPIO_OSPEED_2MHz)
           else 0);
        regval = getreg32 (base + STM32_GPIO_OSPEED_OFFSET) h;
        h = putreg32 (reg_update 3 (2 * pin) setting regval) (base + STM32_GPIO_OSPEED_OFFSET) h;
        regval = getreg32 (base + STM32_GPIO_OTYPER_OFFSET) h;
        setting = GPIO_OTYPER_OD pin;
        regval =
          (if (pinmode = GPIO_MODER_OUTPUT \<or> pinmode = GPIO_MODER_ALT) \<and>
              cfgset AND GPIO_OPENDRAIN \<noteq> 0
           then regval OR setting else regval AND NOT setting);
        h = putreg32 regval (base + STM32_GPIO_OTYPER_OFFSET) h;
        h = (if pinmode \<noteq> GPIO_MODER_OUTPUT \<and> cfgset AND GPIO_EXTI \<noteq> 0 then
               (let regaddr = STM32_SYSCFG_EXTICR pin;
                    regval = getreg32 regaddr h;
                    shift = SYSCFG_EXTICR_EXTI_SHIFT pin
                in putreg32 (reg_update 15 shift (word_of_nat port) regval) regaddr h)
             else h)
      in (OK, h))"

definition stm32_unconfiggpio :: "u32 \<Rightarrow> bus \<Rightarrow> int \<times> bus" where
  "stm32_unconfiggpio cfgset h =
     (let cfgset = cfgset AND (GPIO_PORT_MASK OR GPIO_PIN_MASK);
          cfgset = cfgset OR (GPIO_INPUT OR GPIO_FLOAT)
      in stm32_configgpio cfgset h)"

subsection \<open>Fields of the configuration word\<close>

lemma field_and_mask: "reg_field w s c = drop_bit s (c AND push_bit s (mask w))"
  by (rule bit_word_eqI) (auto simp: bit_reg_field bit_simps dest: bit_imp_le_length)

lemma and_field_mask: "c AND push_bit s (mask w) = push_bit s (reg_field w s c)" for c :: u32
  by (rule bit_word_eqI) (auto simp: bit_reg_field bit_simps)

lemma gpio_port_field [cfg_simps]: "gpio_port c = unat (reg_field 4 4 c)"
  by (simp add: gpio_port_def GPIO_PORT_MASK_def field_and_mask mask_numerals)

lemma gpio_pin_field [cfg_simps]: "gpio_pin c = unat (reg_field 4 0 c)"
  by (simp add: gpio_pin_def GPIO_PIN_MASK_def field_and_mask mask_numerals)

lemma unat_reg_field_less: "unat (reg_field w s c) < 2 ^ w"
  by (simp add: reg_field_def unsigned_take_bit_eq)

lemma gpio_port_less [simp]: "gpio_port c < 16"
  using unat_reg_field_less [of 4 4 c] by (simp add: gpio_port_field)

lemma gpio_pin_less [simp]: "gpio_pin c < 16"
  using unat_reg_field_less [of 4 0 c] by (simp add: gpio_pin_field)

lemma take_bit_reg_field [simp]: "take_bit w (reg_field w s c) = reg_field w s c"
  by (simp add: reg_field_def)

lemma field2_cases:
  obtains "reg_field 2 s c = 0" | "reg_field 2 s c = 1" | "reg_field 2 s c = 2" | "reg_field 2 s c = 3"
proof -
  have "unat (reg_field 2 s c) < 4" using unat_reg_field_less [of 2 s c] by simp
  then consider "unat (reg_field 2 s c) = 0" | "unat (reg_field 2 s c) = 1"
    | "unat (reg_field 2 s c) = 2" | "unat (reg_field 2 s c) = 3" by linarith
  then show thesis
    using that by cases (simp_all add: word_unat_eq_iff)
qed

lemma and_bit_iff: "c AND push_bit s 1 \<noteq> 0 \<longleftrightarrow> bit c s" if "s < 32" for c :: u32
proof -
  have "c AND push_bit s 1 = (if bit c s then push_bit s 1 else 0)"
    by (rule bit_word_eqI) (auto simp: bit_simps)
  moreover have "bit (push_bit s 1 :: u32) s"
    using that by (simp add: bit_simps)
  ultimately show ?thesis using that by auto
qed

lemma cfg_mode [cfg_simps]:
  "(c AND GPIO_MODE_MASK = GPIO_OUTPUT) \<longleftrightarrow> reg_field 2 18 c = 1"
  "(c AND GPIO_MODE_MASK = GPIO_ALT) \<longleftrightarrow> reg_field 2 18 c = 2"
  "(c AND GPIO_MODE_MASK = GPIO_ANALOG) \<longleftrightarrow> reg_field 2 18 c = 3"
  using and_field_mask [of c 18 2]
  by (cases rule: field2_cases [of 18 c]; simp add: gpio_consts mask_numerals)+

lemma cfg_pupd [cfg_simps]:
  "(c AND GPIO_PUPD_MASK = GPIO_PULLUP) \<longleftrightarrow> reg_field 2 16 c = 1"
  "(c AND GPIO_PUPD_MASK = GPIO_PULLDOWN) \<longleftrightarrow> reg_field 2 16 c = 2"
  using and_field_mask [of c 16 2]
  by (cases rule: field2_cases [of 16 c]; simp add: gpio_consts mask_numerals)+

lemma cfg_speed [cfg_simps]:
  "(c AND GPIO_SPEED_MASK = GPIO_SPEED_25MHz) \<longleftrightarrow> reg_field 2 10 c = 1"
  "(c AND GPIO_SPEED_MASK = GPIO_SPEED_50MHz) \<longleftrightarrow> reg_field 2 10 c = 2"
  "(c AND GPIO_SPEED_MASK = GPIO_SPEED_100MHz) \<longleftrightarrow> reg_field 2 10 c = 3"
  using and_field_mask [of c 10 2]
  by (cases rule: field2_cases [of 10 c]; simp add: gpio_consts mask_numerals)+

lemma cfg_af [cfg_simps]: "drop_bit 12 (c AND GPIO_AF_MASK) = reg_field 4 12 c"
  by (simp add: GPIO_AF_MASK_def field_and_mask mask_numerals)

lemma cfg_flags [cfg_simps]:
  "c AND GPIO_OPENDRAIN \<noteq> 0 \<longleftrightarrow> bit c 9"
  "c AND GPIO_OUTPUT_SET \<noteq> 0 \<longleftrightarrow> bit c 8"
  "c AND GPIO_EXTI \<noteq> 0 \<longleftrightarrow> bit c 8"
  using and_bit_iff [of 9 c] and_bit_iff [of 8 c] by (simp_all add: gpio_consts)

subsection \<open>Register addresses\<close>

lemma gpiobase_unat:
  assumes "port < 8" shows "unat (g_gpiobase ! port) = 0x58020000 + 0x400 * port"
  using below_8 [OF assms] by (elim enumE) (simp_all add: g_gpiobase_def)

lemma gpiobase_nonzero [simp]: "port < 8 \<Longrightarrow> g_gpiobase ! port \<noteq> 0"
  using gpiobase_unat [of port] by (auto simp: unat_eq_zero)

lemma gpio_reg_unat:
  assumes "port < 8" "unat off < 0x400"
  shows "unat (g_gpiobase ! port + off) = 0x58020000 + 0x400 * port + unat off"
  using assms gpiobase_unat [of port] by (simp add: unat_word_ariths)

text \<open>Two registers of the GPIO blocks have the same address only if they are the same.\<close>

lemma gpio_reg_eq_iff [bus_simps]:
  assumes "port < 8" "port' < 8" "unat off < 0x400" "unat off' < 0x400"
  shows "g_gpiobase ! port + off = g_gpiobase ! port' + off' \<longleftrightarrow> port = port' \<and> off = off'"
proof
  assume "g_gpiobase ! port + off = g_gpiobase ! port' + off'"
  then have eq: "0x400 * port + unat off = 0x400 * port' + unat off'"
    using gpio_reg_unat [OF assms(1,3)] gpio_reg_unat [OF assms(2,4)] by simp
  then have "(0x400 * port + unat off) div 0x400 = (0x400 * port' + unat off') div 0x400" by simp
  then have "port = port'" using assms(3,4) by simp
  with eq show "port = port' \<and> off = off'" by (simp add: word_unat_eq_iff)
qed simp

lemma gpiobase_eq_iff [bus_simps]:
  "port < 8 \<Longrightarrow> port' < 8 \<Longrightarrow> g_gpiobase ! port = g_gpiobase ! port' \<longleftrightarrow> port = port'"
  using gpiobase_unat [of port] gpiobase_unat [of port'] by (auto simp: word_unat_eq_iff)

lemma exticr_unat: "unat (STM32_SYSCFG_EXTICR p) < 0x58001000"
proof -
  have "word_of_nat p AND 0x0c \<le> (0x0c :: u32)" by (rule word_and_le1)
  then have "unat (word_of_nat p AND 0x0c :: u32) \<le> 0x0c" by (simp add: word_le_nat_alt)
  then show ?thesis by (simp add: STM32_SYSCFG_EXTICR_def unat_word_ariths)
qed

lemma exticr_neq_gpio [simp]:
  assumes "port < 8" "unat off < 0x400"
  shows "STM32_SYSCFG_EXTICR p \<noteq> g_gpiobase ! port + off"
    and "g_gpiobase ! port + off \<noteq> STM32_SYSCFG_EXTICR p"
proof -
  have "unat (STM32_SYSCFG_EXTICR p) < unat (g_gpiobase ! port + off)"
    using exticr_unat [of p] gpio_reg_unat [OF assms] by linarith
  then show "STM32_SYSCFG_EXTICR p \<noteq> g_gpiobase ! port + off"
    and "g_gpiobase ! port + off \<noteq> STM32_SYSCFG_EXTICR p" by auto
qed

lemma exticr_addr:
  assumes "p < 16" shows "unat (STM32_SYSCFG_EXTICR p) = 0x58000408 + 4 * (p div 4)"
  using below_16 [OF assms] by (elim enumE) (simp_all add: STM32_SYSCFG_EXTICR_def)

lemma exticr_same_reg:
  "p < 16 \<Longrightarrow> q < 16 \<Longrightarrow> STM32_SYSCFG_EXTICR p = STM32_SYSCFG_EXTICR q \<longleftrightarrow> p div 4 = q div 4"
  by (simp add: word_unat_eq_iff exticr_addr)

subsection \<open>The abstract view of the ports\<close>

record pin_config =
  pc_mode :: u32
  pc_pull :: u32
  pc_af :: u32
  pc_speed :: u32
  pc_od :: bool

definition afr_reg :: "nat \<Rightarrow> nat \<Rightarrow> u32" where
  "afr_reg port pin =
     g_gpiobase ! port + (if pin < 8 then STM32_GPIO_AFRL_OFFSET else STM32_GPIO_AFRH_OFFSET)"

definition afr_shift :: "nat \<Rightarrow> nat" where
  "afr_shift pin = 4 * (if pin < 8 then pin else pin - 8)"

text \<open>What the registers say about a pin.\<close>

definition gpio_abs :: "bus \<Rightarrow> nat \<times> nat \<Rightarrow> pin_config option" where
  "gpio_abs h = (\<lambda>(port, pin).
     if port < STM32H7_NGPIO \<and> pin < 16 then
       let base = g_gpiobase ! port in
       Some \<lparr>pc_mode = reg_field 2 (2 * pin) (getreg32 (base + STM32_GPIO_MODER_OFFSET) h),
             pc_pull = reg_field 2 (2 * pin) (getreg32 (base + STM32_GPIO_PUPDR_OFFSET) h),
             pc_af = reg_field 4 (afr_shift pin) (getreg32 (afr_reg port pin) h),
             pc_speed = reg_field 2 (2 * pin) (getreg32 (base + STM32_GPIO_OSPEED_OFFSET) h),
             pc_od = bit (getreg32 (base + STM32_GPIO_OTYPER_OFFSET) h) pin\<rparr>
     else None)"

text \<open>What a configuration word asks for.\<close>

definition cfg_of :: "u32 \<Rightarrow> pin_config" where
  "cfg_of c =
     (let m = reg_field 2 18 c; pull = reg_field 2 16 c; drive = (m = 1 \<or> m = 2) in
      \<lparr>pc_mode = m,
       pc_pull = (if m = 3 \<or> pull = 3 then 0 else pull),
       pc_af = (if m = 2 then reg_field 4 12 c else 0),
       pc_speed = (if drive then reg_field 2 10 c else 0),
       pc_od = (drive \<and> bit c 9)\<rparr>)"

text \<open>The port a line of the external interrupt controller listens to.\<close>

definition exti_source :: "bus \<Rightarrow> nat \<Rightarrow> u32" where
  "exti_source h line =
     reg_field 4 (SYSCFG_EXTICR_EXTI_SHIFT line) (getreg32 (STM32_SYSCFG_EXTICR line) h)"

text \<open>The level last driven on a pin, from a write log (newest write first).\<close>

fun latch :: "nat \<Rightarrow> nat \<Rightarrow> (u32 \<times> u32) list \<Rightarrow> bool option" where
  "latch port pin [] = None"
| "latch port pin ((a, v) # l) =
     (if a = g_gpiobase ! port + STM32_GPIO_BSRR_OFFSET then
        (if bit v pin then Some True else if bit v (pin + 16) then Some False else latch port pin l)
      else if a = g_gpiobase ! port + STM32_GPIO_ODR_OFFSET then Some (bit v pin)
      else latch port pin l)"

subsection \<open>What configuring a pin does to the registers\<close>

lemma pull_setting:
  "(if reg_field 2 16 c = 1 then 1 else if reg_field 2 16 c = 2 then 2 else 0) =
   (if reg_field 2 16 c = 3 then 0 else reg_field 2 16 c)"
  by (cases rule: field2_cases [of 16 c]) simp_all

lemma speed_setting:
  "(if reg_field 2 10 c = 1 then 1 else if reg_field 2 10 c = 2 then 2
    else if reg_field 2 10 c = 3 then 3 else 0) = reg_field 2 10 c"
  by (cases rule: field2_cases [of 10 c]) simp_all

lemma config_afr_eq:
  "config_afr (g_gpiobase ! port) pin v h =
     putreg32 (reg_update 15 (afr_shift pin) v (getreg32 (afr_reg port pin) h)) (afr_reg port pin) h"
  by (simp add: config_afr_def afr_reg_def afr_shift_def)

text \<open>One field of one register, and the output type bit.\<close>

definition put_field :: "u32 \<Rightarrow> u32 \<Rightarrow> nat \<Rightarrow> u32 \<Rightarrow> bus \<Rightarrow> bus" where
  "put_field a m s v h = putreg32 (reg_update m s v (getreg32 a h)) a h"

definition put_od :: "u32 \<Rightarrow> nat \<Rightarrow> bool \<Rightarrow> bus \<Rightarrow> bus" where
  "put_od a pin od h =
     putreg32 (if od then getreg32 a h OR push_bit pin 1 else getreg32 a h AND NOT (push_bit pin 1)) a h"

lemma getreg32_put_field [bus_simps]:
  "getreg32 a (put_field b m s v h) =
     (if a = b then reg_update m s v (getreg32 b h) else getreg32 a h)"
  by (simp add: put_field_def getreg32_putreg32)

lemma getreg32_put_od [bus_simps]:
  "getreg32 a (put_od b pin od h) =
     (if a = b then (if od then getreg32 b h OR push_bit pin 1 else getreg32 b h AND NOT (push_bit pin 1))
      else getreg32 a h)"
  by (simp add: put_od_def getreg32_putreg32)

text \<open>Configuring a pin is this sequence of register writes.\<close>

lemma stm32_configgpio_eq:
  assumes "gpio_port c < 8"
  shows "stm32_configgpio c h =
    (let port = gpio_port c; pin = gpio_pin c; base = g_gpiobase ! port; f = cfg_of c;
         h = (if pc_mode f = 1 then stm32_gpiowrite c (bit c 8) h else h);
         h = (if pc_af f \<noteq> 0 then put_field (afr_reg port pin) 15 (afr_shift pin) (pc_af f) h else h);
         h = put_field (base + STM32_GPIO_MODER_OFFSET) 3 (2 * pin) (pc_mode f) h;
         h = put_field (base + STM32_GPIO_PUPDR_OFFSET) 3 (2 * pin) (pc_pull f) h;
         h = (if pc_af f = 0 then put_field (afr_reg port pin) 15 (afr_shift pin) 0 h else h);
         h = put_field (base + STM32_GPIO_OSPEED_OFFSET) 3 (2 * pin) (pc_speed f) h;
         h = put_od (base + STM32_GPIO_OTYPER_OFFSET) pin (pc_od f) h;
         h = (if pc_mode f \<noteq> 1 \<and> bit c 8
              then put_field (STM32_SYSCFG_EXTICR pin) 15 (SYSCFG_EXTICR_EXTI_SHIFT pin) (word_of_nat port) h
              else h)
     in (0, h))"
  using assms
  by (cases rule: field2_cases [of 18 c]; cases "reg_field 4 12 c = 0")
    (simp_all add: stm32_configgpio_def STM32H7_NGPIO_def cfg_mode cfg_pupd cfg_speed cfg_af cfg_flags
      gpio_modes gpio_settings pull_setting speed_setting config_afr_eq cfg_of_def
      put_field_def put_od_def GPIO_OTYPER_OD_def Let_def del: drop_bit_and split del: if_split cong: if_cong)

lemma field2_update:
  assumes "pin < 16" "pin' < 16" "take_bit 2 v = v"
  shows "reg_field 2 (2 * pin') (reg_update 3 (2 * pin) v r) =
         (if pin' = pin then v else reg_field 2 (2 * pin') r)"
proof (cases "pin' = pin")
  case True
  then show ?thesis
    using reg_field_update_same [of "2 * pin" 2 v r] assms by (simp add: mask_numerals)
next
  case False
  then have "2 * pin + 2 \<le> 2 * pin' \<or> 2 * pin' + 2 \<le> 2 * pin" by linarith
  with False show ?thesis
    using reg_field_update_other [of 2 v "2 * pin" "2 * pin'" 2 r] assms(3)
    by (simp add: mask_numerals)
qed

lemma field4_update:
  assumes "n < 8" "n' < 8" "take_bit 4 v = v"
  shows "reg_field 4 (4 * n') (reg_update 15 (4 * n) v r) =
         (if n' = n then v else reg_field 4 (4 * n') r)"
proof (cases "n' = n")
  case True
  then show ?thesis
    using reg_field_update_same [of "4 * n" 4 v r] assms by (simp add: mask_numerals)
next
  case False
  then have "4 * n + 4 \<le> 4 * n' \<or> 4 * n' + 4 \<le> 4 * n" by linarith
  with False show ?thesis
    using reg_field_update_other [of 4 v "4 * n" "4 * n'" 4 r] assms(3)
    by (simp add: mask_numerals)
qed

lemma od_update:
  assumes "pin < 16" "pin' < 16"
  shows "bit (if od then r OR push_bit pin 1 else r AND NOT (push_bit pin 1) :: u32) pin' =
         (if pin' = pin then od else bit r pin')"
  using assms by (auto simp: bit_simps)

lemma cfg_of_take_bit [simp]:
  "take_bit 2 (pc_mode (cfg_of c)) = pc_mode (cfg_of c)"
  "take_bit 2 (pc_pull (cfg_of c)) = pc_pull (cfg_of c)"
  "take_bit 4 (pc_af (cfg_of c)) = pc_af (cfg_of c)"
  "take_bit 2 (pc_speed (cfg_of c)) = pc_speed (cfg_of c)"
  by (simp_all add: cfg_of_def Let_def)

lemma getreg32_gpiowrite [bus_simps]:
  "a \<noteq> g_gpiobase ! gpio_port c + STM32_GPIO_BSRR_OFFSET \<Longrightarrow>
   getreg32 a (stm32_gpiowrite c v h) = getreg32 a h"
  by (simp add: stm32_gpiowrite_def Let_def bus_simps)

lemma afr_reg_eq_iff [bus_simps]:
  assumes "port < 8" "port' < 8"
  shows "afr_reg port pin = afr_reg port' pin' \<longleftrightarrow> port = port' \<and> (pin < 8 \<longleftrightarrow> pin' < 8)"
  using assms by (simp add: afr_reg_def bus_simps)

lemma afr_reg_neq [bus_simps]:
  assumes "port < 8" "port' < 8" "unat off < 0x20"
  shows "afr_reg port pin \<noteq> g_gpiobase ! port' + off" "g_gpiobase ! port' + off \<noteq> afr_reg port pin"
  using assms by (auto simp: afr_reg_def bus_simps gpio_offsets)

lemma afr_reg_exticr [simp]:
  assumes "port < 8"
  shows "afr_reg port pin \<noteq> STM32_SYSCFG_EXTICR p" "STM32_SYSCFG_EXTICR p \<noteq> afr_reg port pin"
  using assms by (simp_all add: afr_reg_def)

lemma getreg32_if: "getreg32 a (if b then x else y) = (if b then getreg32 a x else getreg32 a y)"
  by simp

text \<open>The registers after a configuration, one by one.\<close>

lemma configgpio_regs:
  fixes c :: u32 and port' :: nat and h :: bus
  assumes "gpio_port c < 8" "port' < 8"
  defines "h' \<equiv> snd (stm32_configgpio c h)" and "base \<equiv> g_gpiobase ! port'"
  shows "getreg32 (base + STM32_GPIO_MODER_OFFSET) h' =
           (if port' = gpio_port c
            then reg_update 3 (2 * gpio_pin c) (pc_mode (cfg_of c)) (getreg32 (base + STM32_GPIO_MODER_OFFSET) h)
            else getreg32 (base + STM32_GPIO_MODER_OFFSET) h)"
    and "getreg32 (base + STM32_GPIO_PUPDR_OFFSET) h' =
           (if port' = gpio_port c
            then reg_update 3 (2 * gpio_pin c) (pc_pull (cfg_of c)) (getreg32 (base + STM32_GPIO_PUPDR_OFFSET) h)
            else getreg32 (base + STM32_GPIO_PUPDR_OFFSET) h)"
    and "getreg32 (base + STM32_GPIO_OSPEED_OFFSET) h' =
           (if port' = gpio_port c
            then reg_update 3 (2 * gpio_pin c) (pc_speed (cfg_of c)) (getreg32 (base + STM32_GPIO_OSPEED_OFFSET) h)
            else getreg32 (base + STM32_GPIO_OSPEED_OFFSET) h)"
    and "getreg32 (base + STM32_GPIO_OTYPER_OFFSET) h' =
           (if port' = gpio_port c
            then (if pc_od (cfg_of c)
                  then getreg32 (base + STM32_GPIO_OTYPER_OFFSET) h OR push_bit (gpio_pin c) 1
                  else getreg32 (base + STM32_GPIO_OTYPER_OFFSET) h AND NOT (push_bit (gpio_pin c) 1))
            else getreg32 (base + STM32_GPIO_OTYPER_OFFSET) h)"
    and "getreg32 (base + STM32_GPIO_IDR_OFFSET) h' = getreg32 (base + STM32_GPIO_IDR_OFFSET) h"
    and "getreg32 (afr_reg port' pin') h' =
           (if port' = gpio_port c \<and> (pin' < 8 \<longleftrightarrow> gpio_pin c < 8)
            then reg_update 15 (afr_shift (gpio_pin c)) (pc_af (cfg_of c)) (getreg32 (afr_reg port' pin') h)
            else getreg32 (afr_reg port' pin') h)"
    and "getreg32 (STM32_SYSCFG_EXTICR line) h' =
           (if STM32_SYSCFG_EXTICR line = STM32_SYSCFG_EXTICR (gpio_pin c) \<and>
               pc_mode (cfg_of c) \<noteq> 1 \<and> bit c 8
            then reg_update 15 (SYSCFG_EXTICR_EXTI_SHIFT (gpio_pin c)) (word_of_nat (gpio_port c))
                   (getreg32 (STM32_SYSCFG_EXTICR line) h)
            else getreg32 (STM32_SYSCFG_EXTICR line) h)"
  unfolding h'_def base_def stm32_configgpio_eq [OF assms(1)] Let_def snd_conv
  using assms(1,2)
  by (simp_all add: getreg32_if bus_simps split del: if_split cong: if_cong)
    (auto simp: afr_reg_def)

subsection \<open>Configuration refines its abstract meaning\<close>

text \<open>The contract: a pin of an existing port gets the requested configuration, alone.\<close>

definition spec_config :: "u32 \<Rightarrow> (nat \<times> nat \<Rightarrow> pin_config option) \<Rightarrow>
    int \<times> (nat \<times> nat \<Rightarrow> pin_config option)" where
  "spec_config c m =
     (if gpio_port c < STM32H7_NGPIO then (OK, m((gpio_port c, gpio_pin c) \<mapsto> cfg_of c))
      else (- EINVAL, m))"

lemma configgpio_bad_port [simp]:
  "\<not> gpio_port c < STM32H7_NGPIO \<Longrightarrow> stm32_configgpio c h = (- EINVAL, h)"
  by (simp add: stm32_configgpio_def)

lemma afr_field_update:
  assumes "pin < 16" "pin' < 16" "take_bit 4 v = v"
  shows "reg_field 4 (afr_shift pin') (if pin' < 8 \<longleftrightarrow> pin < 8 then reg_update 15 (afr_shift pin) v r else r) =
         (if pin' = pin then v else reg_field 4 (afr_shift pin') r)"
  using assms field4_update [of "if pin < 8 then pin else pin - 8" "if pin' < 8 then pin' else pin' - 8" v r]
  by (auto simp: afr_shift_def)

lemma configgpio_pins:
  assumes "gpio_port c < 8"
  shows "gpio_abs (snd (stm32_configgpio c h)) = (gpio_abs h)((gpio_port c, gpio_pin c) \<mapsto> cfg_of c)"
proof (rule ext, clarify)
  fix port' pin'
  show "gpio_abs (snd (stm32_configgpio c h)) (port', pin') =
        ((gpio_abs h)((gpio_port c, gpio_pin c) \<mapsto> cfg_of c)) (port', pin')"
  proof (cases "port' < 8 \<and> pin' < 16")
    case True
    show ?thesis
    proof (cases "port' = gpio_port c")
      case same: True
      have afr: "getreg32 (afr_reg (gpio_port c) pin') (snd (stm32_configgpio c h)) =
          (if pin' < 8 \<longleftrightarrow> gpio_pin c < 8
           then reg_update 15 (afr_shift (gpio_pin c)) (pc_af (cfg_of c)) (getreg32 (afr_reg (gpio_port c) pin') h)
           else getreg32 (afr_reg (gpio_port c) pin') h)"
        using configgpio_regs(6) [OF assms assms, of pin' h] by simp
      show ?thesis
        using True assms same
        by (simp add: gpio_abs_def STM32H7_NGPIO_def Let_def configgpio_regs(1-4) afr
            field2_update od_update afr_field_update split del: if_split) (simp add: Let_def)
    next
      case False
      with True assms show ?thesis
        by (simp add: gpio_abs_def STM32H7_NGPIO_def Let_def configgpio_regs)
    qed
  next
    case False
    then show ?thesis using assms by (auto simp: gpio_abs_def STM32H7_NGPIO_def)
  qed
qed

lemma configgpio_ret [simp]: "gpio_port c < 8 \<Longrightarrow> fst (stm32_configgpio c h) = 0"
  by (simp add: stm32_configgpio_eq Let_def)

text \<open>
  C10. Configuring a pin implements its contract on the registers: on an existing port the pin
  reads back exactly the mode, pull, alternate function, speed and output type the
  configuration word asks for (a setting the mode does not use reads as 0), no other pin of any
  port changes, and OK is returned; on a port the chip does not have the answer is -EINVAL and
  nothing at all is written. What the pin was before makes no difference: also a pin in use as an
  alternate function is configured anew and OK returned, although the description of the function
  announces an error for it.
\<close>

theorem configgpio_refines:
  "map_prod id gpio_abs (stm32_configgpio c h) = spec_config c (gpio_abs h) \<and>
   stm32_configgpio c h = (if gpio_port c < STM32H7_NGPIO then (OK, snd (stm32_configgpio c h)) else (- EINVAL, h))"
proof -
  have "stm32_configgpio c h = (- EINVAL, h)" if "\<not> gpio_port c < STM32H7_NGPIO"
    using that by (simp add: stm32_configgpio_def Let_def)
  then show ?thesis
    using configgpio_pins [of c h] configgpio_ret [of c h]
    by (cases "gpio_port c < STM32H7_NGPIO"; cases "stm32_configgpio c h")
      (simp_all add: spec_config_def STM32H7_NGPIO_def)
qed

subsection \<open>Interrupt line routing\<close>

definition exti_abs :: "bus \<Rightarrow> nat \<Rightarrow> u32 option" where
  "exti_abs h = (\<lambda>line. if line < 16 then Some (exti_source h line) else None)"

lemma word_of_gpio_port [simp]: "word_of_nat (gpio_port c) = reg_field 4 4 c"
  by (simp add: gpio_port_field)

lemma exticr_field_update:
  assumes "line < 16" "pin < 16" "line div 4 = pin div 4" "take_bit 4 v = v"
  shows "reg_field 4 (SYSCFG_EXTICR_EXTI_SHIFT line) (reg_update 15 (SYSCFG_EXTICR_EXTI_SHIFT pin) v r) =
         (if line = pin then v else reg_field 4 (SYSCFG_EXTICR_EXTI_SHIFT line) r)"
proof -
  have "line mod 4 = pin mod 4 \<longleftrightarrow> line = pin"
    using assms(3) by (metis mult_div_mod_eq)
  moreover have "line mod 4 < 8" "pin mod 4 < 8"
    by (simp_all add: order.strict_trans [OF mod_less_divisor])
  ultimately show ?thesis
    using field4_update [of "pin mod 4" "line mod 4" v r] assms(4)
    by (simp add: SYSCFG_EXTICR_EXTI_SHIFT_def)
qed

lemma exti_abs_configgpio:
  "exti_abs (snd (stm32_configgpio c h)) =
     (if gpio_port c < STM32H7_NGPIO \<and> pc_mode (cfg_of c) \<noteq> 1 \<and> bit c 8
      then (exti_abs h)(gpio_pin c \<mapsto> word_of_nat (gpio_port c)) else exti_abs h)"
proof (cases "gpio_port c < STM32H7_NGPIO")
  case True
  then have p: "gpio_port c < 8" by (simp add: STM32H7_NGPIO_def)
  have "exti_source (snd (stm32_configgpio c h)) line =
          (if line = gpio_pin c \<and> pc_mode (cfg_of c) \<noteq> 1 \<and> bit c 8
           then word_of_nat (gpio_port c) else exti_source h line)" if "line < 16" for line
  proof (cases "line div 4 = gpio_pin c div 4")
    case same: True
    then have "STM32_SYSCFG_EXTICR line = STM32_SYSCFG_EXTICR (gpio_pin c)"
      using that by (simp add: exticr_same_reg)
    then show ?thesis
      using exticr_field_update [OF that gpio_pin_less same] configgpio_regs(7) [OF p p, of line h]
      by (auto simp: exti_source_def)
  next
    case False
    then have "STM32_SYSCFG_EXTICR line \<noteq> STM32_SYSCFG_EXTICR (gpio_pin c)"
      using that by (simp add: exticr_same_reg)
    with False show ?thesis
      using configgpio_regs(7) [OF p p, of line h] by (auto simp: exti_source_def)
  qed
  then show ?thesis using True by (auto simp: exti_abs_def)
qed simp

text \<open>
  Configuring a pin routes the external interrupt line of the pin's number to the pin's
  port exactly when the port exists, the pin is not an output and the EXTI flag is set; no
  other line is rerouted. Pins of the same number on different ports compete for one line.
\<close>

theorem configgpio_exti:
  "exti_abs (snd (stm32_configgpio c h)) =
     (if gpio_port c < STM32H7_NGPIO \<and> pc_mode (cfg_of c) \<noteq> 1 \<and> bit c 8
      then (exti_abs h)(gpio_pin c \<mapsto> word_of_nat (gpio_port c)) else exti_abs h)"
  by (rule exti_abs_configgpio)

subsection \<open>Levels\<close>

definition level_abs :: "bus \<Rightarrow> nat \<times> nat \<Rightarrow> bool option" where
  "level_abs h = (\<lambda>(port, pin).
     if port < STM32H7_NGPIO \<and> pin < 16 then latch port pin (wlog h) else None)"

lemma bsrr_bits [simp]:
  assumes "pin < 16" "pin' < 16"
  shows "bit (GPIO_BSRR_SET pin) pin' \<longleftrightarrow> pin' = pin" "\<not> bit (GPIO_BSRR_SET pin) (pin' + 16)"
    "\<not> bit (GPIO_BSRR_RESET pin) pin'" "bit (GPIO_BSRR_RESET pin) (pin' + 16) \<longleftrightarrow> pin' = pin"
  using assms by (auto simp: GPIO_BSRR_SET_def GPIO_BSRR_RESET_def bit_simps)

lemma gpiowrite_eq:
  "gpio_port c < 8 \<Longrightarrow> stm32_gpiowrite c v h =
     putreg32 (if v then GPIO_BSRR_SET (gpio_pin c) else GPIO_BSRR_RESET (gpio_pin c))
       (g_gpiobase ! gpio_port c + STM32_GPIO_BSRR_OFFSET) h"
  by (simp add: stm32_gpiowrite_def STM32H7_NGPIO_def Let_def)

lemma gpiowrite_bad_port [simp]: "\<not> gpio_port c < STM32H7_NGPIO \<Longrightarrow> stm32_gpiowrite c v h = h"
  by (simp add: stm32_gpiowrite_def)

lemma latch_gpiowrite:
  assumes "gpio_port c < 8" "port < 8" "pin < 16"
  shows "latch port pin (wlog (stm32_gpiowrite c v h)) =
           (if port = gpio_port c \<and> pin = gpio_pin c then Some v else latch port pin (wlog h))"
  using assms by (auto simp: gpiowrite_eq bus_simps)

text \<open>
  Writing a pin drives exactly that pin: its level becomes the value written, no other pin
  of any port changes level, and a write to a port that does not exist drives nothing.
\<close>

theorem gpiowrite_level:
  "level_abs (stm32_gpiowrite c v h) =
     (if gpio_port c < STM32H7_NGPIO then (level_abs h)((gpio_port c, gpio_pin c) \<mapsto> v) else level_abs h)"
  by (auto simp: level_abs_def STM32H7_NGPIO_def latch_gpiowrite split: prod.split intro!: ext)

lemma latch_skip [simp]:
  assumes "port < 8" "port' < 8" "off \<noteq> STM32_GPIO_BSRR_OFFSET" "off \<noteq> STM32_GPIO_ODR_OFFSET"
    "unat off < 0x400"
  shows "latch port pin ((g_gpiobase ! port' + off, v) # l) = latch port pin l"
  using assms by (simp add: gpio_reg_eq_iff)

lemma latch_skip_exticr [simp]:
  "port < 8 \<Longrightarrow> latch port pin ((STM32_SYSCFG_EXTICR p, v) # l) = latch port pin l"
  by simp

lemma latch_skip_afr [simp]:
  "port < 8 \<Longrightarrow> port' < 8 \<Longrightarrow> latch port pin ((afr_reg port' p, v) # l) = latch port pin l"
  by (simp add: afr_reg_def gpio_reg_eq_iff)

lemma wlog_put_field: "wlog (put_field a m s v h) = (a, reg_update m s v (getreg32 a h)) # wlog h"
  by (simp add: put_field_def wlog_putreg32)

lemma wlog_put_od: "\<exists>v. wlog (put_od a pin od h) = (a, v) # wlog h"
  by (simp add: put_od_def wlog_putreg32)

lemma latch_put_od [simp]:
  "port < 8 \<Longrightarrow> port' < 8 \<Longrightarrow>
   latch port pin (wlog (put_od (g_gpiobase ! port' + STM32_GPIO_OTYPER_OFFSET) p od h)) = latch port pin (wlog h)"
  by (simp add: put_od_def wlog_putreg32 del: latch.simps)

lemma latch_configgpio:
  assumes "gpio_port c < 8" "port < 8" "pin < 16"
  shows "latch port pin (wlog (snd (stm32_configgpio c h))) =
           (if pc_mode (cfg_of c) = 1 \<and> port = gpio_port c \<and> pin = gpio_pin c
            then Some (bit c 8) else latch port pin (wlog h))"
  using assms
  by (simp add: stm32_configgpio_eq Let_def wlog_put_field latch_gpiowrite del: latch.simps)

subsection \<open>The order of the register writes\<close>

definition writes_avoiding :: "u32 \<Rightarrow> bus \<Rightarrow> bus \<Rightarrow> bool" where
  "writes_avoiding a h h' \<longleftrightarrow> (\<exists>ws. wlog h' = ws @ wlog h \<and> a \<notin> fst ` set ws)"

lemma writes_avoiding_refl [simp]: "writes_avoiding a h h"
  by (simp add: writes_avoiding_def)

lemma writes_avoiding_put [simp]:
  "a \<noteq> b \<Longrightarrow> writes_avoiding a h h' \<Longrightarrow> writes_avoiding a h (putreg32 v b h')"
  by (force simp: writes_avoiding_def wlog_putreg32)

lemma writes_avoiding_put_field [simp]:
  "a \<noteq> b \<Longrightarrow> writes_avoiding a h h' \<Longrightarrow> writes_avoiding a h (put_field b m s v h')"
  by (simp add: put_field_def)

lemma writes_avoiding_put_od [simp]:
  "a \<noteq> b \<Longrightarrow> writes_avoiding a h h' \<Longrightarrow> writes_avoiding a h (put_od b pin od h')"
  by (simp add: put_od_def)

text \<open>
  C35. A pin is switched to its new mode only when what it will drive is in place: a
  configuration writes the mode register of the port once, and before that write the output
  latch of a pin configured as output already holds the requested initial value, and the
  alternate function register of a pin given a non-zero alternate function already selects it.
\<close>

theorem configgpio_order:
  assumes "gpio_port c < STM32H7_NGPIO"
  defines "moder \<equiv> g_gpiobase ! gpio_port c + STM32_GPIO_MODER_OFFSET"
    and "afr \<equiv> afr_reg (gpio_port c) (gpio_pin c)"
  shows "\<exists>pre v post. wlog (snd (stm32_configgpio c h)) = post @ (moder, v) # pre @ wlog h \<and>
           moder \<notin> fst ` set (post @ pre) \<and>
           (pc_mode (cfg_of c) = 1 \<longrightarrow>
              latch (gpio_port c) (gpio_pin c) (pre @ wlog h) = Some (bit c 8)) \<and>
           (pc_af (cfg_of c) \<noteq> 0 \<longrightarrow>
              map_option (reg_field 4 (afr_shift (gpio_pin c))) (map_of pre afr) = Some (pc_af (cfg_of c)))"
proof -
  let ?f = "cfg_of c"
  have p: "gpio_port c < 8" using assms(1) by (simp add: STM32H7_NGPIO_def)
  define h0 where "h0 = (if pc_mode ?f = 1 then stm32_gpiowrite c (bit c 8) h else h)"
  define h1 where
    "h1 = (if pc_af ?f \<noteq> 0 then put_field afr 15 (afr_shift (gpio_pin c)) (pc_af ?f) h0 else h0)"
  define h2 where "h2 = put_field moder 3 (2 * gpio_pin c) (pc_mode ?f) h1"
  have neq: "moder \<noteq> g_gpiobase ! gpio_port c + off" if "off \<noteq> STM32_GPIO_MODER_OFFSET" for off
    using that by (simp add: moder_def)
  have neq': "moder \<noteq> afr" "moder \<noteq> STM32_SYSCFG_EXTICR q" for q
    using p by (simp_all add: moder_def afr_def afr_reg_def)
  have "writes_avoiding moder h2 (snd (stm32_configgpio c h))"
    using p neq neq'
    by (simp add: stm32_configgpio_eq Let_def h2_def h1_def h0_def moder_def afr_def)
  then obtain post where post: "wlog (snd (stm32_configgpio c h)) = post @ wlog h2" "moder \<notin> fst ` set post"
    by (auto simp: writes_avoiding_def)
  have "writes_avoiding moder h h1"
    using p neq neq' by (simp add: h1_def h0_def gpiowrite_eq)
  then obtain pre where pre: "wlog h1 = pre @ wlog h" "moder \<notin> fst ` set pre"
    by (auto simp: writes_avoiding_def)
  have "latch (gpio_port c) (gpio_pin c) (wlog h1) = Some (bit c 8)" if "pc_mode ?f = 1"
    using that p latch_gpiowrite [OF p p gpio_pin_less, of c "bit c 8" h]
    by (simp add: h1_def h0_def wlog_put_field afr_def del: latch.simps)
  moreover have "map_option (reg_field 4 (afr_shift (gpio_pin c))) (map_of pre afr) = Some (pc_af ?f)"
    if "pc_af ?f \<noteq> 0"
  proof -
    have "pc_mode ?f \<noteq> 1" using that by (auto simp: cfg_of_def Let_def)
    then have "wlog h1 = (afr, reg_update 15 (afr_shift (gpio_pin c)) (pc_af ?f) (getreg32 afr h)) # wlog h"
      using that by (simp add: h1_def h0_def wlog_put_field)
    then show ?thesis
      using pre(1) afr_field_update [of "gpio_pin c" "gpio_pin c" "pc_af ?f"] by simp
  qed
  moreover have "wlog h2 = (moder, reg_update 3 (2 * gpio_pin c) (pc_mode ?f) (getreg32 moder h1)) # pre @ wlog h"
    by (simp add: h2_def wlog_put_field pre)
  ultimately show ?thesis using post pre by (metis (no_types, lifting) Un_iff image_Un set_append)
qed

definition bus0 :: bus where "bus0 = \<lparr>regs = (\<lambda>_. 0), wlog = []\<rparr>"

theorem configgpio_order_witness:
  "\<exists>pre v post. wlog (snd (stm32_configgpio 0x40110 bus0)) = post @ (0x58020400, v) # pre \<and>
     0x58020400 \<notin> fst ` set (post @ pre) \<and> latch 1 0 pre = Some True"
proof -
  have f: "gpio_port 0x40110 = 1" "gpio_pin 0x40110 = 0" "pc_mode (cfg_of 0x40110) = 1"
    "bit (0x40110 :: u32) 8" "g_gpiobase ! 1 + STM32_GPIO_MODER_OFFSET = 0x58020400"
    by (simp_all add: gpio_port_field gpio_pin_field cfg_of_def Let_def reg_field_def
        g_gpiobase_def gpio_offsets bit_iff_odd_drop_bit take_bit_eq_mod drop_bit_eq_div)
  show ?thesis
    using configgpio_order [of "0x40110" bus0] f
    by (fastforce simp: STM32H7_NGPIO_def bus0_def)
qed

subsection \<open>Reading, and giving a pin back\<close>

lemma gpioread_iff:
  "gpio_port c < 8 \<Longrightarrow>
   stm32_gpioread c h \<longleftrightarrow> bit (getreg32 (g_gpiobase ! gpio_port c + STM32_GPIO_IDR_OFFSET) h) (gpio_pin c)"
  using and_bit_iff [of "gpio_pin c"] gpio_pin_less [of c]
  by (simp add: stm32_gpioread_def STM32H7_NGPIO_def Let_def)

lemma gpioread_bad_port [simp]: "\<not> gpio_port c < STM32H7_NGPIO \<Longrightarrow> \<not> stm32_gpioread c h"
  by (simp add: stm32_gpioread_def)

lemma gpioread_gpiowrite [simp]: "stm32_gpioread c (stm32_gpiowrite c' v h) = stm32_gpioread c h"
proof (cases "gpio_port c < 8 \<and> gpio_port c' < 8")
  case True
  then show ?thesis by (simp add: gpioread_iff gpiowrite_eq bus_simps)
next
  case False
  then show ?thesis by (auto simp: stm32_gpioread_def stm32_gpiowrite_def STM32H7_NGPIO_def Let_def)
qed

lemma gpioread_configgpio [simp]: "stm32_gpioread c (snd (stm32_configgpio c' h)) = stm32_gpioread c h"
proof (cases "gpio_port c < 8 \<and> gpio_port c' < 8")
  case True
  then show ?thesis by (simp add: gpioread_iff configgpio_regs)
next
  case False
  then show ?thesis by (cases "gpio_port c < 8") (simp_all add: STM32H7_NGPIO_def)
qed

lemma gpio_abs_gpiowrite [simp]: "gpio_abs (stm32_gpiowrite c v h) = gpio_abs h"
proof (cases "gpio_port c < 8")
  case True
  then show ?thesis
    by (auto simp: gpio_abs_def gpiowrite_eq STM32H7_NGPIO_def Let_def bus_simps split: prod.split intro!: ext)
qed (simp add: STM32H7_NGPIO_def)

lemma level_abs_configgpio:
  "level_abs (snd (stm32_configgpio c h)) =
     (if gpio_port c < STM32H7_NGPIO \<and> pc_mode (cfg_of c) = 1
      then (level_abs h)((gpio_port c, gpio_pin c) \<mapsto> bit c 8) else level_abs h)"
proof (cases "gpio_port c < 8")
  case True
  then show ?thesis
    by (auto simp: level_abs_def STM32H7_NGPIO_def latch_configgpio split: prod.split intro!: ext)
qed (simp add: STM32H7_NGPIO_def)

lemma reg_field_low:
  "s + w \<le> 8 \<Longrightarrow> reg_field w s (take_bit 8 c) = reg_field w s c"
  "8 \<le> s \<Longrightarrow> reg_field w s (take_bit 8 c) = 0"
  by (rule bit_word_eqI; auto simp: bit_reg_field bit_simps)+

lemma and_255: "c AND 255 = take_bit 8 c" for c :: u32
  by (simp add: take_bit_eq_mask mask_eq_exp_minus_1)

definition pin_reset :: pin_config where
  "pin_reset = \<lparr>pc_mode = 0, pc_pull = 0, pc_af = 0, pc_speed = 0, pc_od = False\<rparr>"

text \<open>
  Unconfiguring a pin leaves it as a floating input with no alternate function, whatever
  the rest of the configuration word says; it drives no level, reroutes no interrupt line and
  touches no other pin.
\<close>

theorem unconfiggpio_resets:
  "fst (stm32_unconfiggpio c h) = (if gpio_port c < STM32H7_NGPIO then OK else - EINVAL) \<and>
   gpio_abs (snd (stm32_unconfiggpio c h)) =
     (if gpio_port c < STM32H7_NGPIO then (gpio_abs h)((gpio_port c, gpio_pin c) \<mapsto> pin_reset)
      else gpio_abs h) \<and>
   level_abs (snd (stm32_unconfiggpio c h)) = level_abs h \<and>
   (\<lambda>line. exti_source (snd (stm32_unconfiggpio c h)) line) = exti_source h"
proof -
  let ?c = "take_bit 8 c"
  have un: "stm32_unconfiggpio c h = stm32_configgpio ?c h"
    by (simp add: stm32_unconfiggpio_def gpio_consts and_255)
  have port: "gpio_port ?c = gpio_port c" "gpio_pin ?c = gpio_pin c"
    by (simp_all add: gpio_port_field gpio_pin_field reg_field_low)
  have cfg: "cfg_of ?c = pin_reset"
    by (simp add: cfg_of_def pin_reset_def reg_field_low Let_def)
  have bit8: "\<not> bit ?c 8" by (simp add: bit_simps)
  have "exti_source (snd (stm32_configgpio ?c h)) line = exti_source h line" for line
  proof (cases "gpio_port c < 8")
    case True
    then show ?thesis
      using configgpio_regs(7) [of ?c "gpio_port c" line h] bit8 by (simp add: exti_source_def port)
  qed (simp add: port STM32H7_NGPIO_def)
  then show ?thesis
    using configgpio_pins [of ?c h] level_abs_configgpio [of ?c h]
    by (auto simp: un port cfg pin_reset_def STM32H7_NGPIO_def)
qed

subsection \<open>Composing configuration words\<close>

text \<open>
  The board code builds a pin's word by or-ing flags, a port and a pin number; the parts read
  back from the word.
\<close>

definition pin_word :: "u32 \<Rightarrow> nat \<Rightarrow> nat \<Rightarrow> u32" where
  "pin_word flags port pin = flags OR GPIO_PORT port OR GPIO_PIN pin"

definition flag_word :: "u32 \<Rightarrow> bool" where
  "flag_word flags \<longleftrightarrow> take_bit 8 flags = 0"

lemma bit_small_nat: "n < 2 ^ w \<Longrightarrow> bit (word_of_nat n :: u32) i \<Longrightarrow> i < w"
  by (metis bit_take_bit_iff take_bit_nat_eq_self take_bit_of_nat)

lemma flag_word_bit: "flag_word flags \<Longrightarrow> i < 8 \<Longrightarrow> \<not> bit flags i"
  by (metis bit_0_eq bit_take_bit_iff bot_apply bot_bool_def flag_word_def)

lemma pin_word_bit:
  assumes "port < 16" "pin < 16"
  shows "bit (pin_word flags port pin) i \<longleftrightarrow>
           bit flags i \<or> (4 \<le> i \<and> i < 8 \<and> bit (word_of_nat port :: u32) (i - 4)) \<or>
           (i < 4 \<and> bit (word_of_nat pin :: u32) i)"
  using bit_small_nat [of port 4] bit_small_nat [of pin 4] assms
  by (fastforce simp: pin_word_def GPIO_PORT_def GPIO_PIN_def bit_simps)

lemma pin_word_parts [cfg_simps]:
  assumes f: "flag_word flags" and b: "port < 16" "pin < 16"
  shows "gpio_port (pin_word flags port pin) = port" and "gpio_pin (pin_word flags port pin) = pin"
proof -
  have "reg_field 4 4 (pin_word flags port pin) = word_of_nat port"
    using bit_small_nat [of port 4] b
    by (auto intro!: bit_word_eqI simp: bit_reg_field pin_word_bit flag_word_bit [OF f])
  then show "gpio_port (pin_word flags port pin) = port"
    using b by (simp add: gpio_port_field unat_of_nat)
  have "reg_field 4 0 (pin_word flags port pin) = word_of_nat pin"
    using bit_small_nat [of pin 4] b
    by (auto intro!: bit_word_eqI simp: bit_reg_field pin_word_bit flag_word_bit [OF f])
  then show "gpio_pin (pin_word flags port pin) = pin"
    using b by (simp add: gpio_pin_field unat_of_nat)
qed

lemma pin_word_flags [cfg_simps]:
  assumes "port < 16" "pin < 16"
  shows "8 \<le> i \<Longrightarrow> bit (pin_word flags port pin) i \<longleftrightarrow> bit flags i"
    and "cfg_of (pin_word flags port pin) = cfg_of flags"
proof -
  show bits: "8 \<le> i \<Longrightarrow> bit (pin_word flags port pin) i \<longleftrightarrow> bit flags i" for i
    using assms by (auto simp: pin_word_bit)
  have "reg_field w s (pin_word flags port pin) = reg_field w s flags" if "8 \<le> s" for w s
    using that by (auto intro!: bit_word_eqI simp: bit_reg_field bits)
  then show "cfg_of (pin_word flags port pin) = cfg_of flags"
    by (simp add: cfg_of_def Let_def bits)
qed

lemma pin_word_inj:
  assumes "flag_word flags" "port < 16" "pin < 16" "port' < 16" "pin' < 16"
  shows "pin_word flags port pin = pin_word flags port' pin' \<longleftrightarrow> port = port' \<and> pin = pin'"
  using assms by (metis pin_word_parts)

subsection \<open>Where configuring a pin writes\<close>

text \<open>All writes of a configuration fall between the SYSCFG and the end of the GPIO blocks.\<close>

definition writes_in :: "nat \<Rightarrow> nat \<Rightarrow> bus \<Rightarrow> bus \<Rightarrow> bool" where
  "writes_in lo hi h h' \<longleftrightarrow>
     (\<exists>ws. wlog h' = ws @ wlog h \<and> (\<forall>a \<in> fst ` set ws. lo \<le> unat a \<and> unat a < hi)) \<and>
     (\<forall>a. \<not> (lo \<le> unat a \<and> unat a < hi) \<longrightarrow> getreg32 a h' = getreg32 a h)"

lemma writes_in_refl [simp]: "writes_in lo hi h h"
  by (simp add: writes_in_def)

lemma writes_in_put [simp]:
  assumes "lo \<le> unat b" "unat b < hi" "writes_in lo hi h h'"
  shows "writes_in lo hi h (putreg32 v b h')"
  using assms by (fastforce simp: writes_in_def wlog_putreg32 getreg32_putreg32)

lemma writes_in_put_field [simp]:
  "lo \<le> unat b \<Longrightarrow> unat b < hi \<Longrightarrow> writes_in lo hi h h' \<Longrightarrow> writes_in lo hi h (put_field b m s v h')"
  by (simp add: put_field_def)

lemma writes_in_put_od [simp]:
  "lo \<le> unat b \<Longrightarrow> unat b < hi \<Longrightarrow> writes_in lo hi h h' \<Longrightarrow> writes_in lo hi h (put_od b pin od h')"
  by (simp add: put_od_def)

lemma gpio_reg_window [simp]:
  assumes "port < 8" "unat off < 0x400"
  shows "0x58000400 \<le> unat (g_gpiobase ! port + off)" "unat (g_gpiobase ! port + off) < 0x58022000"
  using assms by (simp_all add: gpio_reg_unat)

lemma exticr_window [simp]:
  assumes "p < 16"
  shows "0x58000400 \<le> unat (STM32_SYSCFG_EXTICR p)" "unat (STM32_SYSCFG_EXTICR p) < 0x58022000"
proof -
  have "p div 4 < 4" using assms by (simp add: div_less_iff_less_mult)
  then show "0x58000400 \<le> unat (STM32_SYSCFG_EXTICR p)" "unat (STM32_SYSCFG_EXTICR p) < 0x58022000"
    using assms by (simp_all add: exticr_addr)
qed

lemma configgpio_writes_in: "writes_in 0x58000400 0x58022000 h (snd (stm32_configgpio c h))"
proof (cases "gpio_port c < 8")
  case True
  have afr: "0x58000400 \<le> unat (afr_reg (gpio_port c) p)" "unat (afr_reg (gpio_port c) p) < 0x58022000" for p
    using True by (simp_all add: afr_reg_def)
  from True afr show ?thesis
    by (simp add: stm32_configgpio_eq Let_def gpiowrite_eq)
qed (simp add: STM32H7_NGPIO_def)

lemma gpiowrite_writes_in: "writes_in 0x58000400 0x58022000 h (stm32_gpiowrite c v h)"
  by (cases "gpio_port c < 8") (simp_all add: gpiowrite_eq STM32H7_NGPIO_def)

subsection \<open>The interface the board code relies on\<close>

text \<open>
  \<open>gpio_provider\<close> is the contract of the port driver as its clients see it: configuring sets
  one pin, writing drives one pin, and neither disturbs another pin or an input. The lemmas on
  configuring a whole table of pins are proved from the contract alone.
\<close>

definition gpio_loc :: "u32 \<Rightarrow> nat \<times> nat" where
  "gpio_loc c = (gpio_port c, gpio_pin c)"

definition gpio_valid :: "u32 \<Rightarrow> bool" where
  "gpio_valid c \<longleftrightarrow> gpio_port c < STM32H7_NGPIO"

definition gpio_is_output :: "u32 \<Rightarrow> bool" where
  "gpio_is_output c \<longleftrightarrow> pc_mode (cfg_of c) = 1"

locale gpio_provider =
  fixes cfg :: "u32 \<Rightarrow> 'h \<Rightarrow> int \<times> 'h" and wr :: "u32 \<Rightarrow> bool \<Rightarrow> 'h \<Rightarrow> 'h"
    and rd :: "u32 \<Rightarrow> 'h \<Rightarrow> bool"
    and pins :: "'h \<Rightarrow> nat \<times> nat \<Rightarrow> pin_config option" and level :: "'h \<Rightarrow> nat \<times> nat \<Rightarrow> bool option"
  assumes cfg_ok: "gpio_valid c \<Longrightarrow> fst (cfg c h) = OK"
    and cfg_bad: "\<not> gpio_valid c \<Longrightarrow> cfg c h = (- EINVAL, h)"
    and cfg_pins: "gpio_valid c \<Longrightarrow> pins (snd (cfg c h)) = (pins h)(gpio_loc c \<mapsto> cfg_of c)"
    and cfg_level: "gpio_valid c \<Longrightarrow> level (snd (cfg c h)) =
      (if gpio_is_output c then (level h)(gpio_loc c \<mapsto> bit c 8) else level h)"
    and wr_pins: "pins (wr c v h) = pins h"
    and wr_level: "gpio_valid c \<Longrightarrow> level (wr c v h) = (level h)(gpio_loc c \<mapsto> v)"
    and rd_cfg: "rd c' (snd (cfg c h)) = rd c' h"
    and rd_wr: "rd c' (wr c v h) = rd c' h"
begin

lemma cfg_all_other:
  "p \<notin> gpio_loc ` set cs \<Longrightarrow> pins (fold (\<lambda>c h. snd (cfg c h)) cs h) p = pins h p"
  "p \<notin> gpio_loc ` set cs \<Longrightarrow> level (fold (\<lambda>c h. snd (cfg c h)) cs h) p = level h p"
proof -
  have step: "pins (snd (cfg c h)) p = pins h p \<and> level (snd (cfg c h)) p = level h p"
    if "p \<noteq> gpio_loc c" for c h
    using that by (cases "gpio_valid c") (auto simp: cfg_pins cfg_level cfg_bad)
  show "p \<notin> gpio_loc ` set cs \<Longrightarrow> pins (fold (\<lambda>c h. snd (cfg c h)) cs h) p = pins h p"
    "p \<notin> gpio_loc ` set cs \<Longrightarrow> level (fold (\<lambda>c h. snd (cfg c h)) cs h) p = level h p"
    by (induction cs arbitrary: h) (auto simp: step)
qed

lemma cfg_all_at:
  assumes "distinct (map gpio_loc cs)" "list_all gpio_valid cs" "c \<in> set cs"
  shows "pins (fold (\<lambda>c h. snd (cfg c h)) cs h) (gpio_loc c) = Some (cfg_of c)"
    and "gpio_is_output c \<Longrightarrow> level (fold (\<lambda>c h. snd (cfg c h)) cs h) (gpio_loc c) = Some (bit c 8)"
proof -
  obtain xs ys where cs: "cs = xs @ c # ys" using assms(3) by (meson split_list)
  have "gpio_loc c \<notin> gpio_loc ` set ys" using assms(1) by (auto simp: cs)
  then show "pins (fold (\<lambda>c h. snd (cfg c h)) cs h) (gpio_loc c) = Some (cfg_of c)"
    and "gpio_is_output c \<Longrightarrow> level (fold (\<lambda>c h. snd (cfg c h)) cs h) (gpio_loc c) = Some (bit c 8)"
    using assms(2) by (simp_all add: cs cfg_all_other cfg_pins cfg_level)
qed

lemma rd_cfg_all: "rd c (fold (\<lambda>c h. snd (cfg c h)) cs h) = rd c h"
  by (induction cs arbitrary: h) (simp_all add: rd_cfg)

lemma wr_all:
  "list_all gpio_valid cs \<Longrightarrow>
   level (fold (\<lambda>c. wr c v) cs h) p = (if p \<in> gpio_loc ` set cs then Some v else level h p)"
  by (induction cs arbitrary: h) (auto simp: wr_level)

end

interpretation gpio: gpio_provider stm32_configgpio stm32_gpiowrite stm32_gpioread gpio_abs level_abs
proof unfold_locales
  fix c h v
  show "gpio_valid c \<Longrightarrow> fst (stm32_configgpio c h) = OK"
    by (simp add: gpio_valid_def STM32H7_NGPIO_def)
  show "\<not> gpio_valid c \<Longrightarrow> stm32_configgpio c h = (- EINVAL, h)"
    by (simp add: gpio_valid_def)
  show "gpio_valid c \<Longrightarrow> gpio_abs (snd (stm32_configgpio c h)) = (gpio_abs h)(gpio_loc c \<mapsto> cfg_of c)"
    by (simp add: gpio_valid_def gpio_loc_def STM32H7_NGPIO_def configgpio_pins)
  show "gpio_valid c \<Longrightarrow> level_abs (snd (stm32_configgpio c h)) =
      (if gpio_is_output c then (level_abs h)(gpio_loc c \<mapsto> bit c 8) else level_abs h)"
    by (simp add: gpio_valid_def gpio_loc_def gpio_is_output_def level_abs_configgpio)
  show "gpio_valid c \<Longrightarrow> level_abs (stm32_gpiowrite c v h) = (level_abs h)(gpio_loc c \<mapsto> v)"
    by (auto simp: gpio_valid_def gpio_loc_def level_abs_def STM32H7_NGPIO_def latch_gpiowrite
        split: prod.split intro!: ext)
qed simp_all

end
