(* ===== verification/Pin_Names.thy ===== *)
theory Pin_Names
  imports Libc_Str Stm32_Gpio
begin

text \<open>
  Pin names such as \<^verbatim>\<open>PF15\<close>, which the board's Kconfig strings are made of, and the contract
  of a parser for them. The buttons and the SPI code each carry a parser of their own; both are
  shown to keep the contract, and what their callers need is proved here once, from the
  contract.
\<close>

subsection \<open>Steps both parsers have\<close>

definition skip_blanks :: "string \<Rightarrow> string" where
  "skip_blanks s = dropWhile (\<lambda>c. c = CHR '' '' \<or> c = CHR 0x09) s"

text \<open>The switch from the pin number to \<^verbatim>\<open>GPIO_PINn\<close>.\<close>

definition gpio_pin_code :: "int \<Rightarrow> u32 option" where
  "gpio_pin_code pin_num = (if 0 \<le> pin_num \<and> pin_num \<le> 15 then Some (GPIO_PIN (nat pin_num)) else None)"

definition pin_delims :: string where
  "pin_delims = [CHR '','', CHR '' '', CHR 0x09, CHR 0x0A, CHR 0x0D]"

subsection \<open>Names\<close>

definition dec2 :: "nat \<Rightarrow> string" where
  "dec2 n = (if n < 10 then [''0123456789'' ! n] else [CHR ''1'', ''0123456789'' ! (n - 10)])"

definition port_char :: "nat \<Rightarrow> char" where
  "port_char port = ''ABCDEFGH'' ! port"

definition pin_name :: "nat \<Rightarrow> nat \<Rightarrow> string" where
  "pin_name port pin = CHR ''P'' # port_char port # dec2 pin"

lemma dec2_digits:
  assumes "n < 16"
  shows "dec2 n \<noteq> [] \<and> all_digits 10 (dec2 n) \<and> num_val 10 (dec2 n) = int n"
  using below_16 [OF assms]
  by (elim enumE) (simp_all add: dec2_def all_digits_def num_val_def dval_def lib_isbasedigit_def c2i_def)

lemma strtol_dec2:
  assumes "n < 16"
  shows "strtol (Some (b, dec2 n)) 10 = (int n, Some (rev (dec2 n) @ b, []), None)"
  using strtol_reads [of 10 "dec2 n" "[]" "[]" "[]" "int n" b] dec2_digits [OF assms] assms
  by (simp add: no_digit_first_def LONG_MIN_def LONG_MAX_def)

lemma dec2_length: "n < 16 \<Longrightarrow> length (dec2 n) = (if n < 10 then 1 else 2)"
  by (simp add: dec2_def)

lemma strlen_cstr: "strlen s = length (cstr s)"
  by (induction s) auto

lemma dec2_no_NUL: "n < 16 \<Longrightarrow> NUL \<notin> set (dec2 n)"
  by (drule below_16) (elim enumE; simp add: dec2_def)

lemma pin_name_port_char:
  assumes "port < 8"
  shows "c2i (port_char port) = 65 + int port" "port_char port \<noteq> NUL"
  using below_8 [OF assms] by (elim enumE; simp add: c2i_def port_char_def)+

lemma pin_name_simps:
  assumes "port < 8" "pin < 16"
  shows "skip_blanks (pin_name port pin) = pin_name port pin"
    "strlen (pin_name port pin) = (if pin < 10 then 3 else 4)"
    "pin_name port pin ! 0 = CHR ''P''" "pin_name port pin ! Suc 0 = port_char port"
    "take 2 (pin_name port pin) = [CHR ''P'', port_char port]" "drop 2 (pin_name port pin) = dec2 pin"
  using assms
  by (simp_all add: pin_name_def skip_blanks_def strlen_cstr cstr_idem dec2_no_NUL dec2_length pin_name_port_char)

lemma gpio_pin_code_Some:
  "gpio_pin_code n = Some gp \<Longrightarrow> \<exists>pin < 16. gp = GPIO_PIN pin"
  by (auto simp: gpio_pin_code_def split: if_splits intro!: exI [of _ "nat n"])

subsection \<open>Lists of names\<close>

text \<open>The tokens still to come: the current one and those of further calls.\<close>

definition rest_tokens :: "string option \<Rightarrow> string option \<Rightarrow> string list" where
  "rest_tokens pin g = (case pin of None \<Rightarrow> [] | Some t \<Rightarrow> t # strtok_iter pin_delims g)"

lemma rest_tokens_None [simp]: "rest_tokens None g = []"
  by (simp add: rest_tokens_def)

lemma rest_tokens_step:
  "strtok None pin_delims g = (pin', g') \<Longrightarrow> rest_tokens (Some t) g = t # rest_tokens pin' g'"
  by (subst rest_tokens_def, subst strtok_iter.simps) (simp add: rest_tokens_def split: option.split)

lemma cstr_strncpy: "cstr (strncpy s n @ [NUL]) = take n (cstr s)"
proof (induction s n rule: strncpy.induct)
  case (2 n)
  then show ?case by (simp add: cstr_def)
qed (auto simp: cstr_def)

lemma pin_delims_cstr [simp]: "cstr pin_delims = pin_delims"
  by (simp add: pin_delims_def)

lemma tokens_of_config:
  "strtok (Some s) pin_delims g = (pin, g') \<Longrightarrow>
   rest_tokens pin g' = pieces (set (cstr pin_delims)) (cstr s)"
  using strtok_all_pieces [where s = s and delim = pin_delims and g = g] by (auto simp: rest_tokens_def split: option.splits)

subsection \<open>The contract of a pin parser\<close>

locale pin_parser =
  fixes parse :: "string option \<Rightarrow> int \<times> u32" and flags :: u32 and nports :: nat
  assumes flags_ok: "flag_word flags"
    and nports_ok: "nports \<le> STM32H7_NGPIO"
    and parse_name: "port < nports \<Longrightarrow> pin < 16 \<Longrightarrow>
      parse (Some (pin_name port pin)) = (0, pin_word flags port pin)"
    and parse_sound: "parse s = (0, w) \<Longrightarrow> \<exists>port < nports. \<exists>pin < 16. w = pin_word flags port pin"
    and parse_err: "fst (parse s) \<noteq> 0 \<Longrightarrow> parse s = (- EINVAL, 0)"
begin

lemma parsed_word:
  assumes "parse s = (0, w)"
  shows "gpio_valid w" "gpio_port w < nports" "cfg_of w = cfg_of flags"
    "8 \<le> i \<Longrightarrow> bit w i \<longleftrightarrow> bit flags i" "w = pin_word flags (gpio_port w) (gpio_pin w)"
proof -
  obtain port pin where "port < nports" "pin < 16" "w = pin_word flags port pin"
    using parse_sound [OF assms] by blast
  moreover then have "port < 16" using nports_ok by (simp add: STM32H7_NGPIO_def)
  ultimately show "gpio_valid w" "gpio_port w < nports" "cfg_of w = cfg_of flags"
    "8 \<le> i \<Longrightarrow> bit w i \<longleftrightarrow> bit flags i" "w = pin_word flags (gpio_port w) (gpio_pin w)"
    using nports_ok flags_ok
    by (simp_all add: gpio_valid_def pin_word_parts pin_word_flags)
qed

lemma parsed_loc_inj:
  "parse s = (0, w) \<Longrightarrow> parse s' = (0, w') \<Longrightarrow> gpio_loc w = gpio_loc w' \<longleftrightarrow> w = w'"
  using parsed_word(5) [of s w] parsed_word(5) [of s' w'] by (auto simp: gpio_loc_def)

lemma parse_cases:
  obtains w where "parse s = (0, w)" | "parse s = (- EINVAL, 0)"
  using parse_err [of s] by (metis prod.collapse)

end

end
