(* ===== verification/Board_Spi.thy ===== *)
theory Board_Spi
  imports Pin_Names
begin

text \<open>
  The SPI chip selects of the board, \<^verbatim>\<open>boards/arm/stm32h7/nucleo-h753zi/src/stm32_spi.c\<close>: the
  parser for the pin lists, the initialization of the chip select pins of the six buses, the
  routing of a device id to a chip select pin, and the registration of the bus devices.

  The static variables of the six buses, which the source has under six names, are a list of
  six records; the Kconfig settings of the buses likewise. The bus driver and the character
  driver the registration calls are parameters of that one definition. Stores into the arrays
  are checked (\<open>None\<close>: out of bounds); messages are left out.
\<close>

definition MAX_CS_PINS_PER_SPI :: nat where "MAX_CS_PINS_PER_SPI = 8"

record spi_bus =
  cs_pins :: "u32 list"
  cs_count :: nat

record spi_bus_cfg =
  spi_enable :: bool
  cs_pins_str :: "string option"

subsection \<open>Parsing\<close>

definition spi_port_base :: "char \<Rightarrow> u32 option" where
  "spi_port_base port =
     (if port = CHR ''A'' then Some (GPIO_PORT 0)
      else if port = CHR ''B'' then Some (GPIO_PORT 1)
      else if port = CHR ''C'' then Some (GPIO_PORT 2)
      else if port = CHR ''D'' then Some (GPIO_PORT 3)
      else if port = CHR ''E'' then Some (GPIO_PORT 4)
      else if port = CHR ''F'' then Some (GPIO_PORT 5)
      else if port = CHR ''G'' then Some (GPIO_PORT 6)
      else if port = CHR ''H'' then Some (GPIO_PORT 7)
      else None)"

definition spi_parse_gpio_pin :: "string option \<Rightarrow> int \<times> u32" where
  "spi_parse_gpio_pin pin_str =
     (case pin_str of
        None \<Rightarrow> (- EINVAL, 0)
      | Some s \<Rightarrow>
          let s = skip_blanks s; len = strlen s in
          if len < 3 \<or> len > 4 then (- EINVAL, 0)
          else if s ! 0 \<noteq> CHR ''P'' then (- EINVAL, 0)
          else let port = s ! 1 in
          if c2i port < c2i (CHR ''A'') \<or> c2i port > c2i (CHR ''H'') then (- EINVAL, 0)
          else let (pin_num, endptr, _) = strtol (Some (rev (take 2 s), drop 2 s)) 10 in
          if deref (the endptr) \<noteq> NUL \<or> pin_num < 0 \<or> pin_num > 15 then (- EINVAL, 0)
          else (case spi_port_base port of
             None \<Rightarrow> (- EINVAL, 0)
           | Some port_base \<Rightarrow>
               (case gpio_pin_code pin_num of
                  None \<Rightarrow> (- EINVAL, 0)
                | Some pin_code \<Rightarrow> (0, GPIO_OUTPUT OR GPIO_OUTPUT_SET OR port_base OR pin_code))))"

text \<open>The loop of \<^verbatim>\<open>parse_cs_pins\<close>: the result holds the return value, the array and the count.\<close>

function cs_loop ::
  "string option \<Rightarrow> string option \<Rightarrow> nat \<Rightarrow> u32 list \<Rightarrow> nat \<Rightarrow> (int \<times> u32 list \<times> nat \<times> string option) option"
where
  "cs_loop token g max_pins pins pin_count =
     (case token of
        None \<Rightarrow> Some (OK, pins, pin_count, g)
      | Some t \<Rightarrow>
          if pin_count < max_pins then
            let (error, gpio_config) = spi_parse_gpio_pin (Some t) in
            if error \<noteq> 0 then Some (error, pins, 0, g)
            else (case arr_set pins pin_count gpio_config of
                    None \<Rightarrow> None
                  | Some pins \<Rightarrow>
                      let (token', g') = strtok None pin_delims g
                      in cs_loop token' g' max_pins pins (pin_count + 1))
          else Some (OK, pins, pin_count, g))"
  by pat_completeness auto
termination
  by (relation "measure (\<lambda>(token, g, m, pins, n). tok_size g + (if token = None then 0 else 1))")
    (simp, use strtok_loop_dec in fastforce)

declare cs_loop.simps [simp del]

definition parse_cs_pins ::
  "string option \<Rightarrow> u32 list \<Rightarrow> nat \<Rightarrow> string option \<Rightarrow> (int \<times> u32 list \<times> nat \<times> string option) option" where
  "parse_cs_pins str pins max_pins g =
     (case str of
        None \<Rightarrow> Some (OK, pins, 0, g)
      | Some s \<Rightarrow>
          if strlen s = 0 then Some (OK, pins, 0, g)
          else let pins_str = strncpy s 255 @ [NUL];
                   (token, g) = strtok (Some pins_str) pin_delims g
               in cs_loop token g max_pins pins 0)"

subsection \<open>Initialization\<close>

fun config_cs :: "u32 list \<Rightarrow> bus \<Rightarrow> int \<times> bus" where
  "config_cs [] h = (OK, h)"
| "config_cs (c # cs) h =
     (let (ret, h) = stm32_configgpio c h in
      if ret < 0 then (ret, h) else config_cs cs (stm32_gpiowrite c True h))"

text \<open>The block of one bus; the six blocks of the source differ in the bus only.\<close>

definition spi_init_bus ::
  "spi_bus_cfg \<Rightarrow> spi_bus \<Rightarrow> string option \<Rightarrow> bus \<Rightarrow> (int \<times> spi_bus \<times> string option \<times> bus) option" where
  "spi_init_bus cfg b g h =
     (case parse_cs_pins (cs_pins_str cfg) (cs_pins b) MAX_CS_PINS_PER_SPI g of
        None \<Rightarrow> None
      | Some (ret, pins, n, g) \<Rightarrow>
          let b = \<lparr>cs_pins = pins, cs_count = n\<rparr> in
          if ret < 0 then Some (ret, b, g, h)
          else let (ret', h) = config_cs (take n pins) h in
               Some (if n = 0 then ret else ret', b, g, h))"

text \<open>The blocks in sequence, from bus \<open>n\<close> on, with the value \<open>ret\<close> of the last step.\<close>

fun spi_init_from ::
  "(spi_bus_cfg \<times> spi_bus) list \<Rightarrow> int \<Rightarrow> string option \<Rightarrow> bus \<Rightarrow> (int \<times> spi_bus list \<times> bus) option" where
  "spi_init_from [] ret g h = Some (ret, [], h)"
| "spi_init_from ((cfg, b) # rest) ret g h =
     (if spi_enable cfg then
        (case spi_init_bus cfg b g h of
           None \<Rightarrow> None
         | Some (ret, b, g, h) \<Rightarrow>
             if ret < 0 then Some (ret, b # map snd rest, h)
             else map_option (\<lambda>(r, bs, h). (r, b # bs, h)) (spi_init_from rest ret g h))
      else map_option (\<lambda>(r, bs, h). (r, b # bs, h)) (spi_init_from rest ret g h))"

definition stm32_spi_initialize ::
  "spi_bus_cfg list \<Rightarrow> spi_bus list \<Rightarrow> string option \<Rightarrow> bus \<Rightarrow> (int \<times> spi_bus list \<times> bus) option" where
  "stm32_spi_initialize cfgs bs g h = spi_init_from (zip cfgs bs) OK g h"

subsection \<open>Selecting\<close>

definition spi_cs_select :: "spi_bus_cfg list \<Rightarrow> spi_bus list \<Rightarrow> u32 \<Rightarrow> bool \<Rightarrow> bus \<Rightarrow> bus" where
  "spi_cs_select cfgs bs devid selected h =
     (let spi_base = unat (devid div 8); cs_index = unat (devid mod 8) in
      if spi_base < 6 \<and> spi_enable (cfgs ! spi_base) then
        (if cs_index \<ge> cs_count (bs ! spi_base) then h
         else stm32_gpiowrite (cs_pins (bs ! spi_base) ! cs_index) (\<not> selected) h)
      else h)"

definition stm32_spi1select :: "spi_bus_cfg list \<Rightarrow> spi_bus list \<Rightarrow> u32 \<Rightarrow> bool \<Rightarrow> bus \<Rightarrow> bus" where
  "stm32_spi1select cfgs bs devid selected h = spi_cs_select cfgs bs devid selected h"
definition stm32_spi2select :: "spi_bus_cfg list \<Rightarrow> spi_bus list \<Rightarrow> u32 \<Rightarrow> bool \<Rightarrow> bus \<Rightarrow> bus" where
  "stm32_spi2select cfgs bs devid selected h = spi_cs_select cfgs bs (devid + 8) selected h"
definition stm32_spi3select :: "spi_bus_cfg list \<Rightarrow> spi_bus list \<Rightarrow> u32 \<Rightarrow> bool \<Rightarrow> bus \<Rightarrow> bus" where
  "stm32_spi3select cfgs bs devid selected h = spi_cs_select cfgs bs (devid + 16) selected h"
definition stm32_spi4select :: "spi_bus_cfg list \<Rightarrow> spi_bus list \<Rightarrow> u32 \<Rightarrow> bool \<Rightarrow> bus \<Rightarrow> bus" where
  "stm32_spi4select cfgs bs devid selected h = spi_cs_select cfgs bs (devid + 24) selected h"
definition stm32_spi5select :: "spi_bus_cfg list \<Rightarrow> spi_bus list \<Rightarrow> u32 \<Rightarrow> bool \<Rightarrow> bus \<Rightarrow> bus" where
  "stm32_spi5select cfgs bs devid selected h = spi_cs_select cfgs bs (devid + 32) selected h"
definition stm32_spi6select :: "spi_bus_cfg list \<Rightarrow> spi_bus list \<Rightarrow> u32 \<Rightarrow> bool \<Rightarrow> bus \<Rightarrow> bus" where
  "stm32_spi6select cfgs bs devid selected h = spi_cs_select cfgs bs (devid + 40) selected h"

text \<open>The select operation of the bus numbered \<open>n\<close> from 0.\<close>

definition spi_selects ::
  "(spi_bus_cfg list \<Rightarrow> spi_bus list \<Rightarrow> u32 \<Rightarrow> bool \<Rightarrow> bus \<Rightarrow> bus) list" where
  "spi_selects =
     [stm32_spi1select, stm32_spi2select, stm32_spi3select, stm32_spi4select, stm32_spi5select,
      stm32_spi6select]"

definition SPI_STATUS_PRESENT :: nat where "SPI_STATUS_PRESENT = 1"

definition stm32_spistatus :: "u32 \<Rightarrow> nat" where
  "stm32_spistatus devid = SPI_STATUS_PRESENT"

text \<open>The device ids of the SPI framework: a device type and an index.\<close>

definition SPIDEV_ID :: "u32 \<Rightarrow> u32 \<Rightarrow> u32" where
  "SPIDEV_ID type index = (push_bit 16 (type AND 0xffff)) OR (index AND 0xffff)"

subsection \<open>Registration of the bus devices\<close>

text \<open>
  \<open>busini n\<close> is \<^verbatim>\<open>stm32_spibus_initialize\<close> (whether it returns a bus), \<open>register n\<close> is
  \<^verbatim>\<open>spi_register\<close>; both act on a world the rest of the board does not see. \<open>ports\<close> lists the
  ports enabled by \<^verbatim>\<open>CONFIG_STM32H7_SPIn\<close>, in the order of the source.
\<close>

fun spidev_register_from ::
  "(nat \<Rightarrow> 'w \<Rightarrow> bool \<times> 'w) \<Rightarrow> (nat \<Rightarrow> 'w \<Rightarrow> int \<times> 'w) \<Rightarrow> nat list \<Rightarrow> int \<Rightarrow> 'w \<Rightarrow> int \<times> 'w" where
  "spidev_register_from busini register [] ret w = (ret, w)"
| "spidev_register_from busini register (n # ns) ret w =
     (let (spi, w) = busini n w in
      if spi then let (ret, w) = register n w in spidev_register_from busini register ns ret w
      else spidev_register_from busini register ns ret w)"

definition stm32_spidev_register_all ::
  "(nat \<Rightarrow> 'w \<Rightarrow> bool \<times> 'w) \<Rightarrow> (nat \<Rightarrow> 'w \<Rightarrow> int \<times> 'w) \<Rightarrow> (nat \<Rightarrow> bool) \<Rightarrow> 'w \<Rightarrow> int \<times> 'w" where
  "stm32_spidev_register_all busini register port_on w =
     spidev_register_from busini register (filter port_on [1, 2, 3, 4, 5, 6]) OK w"

subsection \<open>The parser keeps its contract\<close>

definition SPI_FLAGS :: u32 where
  "SPI_FLAGS = GPIO_OUTPUT OR GPIO_OUTPUT_SET"

lemma spi_port_char: "port < 8 \<Longrightarrow> spi_port_base (port_char port) = Some (GPIO_PORT port)"
  by (drule below_8) (elim enumE; simp add: spi_port_base_def port_char_def)

lemma spi_port_base_Some:
  assumes "spi_port_base c = Some pb" shows "\<exists>port < 8. pb = GPIO_PORT port"
proof -
  have "pb \<in> GPIO_PORT ` {..<8}"
    using assms by (auto simp: spi_port_base_def split: if_splits)
  then show ?thesis by auto
qed

lemma spi_parse_name:
  assumes "port < 8" "pin < 16"
  shows "spi_parse_gpio_pin (Some (pin_name port pin)) = (0, pin_word SPI_FLAGS port pin)"
proof -
  have range: "\<not> (c2i (port_char port) < c2i (CHR ''A'') \<or> c2i (port_char port) > c2i (CHR ''H''))"
    using pin_name_port_char(1) [OF assms(1)] assms(1) by (simp add: c2i_def)
  have code: "gpio_pin_code (int pin) = Some (GPIO_PIN pin)"
    using assms(2) by (simp add: gpio_pin_code_def)
  show ?thesis
    using assms range
    by (simp add: spi_parse_gpio_pin_def pin_name_simps strtol_dec2 code spi_port_char pin_word_def SPI_FLAGS_def
        or.assoc Let_def del: not_less)
qed

lemma spi_parse_sound:
  assumes "spi_parse_gpio_pin s = (0, w)"
  shows "\<exists>port < 8. \<exists>pin < 16. w = pin_word SPI_FLAGS port pin"
proof -
  obtain pb gp where "w = GPIO_OUTPUT OR GPIO_OUTPUT_SET OR pb OR gp"
    "\<exists>c. spi_port_base c = Some pb" "\<exists>n. gpio_pin_code n = Some gp"
    using assms by (auto simp: spi_parse_gpio_pin_def Let_def split: option.splits if_splits prod.splits)
  then show ?thesis
    using spi_port_base_Some gpio_pin_code_Some
    by (fastforce simp: pin_word_def SPI_FLAGS_def or.assoc)
qed

lemma spi_parse_err: "fst (spi_parse_gpio_pin s) \<noteq> 0 \<Longrightarrow> spi_parse_gpio_pin s = (- EINVAL, 0)"
  by (auto simp: spi_parse_gpio_pin_def Let_def split: option.splits if_splits prod.splits)

interpretation spi: pin_parser spi_parse_gpio_pin SPI_FLAGS 8
proof unfold_locales
  show "flag_word SPI_FLAGS"
    by (simp add: flag_word_def SPI_FLAGS_def gpio_consts take_bit_eq_mod)
  show "(8 :: nat) \<le> STM32H7_NGPIO" by (simp add: STM32H7_NGPIO_def)
qed (use spi_parse_name spi_parse_sound spi_parse_err in auto)

lemma spi_flags_output: "pc_mode (cfg_of SPI_FLAGS) = 1" "bit SPI_FLAGS 8"
  by (simp_all add: cfg_of_def SPI_FLAGS_def gpio_consts reg_field_def Let_def
      take_bit_eq_mod drop_bit_eq_div bit_iff_odd_drop_bit)

definition cs_word :: "u32 \<Rightarrow> bool" where
  "cs_word w \<longleftrightarrow> gpio_valid w \<and> cfg_of w = cfg_of SPI_FLAGS \<and> bit w 8"

lemma parsed_cs_word: "spi_parse_gpio_pin s = (0, w) \<Longrightarrow> cs_word w"
  using spi.parsed_word(1,3) [of s w] spi.parsed_word(4) [of s w 8] spi_flags_output
  by (simp add: cs_word_def)

lemma cs_word_output: "cs_word w \<Longrightarrow> gpio_is_output w"
  by (simp add: cs_word_def gpio_is_output_def spi_flags_output)

subsection \<open>The chip select lists\<close>

text \<open>The loop as a recursion over the tokens.\<close>

fun cs_list :: "string list \<Rightarrow> nat \<Rightarrow> u32 list \<Rightarrow> nat \<Rightarrow> (int \<times> u32 list \<times> nat) option" where
  "cs_list [] max_pins pins n = Some (OK, pins, n)"
| "cs_list (t # ts) max_pins pins n =
     (if n < max_pins then
        let (error, gpio_config) = spi_parse_gpio_pin (Some t) in
        if error \<noteq> 0 then Some (error, pins, 0)
        else (case arr_set pins n gpio_config of
                None \<Rightarrow> None
              | Some pins \<Rightarrow> cs_list ts max_pins pins (n + 1))
      else Some (OK, pins, n))"

lemma cs_loop_eq:
  "map_option (\<lambda>(r, p, n, g). (r, p, n)) (cs_loop token g m pins n) = cs_list (rest_tokens token g) m pins n"
proof (induction token g m pins n rule: cs_loop.induct)
  case (1 token g m pins n)
  obtain token' g' where tok: "strtok None pin_delims g = (token', g')" by (rule prod.exhaust)
  show ?case
  proof (cases token)
    case (Some t)
    obtain e c where parse: "spi_parse_gpio_pin (Some t) = (e, c)" by (rule prod.exhaust)
    show ?thesis
      using 1 [OF Some _ parse [symmetric] refl _ _ tok [symmetric] refl]
      by (subst cs_loop.simps)
        (simp add: Some parse tok rest_tokens_step [OF tok] split: option.split)
  qed (subst cs_loop.simps, simp)
qed

text \<open>What a list of pin names stands for: at most \<open>m\<close> pins, and all of those are pins.\<close>

definition spec_cs :: "nat \<Rightarrow> string option \<Rightarrow> u32 list option" where
  "spec_cs m str =
     (let ts = take m (case str of None \<Rightarrow> [] | Some s \<Rightarrow> pieces (set pin_delims) (take 255 (cstr s))) in
      if list_all (\<lambda>t. fst (spi_parse_gpio_pin (Some t)) = 0) ts
      then Some (map (\<lambda>t. snd (spi_parse_gpio_pin (Some t))) ts) else None)"

lemma cs_list_spec:
  fixes ts :: "string list"
  assumes "length pins = m" "n \<le> m"
  defines "ts' \<equiv> take (m - n) ts"
  shows "\<exists>r p k. cs_list ts m pins n = Some (r, p, k) \<and> length p = m \<and> k \<le> m \<and>
     (if list_all (\<lambda>t. fst (spi_parse_gpio_pin (Some t)) = 0) ts'
      then r = OK \<and> take k p = take n pins @ map (\<lambda>t. snd (spi_parse_gpio_pin (Some t))) ts'
      else r = - EINVAL \<and> k = 0)"
  using assms(1,2) unfolding ts'_def
proof (induction ts arbitrary: pins n)
  case (Cons t ts)
  show ?case
  proof (cases "n < m")
    case True
    then have tk: "take (m - n) (t # ts) = t # take (m - Suc n) ts"
      by (simp add: take_Cons' Suc_diff_Suc)
    show ?thesis
    proof (rule spi.parse_cases [of "Some t"])
      fix w assume w: "spi_parse_gpio_pin (Some t) = (0, w)"
      obtain r p k where "cs_list ts m (pins[n := w]) (Suc n) = Some (r, p, k)" "length p = m" "k \<le> m"
        "if list_all (\<lambda>t. fst (spi_parse_gpio_pin (Some t)) = 0) (take (m - Suc n) ts)
         then r = OK \<and> take k p = take (Suc n) (pins[n := w]) @
                map (\<lambda>t. snd (spi_parse_gpio_pin (Some t))) (take (m - Suc n) ts)
         else r = - EINVAL \<and> k = 0"
        using Cons.IH [of "pins[n := w]" "Suc n"] True Cons.prems by auto
      with True Cons.prems w show ?thesis
        unfolding tk by (simp split del: if_split cong: if_cong add: take_Suc_conv_app_nth)
    next
      assume "spi_parse_gpio_pin (Some t) = (- EINVAL, 0)"
      with True Cons.prems show ?thesis unfolding tk by simp
    qed
  next
    case False
    with Cons.prems show ?thesis by simp
  qed
qed simp

lemma parse_cs_pins_spec:
  assumes "length pins = m"
  shows "\<exists>r p k g'. parse_cs_pins str pins m g = Some (r, p, k, g') \<and> length p = m \<and> k \<le> m \<and>
     (case spec_cs m str of
        Some ws \<Rightarrow> r = OK \<and> take k p = ws
      | None \<Rightarrow> r = - EINVAL \<and> k = 0)"
proof (cases "str = None \<or> (\<exists>s. str = Some s \<and> strlen s = 0)")
  case True
  then show ?thesis
    using assms by (auto simp: parse_cs_pins_def spec_cs_def strlen_cstr Let_def)
next
  case False
  then obtain s where s: "str = Some s" "strlen s \<noteq> 0" by auto
  obtain token g1 where tok: "strtok (Some (strncpy s 255 @ [NUL])) pin_delims g = (token, g1)"
    by (rule prod.exhaust)
  have rest: "rest_tokens token g1 = pieces (set pin_delims) (take 255 (cstr s))"
    using tokens_of_config [OF tok] by (simp add: cstr_strncpy)
  have "parse_cs_pins str pins m g = cs_loop token g1 m pins 0"
    using s by (simp add: parse_cs_pins_def tok)
  moreover obtain r p k where list: "cs_list (rest_tokens token g1) m pins 0 = Some (r, p, k)"
    "length p = m" "k \<le> m" "case spec_cs m str of
        Some ws \<Rightarrow> r = OK \<and> take k p = ws
      | None \<Rightarrow> r = - EINVAL \<and> k = 0"
    using cs_list_spec [of pins m 0 "rest_tokens token g1"] assms
    by (auto simp: rest spec_cs_def Let_def s(1) split: if_splits)
  moreover obtain g' where "cs_loop token g1 m pins 0 = Some (r, p, k, g')"
    using cs_loop_eq [of token g1 m pins 0] list(1) by (auto split: prod.splits)
  ultimately show ?thesis by simp
qed

subsection \<open>Initialization leaves every chip select inactive\<close>

text \<open>A pin that is an output of the kind of a chip select and high, which is inactive.\<close>

definition cs_idle :: "bus \<Rightarrow> nat \<times> nat \<Rightarrow> bool" where
  "cs_idle h p \<longleftrightarrow> level_abs h p = Some True \<and> gpio_abs h p = Some (cfg_of SPI_FLAGS)"

text \<open>A step that can only turn pins into idle chip selects.\<close>

definition only_idle :: "bus \<Rightarrow> bus \<Rightarrow> bool" where
  "only_idle h h' \<longleftrightarrow> (\<forall>p. cs_idle h' p \<or> level_abs h' p = level_abs h p \<and> gpio_abs h' p = gpio_abs h p)"

lemma only_idle_refl [simp]: "only_idle h h"
  by (simp add: only_idle_def)

lemma only_idle_trans: "only_idle h h1 \<Longrightarrow> only_idle h1 h2 \<Longrightarrow> only_idle h h2"
  unfolding only_idle_def cs_idle_def by metis

lemma only_idle_keeps: "only_idle h h' \<Longrightarrow> cs_idle h p \<Longrightarrow> cs_idle h' p"
  unfolding only_idle_def cs_idle_def by metis

lemma cs_step:
  fixes c :: u32 and h :: bus
  assumes "cs_word c"
  defines "h' \<equiv> stm32_gpiowrite c True (snd (stm32_configgpio c h))"
  shows "only_idle h h'" "cs_idle h' (gpio_loc c)"
proof -
  have "level_abs h' = (level_abs h)(gpio_loc c \<mapsto> True)"
    "gpio_abs h' = (gpio_abs h)(gpio_loc c \<mapsto> cfg_of SPI_FLAGS)"
    using assms cs_word_output [of c]
    by (simp_all add: cs_word_def gpio.wr_level gpio.cfg_level gpio.wr_pins gpio.cfg_pins)
  then show "only_idle h h'" "cs_idle h' (gpio_loc c)"
    by (auto simp: only_idle_def cs_idle_def)
qed

lemma config_cs_idle:
  assumes "list_all cs_word cs"
  shows "\<exists>h'. config_cs cs h = (0, h') \<and> only_idle h h' \<and>
           (\<forall>c \<in> set cs. cs_idle h' (gpio_loc c))"
  using assms
proof (induction cs arbitrary: h)
  case (Cons c cs)
  obtain r h1 where cfg: "stm32_configgpio c h = (r, h1)" by (rule prod.exhaust)
  have r: "r = 0"
    using gpio.cfg_ok [of c h] Cons.prems by (simp add: cfg cs_word_def)
  obtain h' where h': "config_cs cs (stm32_gpiowrite c True h1) = (0, h')"
    "only_idle (stm32_gpiowrite c True h1) h'" "\<forall>c \<in> set cs. cs_idle h' (gpio_loc c)"
    using Cons.IH [of "stm32_gpiowrite c True h1"] Cons.prems by auto
  have c: "only_idle h (stm32_gpiowrite c True h1)"
    "cs_idle (stm32_gpiowrite c True h1) (gpio_loc c)"
    using cs_step [of c h] Cons.prems by (simp_all add: cfg)
  show ?case
    using only_idle_trans [OF c(1) h'(2)] only_idle_keeps [OF h'(2) c(2)] h'
    by (simp add: cfg r)
qed simp

lemma spec_cs_words: "spec_cs m str = Some ws \<Longrightarrow> list_all cs_word ws"
  by (auto simp: spec_cs_def Let_def list_all_iff split: if_splits)
    (metis parsed_cs_word prod.collapse)

lemma spi_init_bus_idle:
  assumes "length (cs_pins b) = 8"
  shows "\<exists>r b' g' h'. spi_init_bus cfg b g h = Some (r, b', g', h') \<and> only_idle h h' \<and>
     length (cs_pins b') = 8 \<and> cs_count b' \<le> 8 \<and>
     (case spec_cs 8 (cs_pins_str cfg) of
        Some ws \<Rightarrow> r = OK \<and> take (cs_count b') (cs_pins b') = ws \<and>
          (\<forall>c \<in> set ws. cs_idle h' (gpio_loc c))
      | None \<Rightarrow> r = - EINVAL \<and> cs_count b' = 0 \<and> h' = h)"
proof -
  obtain r p k g' where parse: "parse_cs_pins (cs_pins_str cfg) (cs_pins b) 8 g = Some (r, p, k, g')"
    "length p = 8" "k \<le> 8"
    and res: "case spec_cs 8 (cs_pins_str cfg) of
        Some ws \<Rightarrow> r = OK \<and> take k p = ws | None \<Rightarrow> r = - EINVAL \<and> k = 0"
    using parse_cs_pins_spec [OF assms, of "cs_pins_str cfg" g] by auto
  show ?thesis
  proof (cases "spec_cs 8 (cs_pins_str cfg)")
    case None
    with parse res show ?thesis
      by (simp add: spi_init_bus_def MAX_CS_PINS_PER_SPI_def)
  next
    case (Some ws)
    obtain h' where h': "config_cs ws h = (0, h')" "only_idle h h'"
      "\<forall>c \<in> set ws. cs_idle h' (gpio_loc c)"
      using config_cs_idle [OF spec_cs_words [OF Some], of h] by blast
    have "spi_init_bus cfg b g h = Some (0, \<lparr>cs_pins = p, cs_count = k\<rparr>, g', h')"
      using parse res Some h' by (simp add: spi_init_bus_def MAX_CS_PINS_PER_SPI_def)
    with parse res Some h' show ?thesis by simp
  qed
qed

text \<open>The buses a successful initialization leaves behind.\<close>

definition cs_ready :: "spi_bus_cfg \<times> spi_bus \<Rightarrow> bus \<Rightarrow> bool" where
  "cs_ready cb h \<longleftrightarrow>
     (case cb of (cfg, b) \<Rightarrow> spi_enable cfg \<longrightarrow> cs_count b \<le> 8 \<and>
        spec_cs 8 (cs_pins_str cfg) = Some (take (cs_count b) (cs_pins b)) \<and>
        (\<forall>c \<in> set (take (cs_count b) (cs_pins b)). cs_word c \<and> cs_idle h (gpio_loc c)))"

lemma cs_ready_keeps: "cs_ready cb h \<Longrightarrow> only_idle h h' \<Longrightarrow> cs_ready cb h'"
  by (auto simp: cs_ready_def intro: only_idle_keeps)

lemma cs_ready_off: "\<not> spi_enable cfg \<Longrightarrow> cs_ready (cfg, b) h"
  by (simp add: cs_ready_def)

lemma spi_init_from_correct:
  assumes "list_all (\<lambda>(cfg, b). length (cs_pins b) = 8) cbs"
  shows "\<exists>r bs h'. spi_init_from cbs 0 g h = Some (r, bs, h') \<and> only_idle h h' \<and>
     length bs = length cbs \<and> list_all (\<lambda>b. length (cs_pins b) = 8) bs \<and>
     (if list_all (\<lambda>(cfg, b). spi_enable cfg \<longrightarrow> spec_cs 8 (cs_pins_str cfg) \<noteq> None) cbs
      then r = OK \<and> list_all (\<lambda>cb. cs_ready cb h') (zip (map fst cbs) bs)
      else r = - EINVAL)"
  using assms
proof (induction cbs arbitrary: g h)
  case (Cons cb cbs)
  obtain cfg b where cb: "cb = (cfg, b)" by (cases cb)
  have len: "length (cs_pins b) = 8" "list_all (\<lambda>(cfg, b). length (cs_pins b) = 8) cbs"
    using Cons.prems by (simp_all add: cb)
  let ?good = "list_all (\<lambda>(cfg, b). spi_enable cfg \<longrightarrow> spec_cs 8 (cs_pins_str cfg) \<noteq> None)"
  have rest: "\<exists>r bs h'. spi_init_from cbs 0 g h = Some (r, bs, h') \<and> only_idle h h' \<and>
     length bs = length cbs \<and> list_all (\<lambda>b. length (cs_pins b) = 8) bs \<and>
     (if ?good cbs then r = OK \<and> list_all (\<lambda>cb. cs_ready cb h') (zip (map fst cbs) bs) else r = - EINVAL)"
    for g h by (rule Cons.IH [OF len(2)])
  show ?case
  proof (cases "spi_enable cfg")
    case False
    then have good: "?good (cb # cbs) \<longleftrightarrow> ?good cbs" by (simp add: cb)
    obtain r bs h' where "spi_init_from cbs 0 g h = Some (r, bs, h')" "only_idle h h'"
      "length bs = length cbs" "list_all (\<lambda>b. length (cs_pins b) = 8) bs"
      "if ?good cbs then r = OK \<and> list_all (\<lambda>cb. cs_ready cb h') (zip (map fst cbs) bs) else r = - EINVAL"
      using rest [of g h] by (elim exE conjE) (rule that)
    then show ?thesis
      unfolding good using False len(1) by (simp add: cb cs_ready_off split del: if_split cong: if_cong)
  next
    case on: True
    obtain r b' g' h1 where bus: "spi_init_bus cfg b g h = Some (r, b', g', h1)" "only_idle h h1"
      "length (cs_pins b') = 8" "cs_count b' \<le> 8"
      and res: "case spec_cs 8 (cs_pins_str cfg) of
        Some ws \<Rightarrow> r = OK \<and> take (cs_count b') (cs_pins b') = ws \<and>
          (\<forall>c \<in> set ws. cs_idle h1 (gpio_loc c))
      | None \<Rightarrow> r = - EINVAL \<and> cs_count b' = 0 \<and> h1 = h"
      using spi_init_bus_idle [OF len(1), of cfg g h] by (elim exE conjE) (rule that)
    show ?thesis
    proof (cases "spec_cs 8 (cs_pins_str cfg)")
      case None
      then have "\<not> ?good (cb # cbs)" using on by (simp add: cb)
      moreover have "list_all (\<lambda>b. length (cs_pins b) = 8) (map snd cbs)"
        using len(2) by (simp add: list_all_iff split_beta)
      moreover have "spi_init_from (cb # cbs) 0 g h = Some (r, b' # map snd cbs, h1)"
        using on bus(1) None res by (simp add: cb)
      ultimately show ?thesis using bus None res on by (simp add: cb)
    next
      case (Some ws)
      then have good: "?good (cb # cbs) \<longleftrightarrow> ?good cbs" by (simp add: cb)
      from Some res have r: "r = 0" "take (cs_count b') (cs_pins b') = ws"
        "\<forall>c \<in> set ws. cs_idle h1 (gpio_loc c)" by auto
      have ready: "cs_ready (cfg, b') h1"
        using r bus(4) Some spec_cs_words [OF Some] by (simp add: cs_ready_def list_all_iff)
      obtain r' bs h' where ih: "spi_init_from cbs 0 g' h1 = Some (r', bs, h')" "only_idle h1 h'"
        "length bs = length cbs" "list_all (\<lambda>b. length (cs_pins b) = 8) bs"
        "if ?good cbs then r' = OK \<and> list_all (\<lambda>cb. cs_ready cb h') (zip (map fst cbs) bs) else r' = - EINVAL"
        using rest [of g' h1] by (elim exE conjE) (rule that)
      have "spi_init_from (cb # cbs) 0 g h = Some (r', b' # bs, h')"
        using on bus(1) r(1) ih(1) by (simp add: cb)
      then show ?thesis
        unfolding good using bus(3) ih cs_ready_keeps [OF ready ih(2)] only_idle_trans [OF bus(2) ih(2)]
        by (simp add: cb split del: if_split cong: if_cong)
    qed
  qed
qed simp

text \<open>
  C34. Every pin name of the ports A to H is accepted and stands for that pin as a push-pull
  output that starts high; a string that is accepted at all stands for such a pin, and every other
  string is an error with no pin.
\<close>

theorem spi_parse_pin_names:
  assumes "port < 8" "pin < 16"
  shows "spi_parse_gpio_pin (Some (pin_name port pin)) = (0, pin_word SPI_FLAGS port pin) \<and>
         (spi_parse_gpio_pin s = (- EINVAL, 0) \<or>
          (\<exists>port pin. port < 8 \<and> pin < 16 \<and> spi_parse_gpio_pin s = (0, pin_word SPI_FLAGS port pin)))"
proof -
  have "spi_parse_gpio_pin s = (- EINVAL, 0) \<or>
        (\<exists>port pin. port < 8 \<and> pin < 16 \<and> spi_parse_gpio_pin s = (0, pin_word SPI_FLAGS port pin))"
    by (rule spi.parse_cases [of s]) (use spi.parse_sound [of s] in auto)
  then show ?thesis using spi.parse_name [OF assms] by blast
qed

theorem spi_parse_pin_names_witness:
  "spi_parse_gpio_pin (Some ''PH15'') = (0, pin_word SPI_FLAGS 7 15)"
  using spi_parse_pin_names [of 7 15 None] by (simp add: pin_name_def port_char_def dec2_def)

lemma spi_initialize_result:
  assumes "length cfgs = 6" "length bs = 6" "list_all (\<lambda>b. length (cs_pins b) = 8) bs"
  shows "\<exists>r bs' h'. stm32_spi_initialize cfgs bs g h = Some (r, bs', h') \<and> only_idle h h' \<and>
     length bs' = 6 \<and> list_all (\<lambda>b. length (cs_pins b) = 8) bs' \<and>
     (if \<exists>n < 6. spi_enable (cfgs ! n) \<and> spec_cs 8 (cs_pins_str (cfgs ! n)) = None
      then r = - EINVAL else r = OK \<and> (\<forall>n < 6. cs_ready (cfgs ! n, bs' ! n) h'))"
proof -
  have "list_all (\<lambda>(cfg, b). length (cs_pins b) = 8) (zip cfgs bs)"
    using assms by (auto simp: list_all_iff dest: set_zip_rightD)
  from spi_init_from_correct [OF this, of g h] obtain r bs' h' where
    init: "stm32_spi_initialize cfgs bs g h = Some (r, bs', h')" "only_idle h h'" "length bs' = 6"
      "list_all (\<lambda>b. length (cs_pins b) = 8) bs'"
    and res: "if list_all (\<lambda>(cfg, b). spi_enable cfg \<longrightarrow> spec_cs 8 (cs_pins_str cfg) \<noteq> None) (zip cfgs bs)
      then r = OK \<and> list_all (\<lambda>cb. cs_ready cb h') (zip (map fst (zip cfgs bs)) bs')
      else r = - EINVAL"
    using assms by (auto simp: stm32_spi_initialize_def)
  have good: "list_all (\<lambda>(cfg, b). spi_enable cfg \<longrightarrow> spec_cs 8 (cs_pins_str cfg) \<noteq> None) (zip cfgs bs) \<longleftrightarrow>
    \<not> (\<exists>n < 6. spi_enable (cfgs ! n) \<and> spec_cs 8 (cs_pins_str (cfgs ! n)) = None)"
    using assms by (auto simp: list_all_length)
  have ready: "list_all (\<lambda>cb. cs_ready cb h') (zip (map fst (zip cfgs bs)) bs') \<longleftrightarrow>
    (\<forall>n < 6. cs_ready (cfgs ! n, bs' ! n) h')"
    using assms init(3) by (simp add: list_all_length)
  from res init show ?thesis
    unfolding good ready by (intro exI conjI) (auto split: if_splits)
qed

text \<open>
  C14. Initialization of the six buses returns, and the only effect on the pins is that some of
  them become idle chip selects. It fails with \<open>- EINVAL\<close> exactly if the list of an enabled bus
  holds, among its first eight names, one that is no pin; otherwise every enabled bus has the
  first eight pins of its list in order (more are left out without an error), and each of these
  pins is an output and high, which is inactive.
\<close>

theorem spi_initialize_correct:
  assumes "length cfgs = 6" "length bs = 6" "list_all (\<lambda>b. length (cs_pins b) = 8) bs"
  shows "\<exists>r bs' h'. stm32_spi_initialize cfgs bs g h = Some (r, bs', h') \<and> only_idle h h' \<and>
     length bs' = 6 \<and>
     (if \<exists>n < 6. spi_enable (cfgs ! n) \<and> spec_cs 8 (cs_pins_str (cfgs ! n)) = None
      then r = - EINVAL
      else r = OK \<and> (\<forall>n < 6. spi_enable (cfgs ! n) \<longrightarrow>
        spec_cs 8 (cs_pins_str (cfgs ! n)) = Some (take (cs_count (bs' ! n)) (cs_pins (bs' ! n))) \<and>
        (\<forall>c \<in> set (take (cs_count (bs' ! n)) (cs_pins (bs' ! n))). cs_idle h' (gpio_loc c))))"
proof -
  obtain r bs' h' where
    "stm32_spi_initialize cfgs bs g h = Some (r, bs', h')" "only_idle h h'" "length bs' = 6"
    "if \<exists>n < 6. spi_enable (cfgs ! n) \<and> spec_cs 8 (cs_pins_str (cfgs ! n)) = None
     then r = - EINVAL else r = OK \<and> (\<forall>n < 6. cs_ready (cfgs ! n, bs' ! n) h')"
    using spi_initialize_result [OF assms, of g h] by blast
  then show ?thesis
    by (intro exI conjI) (auto simp: cs_ready_def split: if_splits)
qed

definition demo_spi_cfgs :: "spi_bus_cfg list" where
  "demo_spi_cfgs =
     [\<lparr>spi_enable = True, cs_pins_str = Some ''PD14,PF12''\<rparr>, \<lparr>spi_enable = False, cs_pins_str = None\<rparr>,
      \<lparr>spi_enable = True, cs_pins_str = Some ''PA4''\<rparr>, \<lparr>spi_enable = False, cs_pins_str = None\<rparr>,
      \<lparr>spi_enable = False, cs_pins_str = None\<rparr>, \<lparr>spi_enable = False, cs_pins_str = None\<rparr>]"

definition demo_spi_buses :: "spi_bus list" where
  "demo_spi_buses = replicate 6 \<lparr>cs_pins = replicate 8 0, cs_count = 0\<rparr>"

lemma demo_spi_spec:
  "spec_cs 8 (Some ''PD14,PF12'') = Some [pin_word SPI_FLAGS 3 14, pin_word SPI_FLAGS 5 12]"
  "spec_cs 8 (Some ''PA4'') = Some [pin_word SPI_FLAGS 0 4]"
proof -
  have "pieces (set pin_delims) (take 255 (cstr ''PD14,PF12'')) = [pin_name 3 14, pin_name 5 12]"
    "pieces (set pin_delims) (take 255 (cstr ''PA4'')) = [pin_name 0 4]"
    by (simp_all add: pieces_def pin_delims_def pin_name_def port_char_def dec2_def)
  then show "spec_cs 8 (Some ''PD14,PF12'') = Some [pin_word SPI_FLAGS 3 14, pin_word SPI_FLAGS 5 12]"
    "spec_cs 8 (Some ''PA4'') = Some [pin_word SPI_FLAGS 0 4]"
    by (simp_all add: spec_cs_def spi.parse_name)
qed

lemma demo_spi_ok:
  "length demo_spi_cfgs = 6" "length demo_spi_buses = 6"
  "list_all (\<lambda>b. length (cs_pins b) = 8) demo_spi_buses"
  "\<not> (\<exists>n < 6. spi_enable (demo_spi_cfgs ! n) \<and> spec_cs 8 (cs_pins_str (demo_spi_cfgs ! n)) = None)"
  "spi_enable (demo_spi_cfgs ! 0)" "cs_pins_str (demo_spi_cfgs ! 0) = Some ''PD14,PF12''"
proof -
  have "spi_enable (demo_spi_cfgs ! n) \<longrightarrow> spec_cs 8 (cs_pins_str (demo_spi_cfgs ! n)) \<noteq> None"
    if "n < 6" for n
    using below_6 [OF that] by (elim enumE) (simp_all add: demo_spi_cfgs_def demo_spi_spec)
  then show "\<not> (\<exists>n < 6. spi_enable (demo_spi_cfgs ! n) \<and> spec_cs 8 (cs_pins_str (demo_spi_cfgs ! n)) = None)"
    by blast
qed (simp_all add: demo_spi_cfgs_def demo_spi_buses_def list_all_iff)

theorem spi_initialize_correct_witness:
  "\<exists>bs' h'. stm32_spi_initialize demo_spi_cfgs demo_spi_buses None bus0 = Some (OK, bs', h') \<and>
     cs_idle h' (5, 12)"
proof -
  have loc: "gpio_loc (pin_word SPI_FLAGS 5 12) = (5, 12)"
    by (simp add: gpio_loc_def pin_word_parts spi.flags_ok)
  obtain bs' h' where init: "stm32_spi_initialize demo_spi_cfgs demo_spi_buses None bus0 = Some (OK, bs', h')"
    and idle: "\<forall>n < 6. spi_enable (demo_spi_cfgs ! n) \<longrightarrow>
      spec_cs 8 (cs_pins_str (demo_spi_cfgs ! n)) = Some (take (cs_count (bs' ! n)) (cs_pins (bs' ! n))) \<and>
      (\<forall>c \<in> set (take (cs_count (bs' ! n)) (cs_pins (bs' ! n))). cs_idle h' (gpio_loc c))"
    using spi_initialize_correct [OF demo_spi_ok(1-3), of None bus0] demo_spi_ok(4) by auto
  have "take (cs_count (bs' ! 0)) (cs_pins (bs' ! 0)) = [pin_word SPI_FLAGS 3 14, pin_word SPI_FLAGS 5 12]"
    "\<forall>c \<in> set (take (cs_count (bs' ! 0)) (cs_pins (bs' ! 0))). cs_idle h' (gpio_loc c)"
    using idle [rule_format, of 0] demo_spi_ok(5,6) by (simp_all add: demo_spi_spec)
  then show ?thesis using init by (auto simp: loc)
qed

subsection \<open>Selecting\<close>

lemma spi_selects_eq:
  assumes "n < 6"
  shows "(spi_selects ! n) cfgs bs devid selected h =
           spi_cs_select cfgs bs (devid + of_nat (8 * n)) selected h"
  using below_6 [OF assms]
  by (elim enumE) (simp_all add: spi_selects_def stm32_spi1select_def stm32_spi2select_def
      stm32_spi3select_def stm32_spi4select_def stm32_spi5select_def stm32_spi6select_def)

lemma spi_cs_select_at:
  assumes "k < 8" "n < 100"
  shows "spi_cs_select cfgs bs (of_nat k + of_nat (8 * n)) selected h =
    (if n < 6 \<and> spi_enable (cfgs ! n) \<and> k < cs_count (bs ! n)
     then stm32_gpiowrite (cs_pins (bs ! n) ! k) (\<not> selected) h else h)"
proof -
  have "unat (of_nat (k + 8 * n) :: u32) = 8 * n + k"
    unfolding unat_of_nat using assms by simp
  then have "unat (of_nat k + of_nat (8 * n) :: u32) = 8 * n + k"
    by (simp only: of_nat_add)
  then have "unat ((of_nat k + of_nat (8 * n) :: u32) div 8) = n"
    "unat ((of_nat k + of_nat (8 * n) :: u32) mod 8) = k"
    using assms by (simp_all add: unat_div unat_mod)
  then show ?thesis by (simp add: spi_cs_select_def Let_def)
qed

lemma spi_select_at:
  assumes "n < 6" "k < 8"
  shows "(spi_selects ! n) cfgs bs (of_nat k) selected h =
    (if spi_enable (cfgs ! n) \<and> k < cs_count (bs ! n)
     then stm32_gpiowrite (cs_pins (bs ! n) ! k) (\<not> selected) h else h)"
  using assms by (simp only: spi_selects_eq spi_cs_select_at) auto

text \<open>The chip selects in the low state, by bus and index.\<close>

definition cs_registered :: "spi_bus_cfg list \<Rightarrow> spi_bus list \<Rightarrow> nat \<times> nat \<Rightarrow> bool" where
  "cs_registered cfgs bs nk \<longleftrightarrow>
     fst nk < 6 \<and> spi_enable (cfgs ! fst nk) \<and> snd nk < cs_count (bs ! fst nk)"

definition cs_loc :: "spi_bus list \<Rightarrow> nat \<times> nat \<Rightarrow> nat \<times> nat" where
  "cs_loc bs nk = gpio_loc (cs_pins (bs ! fst nk) ! snd nk)"

definition cs_active :: "spi_bus_cfg list \<Rightarrow> spi_bus list \<Rightarrow> bus \<Rightarrow> (nat \<times> nat) set" where
  "cs_active cfgs bs h = {nk. cs_registered cfgs bs nk \<and> level_abs h (cs_loc bs nk) = Some False}"

text \<open>A sequence of select calls, and what it means for the set of active chip selects.\<close>

fun select_all :: "spi_bus_cfg list \<Rightarrow> spi_bus list \<Rightarrow> ((nat \<times> nat) \<times> bool) list \<Rightarrow> bus \<Rightarrow> bus" where
  "select_all cfgs bs [] h = h"
| "select_all cfgs bs (((n, k), selected) # cs) h =
     select_all cfgs bs cs ((spi_selects ! n) cfgs bs (of_nat k) selected h)"

fun spec_select :: "((nat \<times> nat) \<times> bool) list \<Rightarrow> (nat \<times> nat) set \<Rightarrow> (nat \<times> nat) set" where
  "spec_select [] A = A"
| "spec_select ((nk, selected) # cs) A = spec_select cs (if selected then insert nk A else A - {nk})"

definition cs_good :: "spi_bus_cfg list \<Rightarrow> spi_bus list \<Rightarrow> bool" where
  "cs_good cfgs bs \<longleftrightarrow>
     (\<forall>nk. cs_registered cfgs bs nk \<longrightarrow> snd nk < 8 \<and> gpio_valid (cs_pins (bs ! fst nk) ! snd nk)) \<and>
     inj_on (cs_loc bs) (Collect (cs_registered cfgs bs))"

lemma select_active:
  assumes "cs_good cfgs bs" "cs_registered cfgs bs (n, k)"
  shows "cs_active cfgs bs ((spi_selects ! n) cfgs bs (of_nat k) selected h) =
    (if selected then insert (n, k) (cs_active cfgs bs h) else cs_active cfgs bs h - {(n, k)})"
proof -
  let ?c = "cs_pins (bs ! n) ! k"
  have nk: "n < 6" "spi_enable (cfgs ! n)" "k < cs_count (bs ! n)" "k < 8" "gpio_valid ?c"
    using assms by (auto simp: cs_registered_def cs_good_def)
  have "level_abs ((spi_selects ! n) cfgs bs (of_nat k) selected h) =
      (level_abs h)(cs_loc bs (n, k) \<mapsto> \<not> selected)"
    using nk by (simp add: spi_select_at gpio.wr_level cs_loc_def)
  moreover have "cs_loc bs x = cs_loc bs (n, k) \<longleftrightarrow> x = (n, k)" if "cs_registered cfgs bs x" for x
    using assms that by (auto simp: cs_good_def dest: inj_onD)
  ultimately show ?thesis
    using assms(2) by (auto simp: cs_active_def)
qed

lemma select_all_active:
  "cs_good cfgs bs \<Longrightarrow> list_all (\<lambda>(nk, s). cs_registered cfgs bs nk) calls \<Longrightarrow>
   cs_active cfgs bs (select_all cfgs bs calls h) = spec_select calls (cs_active cfgs bs h)"
  by (induction calls arbitrary: h) (auto simp: select_active)

lemma spi_init_good:
  assumes "stm32_spi_initialize cfgs bs g h = Some (OK, bs', h')"
    and "length cfgs = 6" "length bs = 6" "list_all (\<lambda>b. length (cs_pins b) = 8) bs"
    and "inj_on (cs_loc bs') (Collect (cs_registered cfgs bs'))"
  shows "cs_good cfgs bs'" "cs_active cfgs bs' h' = {}"
proof -
  obtain r bs1 h1 where init: "stm32_spi_initialize cfgs bs g h = Some (r, bs1, h1)"
    "length bs1 = 6" "list_all (\<lambda>b. length (cs_pins b) = 8) bs1"
    "if \<exists>n < 6. spi_enable (cfgs ! n) \<and> spec_cs 8 (cs_pins_str (cfgs ! n)) = None
      then r = - EINVAL else r = OK \<and> (\<forall>n < 6. cs_ready (cfgs ! n, bs1 ! n) h1)"
    using spi_initialize_result [OF assms(2-4), of g h] by blast
  have eq: "r = 0" "bs1 = bs'" "h1 = h'" using init(1) assms(1) by simp_all
  have pin: "snd nk < 8 \<and> cs_word (cs_pins (bs' ! fst nk) ! snd nk) \<and> cs_idle h' (cs_loc bs' nk)"
    if reg: "cs_registered cfgs bs' nk" for nk
  proof -
    let ?b = "bs' ! fst nk"
    have nk: "fst nk < 6" "spi_enable (cfgs ! fst nk)" "snd nk < cs_count ?b"
      using reg by (auto simp: cs_registered_def)
    have ready: "cs_ready (cfgs ! fst nk, ?b) h'" using init(4) nk errno_neg by (auto simp: eq split: if_splits)
    have len: "length (cs_pins ?b) = 8" using init(2,3) nk by (simp add: eq list_all_length)
    have lt: "snd nk < length (take (cs_count ?b) (cs_pins ?b))" "snd nk < 8"
      using ready nk len by (auto simp: cs_ready_def)
    then have "cs_pins ?b ! snd nk \<in> set (take (cs_count ?b) (cs_pins ?b))"
      by (metis nth_mem nth_take length_take min_less_iff_conj)
    with ready nk lt len show ?thesis by (auto simp: cs_ready_def cs_loc_def)
  qed
  show "cs_good cfgs bs'" using pin assms(5) by (auto simp: cs_good_def cs_word_def)
  show "cs_active cfgs bs' h' = {}" using pin by (auto simp: cs_active_def cs_idle_def)
qed

text \<open>
  Selecting device \<open>k\<close> of a bus drives the chip select \<open>k\<close> of that bus low, deselecting it
  drives it high; no other pin changes its level and no pin its configuration. An index with no
  chip select, or a disabled bus, changes nothing.
\<close>

theorem spi_select_drives:
  assumes "n < 6" "k < 8" "gpio_valid (cs_pins (bs ! n) ! k)"
  shows "gpio_abs ((spi_selects ! n) cfgs bs (of_nat k) selected h) = gpio_abs h \<and>
         level_abs ((spi_selects ! n) cfgs bs (of_nat k) selected h) =
           (if spi_enable (cfgs ! n) \<and> k < cs_count (bs ! n)
            then (level_abs h)(gpio_loc (cs_pins (bs ! n) ! k) \<mapsto> \<not> selected)
            else level_abs h)"
  using assms by (simp add: spi_select_at gpio.wr_level gpio.wr_pins)

definition demo_spi_ready :: "spi_bus list" where
  "demo_spi_ready =
     replicate 6 \<lparr>cs_pins = replicate 8 (pin_word SPI_FLAGS 3 14), cs_count = 1\<rparr>"

theorem spi_select_drives_witness:
  "level_abs ((spi_selects ! 2) demo_spi_cfgs demo_spi_ready 0 True bus0) (3, 14) = Some False"
proof -
  have "pin_word SPI_FLAGS 3 14 = cs_pins (demo_spi_ready ! 2) ! 0" "cs_count (demo_spi_ready ! 2) = 1"
    "spi_enable (demo_spi_cfgs ! 2)"
    by (simp_all add: demo_spi_ready_def demo_spi_cfgs_def)
  moreover have "gpio_loc (pin_word SPI_FLAGS 3 14) = (3, 14)" "gpio_valid (pin_word SPI_FLAGS 3 14)"
    by (simp_all add: gpio_loc_def gpio_valid_def pin_word_parts spi.flags_ok STM32H7_NGPIO_def)
  ultimately show ?thesis
    using spi_select_drives [of 2 0 demo_spi_ready demo_spi_cfgs True bus0] by simp
qed

text \<open>
  C17. After a successful initialization with no pin used twice, the chip selects behave as a set:
  none is active at first, and after any sequence of calls on registered chip selects exactly
  those are active whose last call selected them.
\<close>

theorem spi_selects_refine:
  assumes "stm32_spi_initialize cfgs bs g h = Some (OK, bs', h')"
    and "length cfgs = 6" "length bs = 6" "list_all (\<lambda>b. length (cs_pins b) = 8) bs"
    and "inj_on (cs_loc bs') (Collect (cs_registered cfgs bs'))"
    and "list_all (\<lambda>(nk, s). cs_registered cfgs bs' nk) calls"
  shows "cs_active cfgs bs' (select_all cfgs bs' calls h') = spec_select calls {}"
  using spi_init_good [OF assms(1-5)] assms(6) by (simp add: select_all_active)

text \<open>The tables of the buses that are enabled hold what their lists say.\<close>

definition cs_table :: "spi_bus_cfg list \<Rightarrow> spi_bus list \<Rightarrow> bool" where
  "cs_table cfgs bs \<longleftrightarrow> (\<forall>n < 6. spi_enable (cfgs ! n) \<longrightarrow>
     cs_count (bs ! n) \<le> 8 \<and> length (cs_pins (bs ! n)) = 8 \<and>
     spec_cs 8 (cs_pins_str (cfgs ! n)) = Some (take (cs_count (bs ! n)) (cs_pins (bs ! n))))"

lemma cs_ready_table:
  assumes "\<forall>n < 6. cs_ready (cfgs ! n, bs ! n) h" "list_all (\<lambda>b. length (cs_pins b) = 8) bs" "length bs = 6"
  shows "cs_table cfgs bs"
  using assms by (simp add: cs_table_def cs_ready_def list_all_length)

lemma demo_registered:
  assumes "cs_table demo_spi_cfgs bs"
  shows "Collect (cs_registered demo_spi_cfgs bs) = {(0, 0), (0, 1), (2, 0)}" "inj_on (cs_loc bs) {(0, 0), (0, 1), (2, 0)}"
proof -
  have len: "length (cs_pins (bs ! 0)) = 8" "length (cs_pins (bs ! 2)) = 8"
    and b0: "take (cs_count (bs ! 0)) (cs_pins (bs ! 0)) = [pin_word SPI_FLAGS 3 14, pin_word SPI_FLAGS 5 12]"
    "cs_count (bs ! 0) \<le> 8"
    and b2: "take (cs_count (bs ! 2)) (cs_pins (bs ! 2)) = [pin_word SPI_FLAGS 0 4]" "cs_count (bs ! 2) \<le> 8"
    using assms [unfolded cs_table_def, rule_format, of 0] assms [unfolded cs_table_def, rule_format, of 2]
    by (simp_all add: demo_spi_cfgs_def demo_spi_spec)
  have c: "cs_count (bs ! 0) = 2" "cs_count (bs ! 2) = 1"
    using b0(2) b2(2) arg_cong [OF b0(1), of length] arg_cong [OF b2(1), of length] len by (simp_all add: min_def)
  have pins: "cs_pins (bs ! 0) ! 0 = pin_word SPI_FLAGS 3 14" "cs_pins (bs ! 0) ! 1 = pin_word SPI_FLAGS 5 12"
    "cs_pins (bs ! 2) ! 0 = pin_word SPI_FLAGS 0 4"
    using arg_cong [OF b0(1), of "\<lambda>xs. xs ! 0"] arg_cong [OF b0(1), of "\<lambda>xs. xs ! 1"]
      arg_cong [OF b2(1), of "\<lambda>xs. xs ! 0"] by (simp_all add: c)
  have reg: "cs_registered demo_spi_cfgs bs (n, k) \<longleftrightarrow> (n, k) \<in> {(0, 0), (0, 1), (2, 0)}" for n k
  proof (cases "n < 6")
    case True
    from below_6 [OF this] show ?thesis
      by (elim enumE) (auto simp: cs_registered_def c demo_spi_cfgs_def)
  qed (auto simp: cs_registered_def)
  show "Collect (cs_registered demo_spi_cfgs bs) = {(0, 0), (0, 1), (2, 0)}"
  proof (rule set_eqI)
    show "nk \<in> Collect (cs_registered demo_spi_cfgs bs) \<longleftrightarrow> nk \<in> {(0, 0), (0, 1), (2, 0)}" for nk
      using reg [of "fst nk" "snd nk"] by simp
  qed
  show "inj_on (cs_loc bs) {(0, 0), (0, 1), (2, 0)}"
    using pins by (simp add: cs_loc_def gpio_loc_def pin_word_parts spi.flags_ok)
qed

lemma demo_spi_init:
  "\<exists>bs' h'. stm32_spi_initialize demo_spi_cfgs demo_spi_buses None bus0 = Some (OK, bs', h') \<and>
     Collect (cs_registered demo_spi_cfgs bs') = {(0, 0), (0, 1), (2, 0)} \<and>
     inj_on (cs_loc bs') {(0, 0), (0, 1), (2, 0)}"
proof -
  obtain r bs' h' where init: "stm32_spi_initialize demo_spi_cfgs demo_spi_buses None bus0 = Some (r, bs', h')"
    "list_all (\<lambda>b. length (cs_pins b) = 8) bs'" "length bs' = 6"
    "r = OK \<and> (\<forall>n < 6. cs_ready (demo_spi_cfgs ! n, bs' ! n) h')"
    using spi_initialize_result [OF demo_spi_ok(1-3), of None bus0]
    unfolding if_not_P [OF demo_spi_ok(4)] by blast
  have t: "cs_table demo_spi_cfgs bs'" using init(4) by (intro cs_ready_table [OF _ init(2,3)]) (elim conjE)
  have r: "r = OK" using init(4) by (elim conjE)
  show ?thesis using init(1) demo_registered [OF t] unfolding r by (intro exI [of _ bs'] exI [of _ h'] conjI)
qed

theorem spi_selects_refine_witness:
  "\<exists>bs' h'. stm32_spi_initialize demo_spi_cfgs demo_spi_buses None bus0 = Some (OK, bs', h') \<and>
     cs_active demo_spi_cfgs bs'
       (select_all demo_spi_cfgs bs' [((0, 1), True), ((2, 0), True), ((0, 1), False)] h') = {(2, 0)}"
proof -
  obtain bs' h' where init: "stm32_spi_initialize demo_spi_cfgs demo_spi_buses None bus0 = Some (OK, bs', h')"
    "Collect (cs_registered demo_spi_cfgs bs') = {(0, 0), (0, 1), (2, 0)}"
    "inj_on (cs_loc bs') {(0, 0), (0, 1), (2, 0)}"
    using demo_spi_init by (elim exE conjE) (rule that)
  then have reg: "cs_registered demo_spi_cfgs bs' (0, 1)" "cs_registered demo_spi_cfgs bs' (2, 0)" by blast+
  have "cs_active demo_spi_cfgs bs'
      (select_all demo_spi_cfgs bs' [((0, 1), True), ((2, 0), True), ((0, 1), False)] h') =
    spec_select [((0, 1), True), ((2, 0), True), ((0, 1), False)] {}"
  proof (rule spi_selects_refine [OF init(1) demo_spi_ok(1-3)])
    show "inj_on (cs_loc bs') (Collect (cs_registered demo_spi_cfgs bs'))"
      unfolding init(2) by (rule init(3))
  qed (simp add: reg [simplified])
  also have "\<dots> = {(2, 0)}" by auto
  finally show ?thesis using init(1) by blast
qed

text \<open>
  The device index is not checked against the eight chip selects of a bus: an index past
  them reaches into the following buses, so that device \<open>8 * m + k\<close> of bus \<open>n\<close> drives chip select
  \<open>k\<close> of bus \<open>n + m\<close>.
\<close>

theorem spi_select_alias:
  assumes "n + m < 6" "k < 8"
  shows "(spi_selects ! n) cfgs bs (of_nat (8 * m + k)) selected h =
         (spi_selects ! (n + m)) cfgs bs (of_nat k) selected h"
proof -
  have "(of_nat (8 * m + k) :: u32) + of_nat (8 * n) = of_nat k + of_nat (8 * (n + m))"
    by (simp add: algebra_simps)
  then show ?thesis using assms by (simp only: spi_selects_eq)
qed

theorem spi_select_alias_witness:
  "(spi_selects ! 0) demo_spi_cfgs demo_spi_ready 16 True bus0 =
     (spi_selects ! 2) demo_spi_cfgs demo_spi_ready 0 True bus0"
  using spi_select_alias [of 0 2 0 demo_spi_cfgs demo_spi_ready True bus0]
  by (simp add: numeral_2_eq_2)

lemma SPIDEV_ID_type:
  assumes "type < 0xffff"
  shows "unat (SPIDEV_ID type idx) div 65536 = unat type"
proof -
  have "drop_bit 16 (SPIDEV_ID type idx) = take_bit 16 type"
  proof (rule bit_eqI)
    fix n
    have "bit (0xffff :: u32) i \<longleftrightarrow> i < 16" for i
    proof -
      have "(0xffff :: u32) = mask 16" by (simp add: mask_eq_exp_minus_1)
      then show ?thesis by (simp only: bit_mask_iff) auto
    qed
    then show "bit (drop_bit 16 (SPIDEV_ID type idx)) n \<longleftrightarrow> bit (take_bit 16 type) n"
      by (auto simp: SPIDEV_ID_def bit_simps)
  qed
  moreover have "take_bit 16 type = type"
    using assms by (simp add: take_bit_eq_mod unat_mod word_unat_eq_iff word_less_nat_alt)
  ultimately have "SPIDEV_ID type idx div 65536 = type" by (simp add: drop_bit_eq_div)
  then have "unat (SPIDEV_ID type idx div 65536) = unat type" by simp
  then show ?thesis by (simp add: unat_div)
qed

text \<open>
  C40. A device id of the framework carries the type of the device above its index
  (\<^verbatim>\<open>SPIDEV_ID\<close>). The type is not masked out, so selecting a device of any type but 0
  does nothing, on every bus: the chip select of such a device is never driven.
\<close>

theorem spi_select_typed:
  assumes "n < 6" "0 < type" "type < 0xffff"
  shows "(spi_selects ! n) cfgs bs (SPIDEV_ID type idx) selected h = h"
proof -
  let ?d = "SPIDEV_ID type idx"
  have t: "unat ?d div 65536 = unat type" "0 < unat type" "unat type < 65535"
    using assms by (simp_all add: SPIDEV_ID_type word_less_nat_alt)
  have bounds: "65536 \<le> unat ?d" "unat ?d < 4294901760"
    using t by linarith+
  have "unat (?d + of_nat (8 * n)) = unat ?d + 8 * n"
    unfolding unat_word_ariths unat_of_nat using assms(1) bounds by simp
  then have "\<not> unat ((?d + of_nat (8 * n)) div 8) < 6"
    using bounds by (simp add: unat_div)
  then show ?thesis
    unfolding spi_selects_eq [OF assms(1)] by (simp only: spi_cs_select_def Let_def simp_thms if_False)
qed

theorem spi_select_typed_witness:
  "(spi_selects ! 2) demo_spi_cfgs demo_spi_ready (SPIDEV_ID 1 0) True bus0 = bus0"
  using spi_select_typed [of 2 1 demo_spi_cfgs demo_spi_ready 0 True bus0] by simp

end
