(* ===== verification/Nx_Poll.thy ===== *)
theory Nx_Poll
  imports Nx_Prelude
begin

text \<open>
  Devices and waiting for them: the \<^verbatim>\<open>pollfd\<close> structures of the waiting tasks and \<^verbatim>\<open>poll_notify\<close> of
  \<^verbatim>\<open>fs/vfs/fs_poll.c\<close>, which the GPIO and button drivers share.

  The structures are a store from addresses to records; the calls of their callbacks are kept
  as a log of addresses, newest first. A driver holds the waiting tasks in an array of slots,
  each NULL or the address of a structure, and \<open>priv\<close> points back at the slot.

  The registration of a driver under a path, \<^verbatim>\<open>fs/driver/fs_registerdriver.c\<close>, is over the list of
  the nodes, path and private pointer of the driver; \<open>reserve\<close> is the return value of
  \<^verbatim>\<open>inode_reserve\<close> for a path.
\<close>

definition register_driver ::
  "(string \<Rightarrow> (string \<times> nat) list \<Rightarrow> int) \<Rightarrow> string \<Rightarrow> nat \<Rightarrow> (string \<times> nat) list \<Rightarrow>
   int \<times> (string \<times> nat) list" where
  "register_driver reserve path a ns =
     (let ret = reserve path ns in if ret \<ge> 0 then (OK, ns @ [(path, a)]) else (ret, ns))"

definition POLLIN :: u32 where "POLLIN = 0x01"
definition POLLOUT :: u32 where "POLLOUT = 0x04"
definition POLLERR :: u32 where "POLLERR = 0x08"
definition POLLHUP :: u32 where "POLLHUP = 0x10"
definition POLLALWAYS :: u32 where "POLLALWAYS = 0x10000"

lemmas poll_consts = POLLIN_def POLLOUT_def POLLERR_def POLLHUP_def POLLALWAYS_def

record pollfd =
  events :: u32
  revents :: u32
  cb :: bool
  priv :: "(nat \<times> nat) option"

record poll_world =
  pollfds :: "nat \<Rightarrow> pollfd"
  cblog :: "nat list"

definition report :: "u32 \<Rightarrow> pollfd \<Rightarrow> pollfd" where
  "report eventset f =
     (let f = f\<lparr>revents := revents f OR (eventset AND (events f OR POLLERR OR POLLHUP))\<rparr> in
      if revents f AND (POLLERR OR POLLHUP) \<noteq> 0
      then f\<lparr>revents := revents f AND NOT POLLOUT\<rparr> else f)"

definition notify_one :: "nat \<Rightarrow> u32 \<Rightarrow> poll_world \<Rightarrow> poll_world" where
  "notify_one a eventset w =
     (let f = report eventset (pollfds w a);
          w = w\<lparr>pollfds := (pollfds w)(a := f)\<rparr>
      in if (revents f \<noteq> 0 \<or> events f AND POLLALWAYS \<noteq> 0) \<and> cb f
         then w\<lparr>cblog := a # cblog w\<rparr> else w)"

fun poll_notify :: "nat option list \<Rightarrow> u32 \<Rightarrow> poll_world \<Rightarrow> poll_world" where
  "poll_notify [] eventset w = w"
| "poll_notify (fds # afds) eventset w =
     (if eventset = 0 then w
      else poll_notify afds eventset
             (case fds of None \<Rightarrow> w | Some a \<Rightarrow> notify_one a eventset w))"

text \<open>The first free slot, and the pointer back to it.\<close>

fun free_slot :: "nat option list \<Rightarrow> nat option" where
  "free_slot [] = None"
| "free_slot (f # fs) = (if f = None then Some 0 else map_option Suc (free_slot fs))"

definition set_priv :: "nat \<Rightarrow> (nat \<times> nat) option \<Rightarrow> poll_world \<Rightarrow> poll_world" where
  "set_priv p v w = w\<lparr>pollfds := (pollfds w)(p := (pollfds w p)\<lparr>priv := v\<rparr>)\<rparr>"

subsection \<open>What a notification does\<close>

lemma report_fields [simp]:
  "events (report e f) = events f" "cb (report e f) = cb f" "priv (report e f) = priv f"
  by (simp_all add: report_def Let_def)

lemma report_POLLIN [simp]:
  "bit (revents (report POLLIN f)) 0 \<longleftrightarrow> bit (revents f) 0 \<or> bit (events f) 0"
  by (auto simp: report_def Let_def poll_consts bit_simps)

lemma POLLIN_nonzero [simp]: "POLLIN \<noteq> 0"
  by (simp add: POLLIN_def)

lemma notify_one_fds [simp]:
  "pollfds (notify_one a e w) = (pollfds w)(a := report e (pollfds w a))"
  by (simp add: notify_one_def Let_def)

lemma notify_one_static:
  "events (pollfds (notify_one a e w) b) = events (pollfds w b)"
  "cb (pollfds (notify_one a e w) b) = cb (pollfds w b)"
  "priv (pollfds (notify_one a e w) b) = priv (pollfds w b)"
  by simp_all

lemma notify_one_POLLIN:
  "bit (revents (pollfds (notify_one a POLLIN w) b)) 0 \<longleftrightarrow>
     bit (revents (pollfds w b)) 0 \<or> b = a \<and> bit (events (pollfds w a)) 0"
  "c \<in> set (cblog w) \<Longrightarrow> c \<in> set (cblog (notify_one a e w))"
  by (auto, auto simp: notify_one_def Let_def)

lemma notify_one_calls:
  assumes "bit (events (pollfds w a)) 0" "cb (pollfds w a)"
  shows "a \<in> set (cblog (notify_one a POLLIN w))"
proof -
  have "bit (revents (report POLLIN (pollfds w a))) 0" using assms by simp
  then have "revents (report POLLIN (pollfds w a)) \<noteq> 0" by (metis bit_0_eq bot_apply bot_bool_def)
  then show ?thesis using assms by (simp add: notify_one_def Let_def)
qed

lemma poll_notify_static [simp]:
  "events (pollfds (poll_notify afds e w) b) = events (pollfds w b)"
  "cb (pollfds (poll_notify afds e w) b) = cb (pollfds w b)"
  "priv (pollfds (poll_notify afds e w) b) = priv (pollfds w b)"
  by (induction afds arbitrary: w) (simp_all add: notify_one_static split: option.split del: notify_one_fds)

lemma poll_notify_keeps:
  "c \<in> set (cblog w) \<Longrightarrow> c \<in> set (cblog (poll_notify afds e w))"
  by (induction afds arbitrary: w) (auto simp: notify_one_POLLIN split: option.split)

text \<open>
  A notification of input reaches exactly the tasks in the slots that wait for input: their
  \<open>revents\<close> has the bit, and their callback is called.
\<close>

lemma poll_notify_POLLIN:
  "bit (revents (pollfds (poll_notify afds POLLIN w) b)) 0 \<longleftrightarrow>
     bit (revents (pollfds w b)) 0 \<or> Some b \<in> set afds \<and> bit (events (pollfds w b)) 0"
  by (induction afds arbitrary: w) (auto simp: notify_one_POLLIN notify_one_static split: option.split simp del: notify_one_fds)

lemma poll_notify_calls:
  assumes "Some a \<in> set afds" "bit (events (pollfds w a)) 0" "cb (pollfds w a)"
  shows "a \<in> set (cblog (poll_notify afds POLLIN w))"
  using assms
proof (induction afds arbitrary: w)
  case (Cons f afds)
  show ?case
  proof (cases "f = Some a")
    case True
    then show ?thesis
      using Cons.prems by (simp add: poll_notify_keeps notify_one_calls)
  next
    case False
    then show ?thesis
      using Cons.prems Cons.IH by (auto simp: notify_one_static simp del: notify_one_fds split: option.split)
  qed
qed simp

subsection \<open>The open files of a device\<close>

text \<open>
  The singly linked list of the structures a device has open, with their addresses: the list
  without the first entry that has the address, if there is one.
\<close>

fun unlink :: "nat \<Rightarrow> (nat \<times> 'o) list \<Rightarrow> (nat \<times> 'o) list option" where
  "unlink a [] = None"
| "unlink a ((b, p) # os) = (if b = a then Some os else map_option ((#) (b, p)) (unlink a os))"

lemma unlink_eq:
  "distinct (map fst os) \<Longrightarrow>
   unlink a os = (if a \<in> fst ` set os then Some (filter (\<lambda>x. fst x \<noteq> a) os) else None)"
proof (induction os)
  case (Cons x os)
  obtain b p where x: "x = (b, p)" by (rule prod.exhaust)
  have "filter (\<lambda>x. fst x \<noteq> a) os = os" if "a \<notin> fst ` set os"
    using that by (auto simp: filter_id_conv)
  with Cons show ?case by (auto simp: x)
qed simp

end
