(* ===== verification/Userled_Upper.thy ===== *)
theory Userled_Upper
  imports Nx_Poll Stm32_Gpio
begin

text \<open>
  The upper half of the user LED driver, \<^verbatim>\<open>drivers/leds/userled_upper.c\<close>: the file operations of
  \<^verbatim>\<open>/dev/userleds\<close> over the operations of a lower half.

  The lower half and the hardware behind it are the state \<open>'h\<close>. The structures of the open files
  are a list with their addresses, newest first. \<open>lock\<close> is what \<^verbatim>\<open>nxmutex_lock\<close> returned, negative
  when the wait was broken off, and \<open>alloc\<close> what \<^verbatim>\<open>kmm_zalloc\<close> did. No result is a call through a
  NULL pointer or an access to a freed structure.
\<close>

subsection \<open>Data\<close>

record userled_s =
  ul_led :: "8 word"
  ul_on :: bool

record userled_effect_sup_s =
  sup_led :: "8 word"
  sup_bits :: "8 word"

record userled_effect_set_s =
  eff_led :: "8 word"
  eff_int_on :: "8 word"
  eff_int_off :: "8 word"
  eff_t_on :: u32
  eff_t_off :: u32
  eff_t_fade :: "8 word"
  eff_t_fall :: "8 word"

record 'h userled_lowerhalf_s =
  ll_supported :: "'h \<Rightarrow> u32"
  ll_setled :: "int \<Rightarrow> bool \<Rightarrow> 'h \<Rightarrow> 'h"
  ll_setall :: "u32 \<Rightarrow> 'h \<Rightarrow> 'h"
  ll_getall :: "('h \<Rightarrow> u32 \<times> 'h) option"
  ll_effect_sup :: "(userled_effect_sup_s \<Rightarrow> 'h \<Rightarrow> userled_effect_sup_s \<times> 'h) option"
  ll_effect_set :: "(userled_effect_set_s \<Rightarrow> 'h \<Rightarrow> int \<times> 'h) option"

record userled_open_s =
  bo_closing :: bool

record userled_upperhalf_s =
  lu_supported :: u32
  lu_ledset :: u32
  lu_open :: "(nat \<times> userled_open_s) list"

record 'h led_state =
  ledhw :: 'h
  ldev :: userled_upperhalf_s
  led_nodes :: "(string \<times> nat) list"

record lfile =
  lf_priv :: nat

datatype userled_cmd =
  ULEDIOC_SUPPORTED bool | ULEDIOC_SETLED "userled_s option" | ULEDIOC_SETALL u32 | ULEDIOC_GETALL bool
| ULEDIOC_SUPEFFECT "userled_effect_sup_s option" | ULEDIOC_SETEFFECT "userled_effect_set_s option"
| ULEDIOC_other

datatype userled_out = No_out | Out_set u32 | Out_sup userled_effect_sup_s

definition upd_ldev :: "(userled_upperhalf_s \<Rightarrow> userled_upperhalf_s) \<Rightarrow> 'h led_state \<Rightarrow> 'h led_state" where
  "upd_ldev f s = s\<lparr>ldev := f (ldev s)\<rparr>"

definition upd_ledhw :: "('h \<Rightarrow> 'h) \<Rightarrow> 'h led_state \<Rightarrow> 'h led_state" where
  "upd_ledhw f s = s\<lparr>ledhw := f (ledhw s)\<rparr>"

subsection \<open>Operations\<close>

definition userled_open :: "int \<Rightarrow> nat option \<Rightarrow> lfile \<Rightarrow> 'h led_state \<Rightarrow> int \<times> lfile \<times> 'h led_state" where
  "userled_open lock alloc filep s =
     (if lock < 0 then (lock, filep, s)
      else case alloc of
        None \<Rightarrow> (- ENOMEM, filep, s)
      | Some a \<Rightarrow>
          (OK, filep\<lparr>lf_priv := a\<rparr>,
           upd_ldev (\<lambda>d. d\<lparr>lu_open := (a, \<lparr>bo_closing = False\<rparr>) # lu_open d\<rparr>) s))"

definition set_closing :: "nat \<Rightarrow> (nat \<times> userled_open_s) list \<Rightarrow> (nat \<times> userled_open_s) list" where
  "set_closing a os = map (\<lambda>(b, p). (b, if b = a then p\<lparr>bo_closing := True\<rparr> else p)) os"

definition userled_close :: "int \<Rightarrow> lfile \<Rightarrow> 'h led_state \<Rightarrow> (int \<times> 'h led_state) option" where
  "userled_close lock filep s =
     (case map_of (lu_open (ldev s)) (lf_priv filep) of
        None \<Rightarrow> None
      | Some opriv \<Rightarrow>
          let closing = bo_closing opriv;
              s = upd_ldev (\<lambda>d. d\<lparr>lu_open := set_closing (lf_priv filep) (lu_open d)\<rparr>) s
          in if closing then Some (OK, s)
             else if lock < 0 then Some (lock, s)
             else case unlink (lf_priv filep) (lu_open (ldev s)) of
                    None \<Rightarrow> Some (- ENOENT, s)
                  | Some os \<Rightarrow> Some (OK, upd_ldev (\<lambda>d. d\<lparr>lu_open := os\<rparr>) s))"

text \<open>Writing: \<open>len\<close> bytes, the first four of which are the set.\<close>

definition userled_write ::
  "'h userled_lowerhalf_s \<Rightarrow> int \<Rightarrow> u32 \<Rightarrow> nat \<Rightarrow> 'h led_state \<Rightarrow> int \<times> 'h led_state" where
  "userled_write lower lock ledset len s =
     (if len < 4 then (- EINVAL, s)
      else if lock < 0 then (lock, s)
      else (4, upd_ledhw (ll_setall lower ledset) s))"

definition userled_ioctl ::
  "'h userled_lowerhalf_s \<Rightarrow> bool \<Rightarrow> bool \<Rightarrow> int \<Rightarrow> userled_cmd \<Rightarrow> 'h led_state \<Rightarrow>
   (int \<times> userled_out \<times> 'h led_state) option" where
  "userled_ioctl lower readstate effects lock cmd s =
     (if lock < 0 then Some (lock, No_out, s)
      else case cmd of
        ULEDIOC_SUPPORTED p \<Rightarrow>
          Some (if p then (OK, Out_set (lu_supported (ldev s)), s) else (- EINVAL, No_out, s))
      | ULEDIOC_SETLED userled \<Rightarrow>
          (case userled of
             None \<Rightarrow> Some (- EINVAL, No_out, s)
           | Some u \<Rightarrow>
               let led = unat (ul_led u) in
               if led < 32 \<and> lu_supported (ldev s) AND push_bit led 1 \<noteq> 0 then
                 let s = upd_ldev (\<lambda>d. d\<lparr>lu_ledset := (if ul_on u then lu_ledset d OR push_bit led 1
                                                      else lu_ledset d AND NOT (push_bit led 1))\<rparr>) s
                 in Some (OK, No_out, upd_ledhw (ll_setled lower (int led) (ul_on u)) s)
               else Some (- EINVAL, No_out, s))
      | ULEDIOC_SETALL ledset \<Rightarrow>
          if ledset AND NOT (lu_supported (ldev s)) = 0 then
            Some (OK, No_out, upd_ledhw (ll_setall lower ledset) (upd_ldev (\<lambda>d. d\<lparr>lu_ledset := ledset\<rparr>) s))
          else Some (- EINVAL, No_out, s)
      | ULEDIOC_GETALL p \<Rightarrow>
          if \<not> p then Some (- EINVAL, No_out, s)
          else if readstate then
            (case ll_getall lower of
               None \<Rightarrow> None
             | Some f \<Rightarrow> let (ledset, h) = f (ledhw s) in Some (OK, Out_set ledset, s\<lparr>ledhw := h\<rparr>))
          else Some (OK, Out_set (lu_ledset (ldev s)), s)
      | ULEDIOC_SUPEFFECT effect \<Rightarrow>
          if \<not> effects then Some (- ENOTTY, No_out, s)
          else (case effect of
             None \<Rightarrow> Some (- EINVAL, No_out, s)
           | Some e \<Rightarrow>
               (case ll_effect_sup lower of
                  None \<Rightarrow> None
                | Some f \<Rightarrow> let (e, h) = f e (ledhw s) in Some (OK, Out_sup e, s\<lparr>ledhw := h\<rparr>)))
      | ULEDIOC_SETEFFECT effect \<Rightarrow>
          if \<not> effects then Some (- ENOTTY, No_out, s)
          else (case effect of
             None \<Rightarrow> Some (- EINVAL, No_out, s)
           | Some e \<Rightarrow>
               (case ll_effect_set lower of
                  None \<Rightarrow> None
                | Some f \<Rightarrow> let (ret, h) = f e (ledhw s) in Some (ret, No_out, s\<lparr>ledhw := h\<rparr>)))
      | ULEDIOC_other \<Rightarrow> Some (- ENOTTY, No_out, s))"

definition userled_register ::
  "(string \<Rightarrow> (string \<times> nat) list \<Rightarrow> int) \<Rightarrow> nat option \<Rightarrow> string \<Rightarrow> 'h userled_lowerhalf_s \<Rightarrow>
   'h led_state \<Rightarrow> int \<times> 'h led_state" where
  "userled_register reserve alloc devname lower s =
     (case alloc of
        None \<Rightarrow> (- ENOMEM, s)
      | Some a \<Rightarrow>
          let s = s\<lparr>ldev := \<lparr>lu_supported = ll_supported lower (ledhw s), lu_ledset = 0, lu_open = []\<rparr>\<rparr>;
              s = upd_ledhw (ll_setall lower 0) s;
              (ret, ns) = register_driver reserve devname a (led_nodes s);
              s = s\<lparr>led_nodes := ns\<rparr>
          in if ret < 0 then (ret, s) else (OK, s))"

text \<open>
  An operation of a task on the device, and whether it is a write. Files are opened at addresses that are free;
  \<open>userled_ioctl\<close> is the one of a lower half that cannot read its LEDs.
\<close>

inductive led_op :: "bool \<Rightarrow> 'h userled_lowerhalf_s \<Rightarrow> 'h led_state \<Rightarrow> 'h led_state \<Rightarrow> bool" for w lower s where
  opened: "(\<And>a. alloc = Some a \<Longrightarrow> a \<notin> fst ` set (lu_open (ldev s))) \<Longrightarrow>
    userled_open lock alloc filep s = (r, filep', s') \<Longrightarrow> led_op w lower s s'"
| closed: "userled_close lock filep s = Some (r, s') \<Longrightarrow> led_op w lower s s'"
| ioctl: "userled_ioctl lower False effects lock cmd s = Some (r, out, s') \<Longrightarrow> led_op w lower s s'"
| written: "w \<Longrightarrow> userled_write lower lock ledset len s = (r, s') \<Longrightarrow> led_op w lower s s'"

subsection \<open>The contract of the lower half\<close>

definition set_bits :: "u32 \<Rightarrow> nat set" where
  "set_bits w = {i. bit w i}"

lemma bit_single: "n < 32 \<Longrightarrow> bit (push_bit n (1 :: u32)) i \<longleftrightarrow> i = n"
  by (auto simp add: bit_push_bit_iff bit_1_iff simp del: push_bit_of_1)

lemma set_bits_simps [simp]:
  "set_bits 0 = {}" "set_bits (v OR w) = set_bits v \<union> set_bits w"
  "n < 32 \<Longrightarrow> set_bits (push_bit n 1) = {n}" "n < 32 \<Longrightarrow> set_bits (w AND NOT (push_bit n 1)) = set_bits w - {n}"
  by (auto simp add: set_bits_def bit_or_iff bit_and_iff bit_not_iff bit_single dest: bit_imp_le_length simp del: push_bit_of_1)

lemma set_bits_less: "i \<in> set_bits w \<Longrightarrow> i < 32"
  by (auto simp: set_bits_def dest: bit_imp_le_length)

lemma set_bits_sub: "ledset AND NOT w = 0 \<longleftrightarrow> set_bits ledset \<subseteq> set_bits w"
  using bit_imp_le_length [of ledset] by (auto simp: set_bits_def bit_eq_iff bit_and_iff bit_not_iff)

lemma set_bits_and: "i < 32 \<Longrightarrow> w AND push_bit i 1 \<noteq> 0 \<longleftrightarrow> i \<in> set_bits w"
  by (simp add: set_bits_def and_bit_iff del: push_bit_of_1)

text \<open>
  What the upper half relies on: the LEDs that are lit are the set last set, of those the lower half
  supports, and setting one LED changes that one; neither changes what is supported. \<open>ready\<close> is
  what the initialization of the lower half establishes.
\<close>

locale led_lower =
  fixes lower :: "'h userled_lowerhalf_s" and lit :: "'h \<Rightarrow> nat set" and ready :: "'h \<Rightarrow> bool"
  assumes setall_ready: "ready h \<Longrightarrow> ready (ll_setall lower w h)"
    and setall_lit: "ready h \<Longrightarrow> lit (ll_setall lower w h) = set_bits w \<inter> set_bits (ll_supported lower h)"
    and setall_sup: "ready h \<Longrightarrow> ll_supported lower (ll_setall lower w h) = ll_supported lower h"
    and setled_ready: "ready h \<Longrightarrow> ready (ll_setled lower n v h)"
    and setled_lit: "ready h \<Longrightarrow> i \<in> set_bits (ll_supported lower h) \<Longrightarrow>
      lit (ll_setled lower (int i) v h) = (if v then insert i (lit h) else lit h - {i})"
    and setled_sup: "ready h \<Longrightarrow> ll_supported lower (ll_setled lower n v h) = ll_supported lower h"
    and no_effects: "ll_getall lower = None" "ll_effect_sup lower = None" "ll_effect_set lower = None"
begin

definition led_ok :: "'h led_state \<Rightarrow> bool" where
  "led_ok s \<longleftrightarrow> ready (ledhw s) \<and> lu_supported (ldev s) = ll_supported lower (ledhw s) \<and>
     set_bits (lu_ledset (ldev s)) \<subseteq> set_bits (lu_supported (ldev s)) \<and> distinct (map fst (lu_open (ldev s)))"

definition in_step :: "'h led_state \<Rightarrow> bool" where
  "in_step s \<longleftrightarrow> lit (ledhw s) = set_bits (lu_ledset (ldev s))"

lemma setled_eq:
  assumes "led_ok s" "\<not> lock < 0"
  shows "unat (ul_led u) \<in> set_bits (lu_supported (ldev s)) \<Longrightarrow>
      \<exists>s'. userled_ioctl lower rs ef lock (ULEDIOC_SETLED (Some u)) s = Some (OK, No_out, s') \<and> led_ok s' \<and>
        lit (ledhw s') = (if ul_on u then insert (unat (ul_led u)) (lit (ledhw s)) else lit (ledhw s) - {unat (ul_led u)}) \<and>
        (in_step s \<longrightarrow> in_step s')"
    and "unat (ul_led u) \<notin> set_bits (lu_supported (ldev s)) \<Longrightarrow>
      userled_ioctl lower rs ef lock (ULEDIOC_SETLED (Some u)) s = Some (- EINVAL, No_out, s)"
  using assms set_bits_less [of "unat (ul_led u)" "lu_supported (ldev s)"]
    setled_lit [of "ledhw s" "unat (ul_led u)" True] setled_lit [of "ledhw s" "unat (ul_led u)" False]
  by (simp_all add: userled_ioctl_def set_bits_and Let_def led_ok_def in_step_def upd_ldev_def upd_ledhw_def
      setled_ready setled_lit setled_sup cong: conj_cong del: push_bit_of_1) blast

lemma setall_eq:
  assumes "led_ok s" "\<not> lock < 0"
  shows "set_bits w \<subseteq> set_bits (lu_supported (ldev s)) \<Longrightarrow>
      \<exists>s'. userled_ioctl lower rs ef lock (ULEDIOC_SETALL w) s = Some (OK, No_out, s') \<and> led_ok s' \<and>
        lit (ledhw s') = set_bits w \<and> in_step s'"
    and "\<not> set_bits w \<subseteq> set_bits (lu_supported (ldev s)) \<Longrightarrow>
      userled_ioctl lower rs ef lock (ULEDIOC_SETALL w) s = Some (- EINVAL, No_out, s)"
  using assms
  by (auto simp: userled_ioctl_def set_bits_sub led_ok_def in_step_def upd_ldev_def upd_ledhw_def
      setall_ready setall_lit setall_sup)

lemma getall_eq:
  "\<not> lock < 0 \<Longrightarrow>
   userled_ioctl lower False ef lock (ULEDIOC_GETALL True) s = Some (OK, Out_set (lu_ledset (ldev s)), s)"
  by (simp add: userled_ioctl_def)

lemma ioctl_ok:
  assumes "led_ok s" "userled_ioctl lower rs ef lock cmd s = Some (r, out, s')"
  shows "led_ok s'" and "in_step s \<Longrightarrow> in_step s'"
proof -
  have "led_ok s' \<and> (in_step s \<longrightarrow> in_step s')"
  proof (cases "lock < 0")
    case True
    then show ?thesis using assms by (simp add: userled_ioctl_def)
  next
    case False
    show ?thesis
    proof (cases cmd)
      case (ULEDIOC_SETLED u)
      show ?thesis
      proof (cases u)
        case None
        then show ?thesis using ULEDIOC_SETLED False assms by (simp add: userled_ioctl_def)
      next
        case (Some v)
        show ?thesis using setled_eq [OF assms(1) False, of v rs ef] ULEDIOC_SETLED Some assms
          by (cases "unat (ul_led v) \<in> set_bits (lu_supported (ldev s))") auto
      qed
    next
      case (ULEDIOC_SETALL w)
      then show ?thesis using setall_eq [OF assms(1) False, of w rs ef] assms
        by (cases "set_bits w \<subseteq> set_bits (lu_supported (ldev s))") auto
    qed (use assms False no_effects in \<open>auto simp: userled_ioctl_def split: if_splits option.splits\<close>)
  qed
  then show "led_ok s'" "in_step s \<Longrightarrow> in_step s'" by simp_all
qed

lemma write_ok: "led_ok s \<Longrightarrow> led_ok (snd (userled_write lower lock w len s))"
  by (auto simp: userled_write_def led_ok_def upd_ledhw_def setall_ready setall_sup)

lemma write_lit:
  "led_ok s \<Longrightarrow> \<not> lock < 0 \<Longrightarrow> 4 \<le> len \<Longrightarrow>
   \<exists>s'. userled_write lower lock w len s = (4, s') \<and> ldev s' = ldev s \<and>
     lit (ledhw s') = set_bits w \<inter> set_bits (lu_supported (ldev s))"
  by (auto simp: userled_write_def led_ok_def upd_ledhw_def setall_lit)

lemma open_ok:
  "led_ok s \<Longrightarrow> (\<And>a. alloc = Some a \<Longrightarrow> a \<notin> fst ` set (lu_open (ldev s))) \<Longrightarrow>
   userled_open lock alloc filep s = (r, filep', s') \<Longrightarrow> led_ok s' \<and> (in_step s \<longrightarrow> in_step s')"
  by (auto simp: userled_open_def led_ok_def in_step_def upd_ldev_def split: if_splits option.splits)

lemma set_closing_fst [simp]: "map fst (set_closing a os) = map fst os"
  by (simp add: set_closing_def split_beta comp_def)

lemma close_ok:
  assumes "led_ok s" "userled_close lock filep s = Some (r, s')"
  shows "led_ok s' \<and> (in_step s \<longrightarrow> in_step s')"
proof -
  have d: "distinct (map fst (set_closing (lf_priv filep) (lu_open (ldev s))))"
    using assms(1) by (simp add: led_ok_def)
  have "distinct (map fst (filter P os))" if "distinct (map fst os)" for P and os :: "(nat \<times> userled_open_s) list"
    using that by (rule distinct_map_filter)
  then show ?thesis
    using assms d by (auto simp: userled_close_def Let_def upd_ldev_def led_ok_def in_step_def unlink_eq [OF d]
        split: option.splits if_splits)
qed

lemma op_ok:
  assumes "led_op w lower s s'" "led_ok s"
  shows "led_ok s'" and "\<not> w \<Longrightarrow> in_step s \<Longrightarrow> in_step s'"
proof -
  have "led_ok s' \<and> (\<not> w \<longrightarrow> in_step s \<longrightarrow> in_step s')"
    using assms
  proof (induction rule: led_op.induct)
    case (opened alloc lock filep r filep' s')
    then show ?case using open_ok [of s alloc lock filep r filep' s'] by blast
  next
    case (written lock ledset len r s')
    then show ?case using write_ok [of s lock ledset len] by simp
  next
    case (ioctl effects lock cmd r out s')
    then show ?case using ioctl_ok [of s False effects lock cmd r out s'] by blast
  qed (use close_ok in blast)
  then show "led_ok s'" "\<not> w \<Longrightarrow> in_step s \<Longrightarrow> in_step s'" by simp_all
qed

lemma register_ok:
  "ready (ledhw s) \<Longrightarrow> userled_register reserve (Some a) devname lower s = (r, s') \<Longrightarrow>
   led_ok s' \<and> in_step s' \<and> lit (ledhw s') = {} \<and> ldev s' = \<lparr>lu_supported = ll_supported lower (ledhw s), lu_ledset = 0, lu_open = []\<rparr>"
  by (auto simp: userled_register_def Let_def upd_ledhw_def led_ok_def in_step_def setall_ready setall_lit setall_sup
      split: if_splits prod.splits)

end

end
