(* ===== verification/Board_Leds.thy ===== *)
theory Board_Leds
  imports Stm32_Gpio
begin

text \<open>
  The three LEDs of the board: as indicators of the kernel's state
  (\<^verbatim>\<open>boards/arm/stm32h7/nucleo-h753zi/src/stm32_autoleds.c\<close>), or in the hands of the application
  (\<^verbatim>\<open>stm32_userleds.c\<close>) behind the generic lower half \<^verbatim>\<open>drivers/leds/userled_lower.c\<close>. A build has one
  of the two, by \<^verbatim>\<open>CONFIG_ARCH_LEDS\<close>; both drive the same pins.
\<close>

definition GPIO_LD1 :: u32 where
  "GPIO_LD1 = GPIO_OUTPUT OR GPIO_PUSHPULL OR GPIO_SPEED_50MHz OR GPIO_OUTPUT_CLEAR OR GPIO_PORT 1 OR GPIO_PIN 0"
definition GPIO_LD2 :: u32 where
  "GPIO_LD2 = GPIO_OUTPUT OR GPIO_PUSHPULL OR GPIO_SPEED_50MHz OR GPIO_OUTPUT_CLEAR OR GPIO_PORT 4 OR GPIO_PIN 1"
definition GPIO_LD3 :: u32 where
  "GPIO_LD3 = GPIO_OUTPUT OR GPIO_PUSHPULL OR GPIO_SPEED_50MHz OR GPIO_OUTPUT_CLEAR OR GPIO_PORT 1 OR GPIO_PIN 14"

definition BOARD_NLEDS :: nat where "BOARD_NLEDS = 3"
definition BOARD_LED_GREEN :: nat where "BOARD_LED_GREEN = 0"
definition BOARD_LED_ORANGE :: nat where "BOARD_LED_ORANGE = 1"
definition BOARD_LED_RED :: nat where "BOARD_LED_RED = 2"

lemmas led_nums = BOARD_NLEDS_def BOARD_LED_GREEN_def BOARD_LED_ORANGE_def BOARD_LED_RED_def

subsection \<open>LEDs as indicators\<close>

definition LED_STARTED :: int where "LED_STARTED = 0"
definition LED_HEAPALLOCATE :: int where "LED_HEAPALLOCATE = 1"
definition LED_IRQSENABLED :: int where "LED_IRQSENABLED = 2"
definition LED_STACKCREATED :: int where "LED_STACKCREATED = 3"
definition LED_INIRQ :: int where "LED_INIRQ = 4"
definition LED_SIGNAL :: int where "LED_SIGNAL = 5"
definition LED_ASSERTION :: int where "LED_ASSERTION = 6"
definition LED_PANIC :: int where "LED_PANIC = 7"
definition LED_IDLE :: int where "LED_IDLE = 8"

lemmas led_events =
  LED_STARTED_def LED_HEAPALLOCATE_def LED_IRQSENABLED_def LED_STACKCREATED_def LED_INIRQ_def
  LED_SIGNAL_def LED_ASSERTION_def LED_PANIC_def LED_IDLE_def

definition g_ledmap :: "u32 list" where
  "g_ledmap = [GPIO_LD1, GPIO_LD2, GPIO_LD3]"

definition phy_set_led :: "nat \<Rightarrow> bool \<Rightarrow> bus \<Rightarrow> bus" where
  "phy_set_led led state h = stm32_gpiowrite (g_ledmap ! led) state h"

fun config_leds :: "u32 list \<Rightarrow> bus \<Rightarrow> bus" where
  "config_leds [] h = h"
| "config_leds (c # cs) h = config_leds cs (snd (stm32_configgpio c h))"

definition board_autoled_initialize :: "bus \<Rightarrow> bus" where
  "board_autoled_initialize h = config_leds g_ledmap h"

text \<open>The state is the flag \<^verbatim>\<open>g_initialized\<close> and the registers.\<close>

definition board_autoled_on :: "int \<Rightarrow> bool \<times> bus \<Rightarrow> bool \<times> bus" where
  "board_autoled_on led s =
     (let (g_initialized, h) = s in
      if led = LED_HEAPALLOCATE then (g_initialized, phy_set_led BOARD_LED_ORANGE True h)
      else if led = LED_IRQSENABLED then
        (g_initialized, phy_set_led BOARD_LED_GREEN True (phy_set_led BOARD_LED_ORANGE False h))
      else if led = LED_STACKCREATED then
        (True, phy_set_led BOARD_LED_ORANGE True (phy_set_led BOARD_LED_GREEN True h))
      else if led = LED_INIRQ then (g_initialized, phy_set_led BOARD_LED_ORANGE True h)
      else if led = LED_SIGNAL then (g_initialized, phy_set_led BOARD_LED_GREEN True h)
      else if led = LED_ASSERTION then
        (g_initialized, phy_set_led BOARD_LED_ORANGE True (phy_set_led BOARD_LED_RED True h))
      else if led = LED_PANIC then (g_initialized, phy_set_led BOARD_LED_RED True h)
      else if led = LED_IDLE then (g_initialized, phy_set_led BOARD_LED_RED True h)
      else (g_initialized, h))"

definition board_autoled_off :: "int \<Rightarrow> bool \<times> bus \<Rightarrow> bool \<times> bus" where
  "board_autoled_off led s =
     (let (g_initialized, h) = s in
      if led = LED_SIGNAL then (g_initialized, phy_set_led BOARD_LED_GREEN False h)
      else if led = LED_INIRQ then (g_initialized, phy_set_led BOARD_LED_ORANGE False h)
      else if led = LED_ASSERTION then
        (g_initialized, phy_set_led BOARD_LED_ORANGE False (phy_set_led BOARD_LED_RED False h))
      else if led = LED_PANIC then (g_initialized, phy_set_led BOARD_LED_RED False h)
      else if led = LED_IDLE then (g_initialized, phy_set_led BOARD_LED_RED False h)
      else (g_initialized, h))"

subsection \<open>LEDs of the application\<close>

definition g_ledcfg :: "u32 list" where
  "g_ledcfg = [GPIO_LD1, GPIO_LD2, GPIO_LD3]"

definition board_userled_initialize :: "bus \<Rightarrow> u32 \<times> bus" where
  "board_userled_initialize h = (of_nat BOARD_NLEDS, config_leds g_ledcfg h)"

definition board_userled :: "int \<Rightarrow> bool \<Rightarrow> bus \<Rightarrow> bus" where
  "board_userled led ledon h =
     (let n = unat (word_of_int led :: u32) in
      if n < length g_ledcfg then stm32_gpiowrite (g_ledcfg ! n) ledon h else h)"

fun userled_loop :: "u32 list \<Rightarrow> nat \<Rightarrow> u32 \<Rightarrow> bus \<Rightarrow> bus" where
  "userled_loop [] i ledset h = h"
| "userled_loop (c # cs) i ledset h =
     userled_loop cs (Suc i) ledset (stm32_gpiowrite c (ledset AND push_bit i 1 \<noteq> 0) h)"

definition board_userled_all :: "u32 \<Rightarrow> bus \<Rightarrow> bus" where
  "board_userled_all ledset h = userled_loop g_ledcfg 0 ledset h"

text \<open>The lower half: \<open>g_lednum\<close> is what the initialization returned.\<close>

definition userled_supported :: "u32 \<Rightarrow> u32" where
  "userled_supported g_lednum = push_bit (unat g_lednum) 1 - 1"

definition userled_setled :: "int \<Rightarrow> bool \<Rightarrow> bus \<Rightarrow> bus" where
  "userled_setled led ledon h = board_userled led ledon h"

definition userled_setall :: "u32 \<Rightarrow> bus \<Rightarrow> bus" where
  "userled_setall ledset h = board_userled_all ledset h"

subsection \<open>The pins\<close>

definition LED_FLAGS :: u32 where
  "LED_FLAGS = GPIO_OUTPUT OR GPIO_PUSHPULL OR GPIO_SPEED_50MHz OR GPIO_OUTPUT_CLEAR"

lemma led_flag_word: "flag_word LED_FLAGS"
  by (simp add: flag_word_def LED_FLAGS_def gpio_consts take_bit_eq_mod)

lemma led_words:
  "GPIO_LD1 = pin_word LED_FLAGS 1 0" "GPIO_LD2 = pin_word LED_FLAGS 4 1" "GPIO_LD3 = pin_word LED_FLAGS 1 14"
  by (simp_all add: GPIO_LD1_def GPIO_LD2_def GPIO_LD3_def pin_word_def LED_FLAGS_def or.assoc)

lemma led_locs [simp]:
  "gpio_loc GPIO_LD1 = (1, 0)" "gpio_loc GPIO_LD2 = (4, 1)" "gpio_loc GPIO_LD3 = (1, 14)"
  by (simp_all add: led_words gpio_loc_def pin_word_parts led_flag_word)

lemma led_valid [simp]: "gpio_valid GPIO_LD1" "gpio_valid GPIO_LD2" "gpio_valid GPIO_LD3"
  by (simp_all add: led_words gpio_valid_def pin_word_parts led_flag_word STM32H7_NGPIO_def)

definition led_pins :: "(nat \<times> nat) set" where
  "led_pins = {(1, 0), (4, 1), (1, 14)}"

lemma led_config:
  "c \<in> {GPIO_LD1, GPIO_LD2, GPIO_LD3} \<Longrightarrow>
     gpio_valid c \<and> gpio_is_output c \<and> cfg_of c = cfg_of LED_FLAGS \<and> \<not> bit c 8"
proof -
  have "pc_mode (cfg_of LED_FLAGS) = 1" "\<not> bit LED_FLAGS 8"
    by (simp_all add: cfg_of_def LED_FLAGS_def gpio_consts reg_field_def Let_def take_bit_eq_mod
        drop_bit_eq_div bit_iff_odd_drop_bit)
  then show "c \<in> {GPIO_LD1, GPIO_LD2, GPIO_LD3} \<Longrightarrow> ?thesis"
    by (auto simp: led_words gpio_is_output_def pin_word_flags gpio_valid_def pin_word_parts led_flag_word
        STM32H7_NGPIO_def)
qed

lemma config_leds_eq:
  assumes "cs = [GPIO_LD1, GPIO_LD2, GPIO_LD3]"
  shows "gpio_abs (config_leds cs h) p = (if p \<in> led_pins then Some (cfg_of LED_FLAGS) else gpio_abs h p)"
    and "level_abs (config_leds cs h) p = (if p \<in> led_pins then Some False else level_abs h p)"
  using led_config by (simp_all add: assms gpio.cfg_pins gpio.cfg_level led_pins_def)

lemma phy_set_led_eq [simp]:
  "led < 3 \<Longrightarrow> level_abs (phy_set_led led v h) = (level_abs h)(gpio_loc (g_ledmap ! led) \<mapsto> v)"
  "gpio_abs (phy_set_led led v h) = gpio_abs h"
  by (auto simp: phy_set_led_def gpio.wr_pins gpio.wr_level g_ledmap_def less_Suc_eq numeral_3_eq_3)

text \<open>
  Initialization makes the three LED pins push-pull outputs that are low, so every LED is off,
  and touches no other pin; the application is told there are three LEDs, and the lower half
  supports exactly these.
\<close>

theorem userled_initialize_correct:
  "fst (board_userled_initialize h) = 3 \<and>
   (\<forall>n. bit (userled_supported (fst (board_userled_initialize h))) n \<longleftrightarrow> n < 3) \<and>
   gpio_abs (snd (board_userled_initialize h)) =
     (\<lambda>p. if p \<in> led_pins then Some (cfg_of LED_FLAGS) else gpio_abs h p) \<and>
   level_abs (snd (board_userled_initialize h)) =
     (\<lambda>p. if p \<in> led_pins then Some False else level_abs h p)"
proof -
  have "userled_supported 3 = mask 3"
    by (simp add: userled_supported_def mask_eq_exp_minus_1)
  then have "bit (userled_supported 3) n \<longleftrightarrow> n < 3" for n
    by (auto simp: bit_mask_iff)
  then show ?thesis
    using config_leds_eq [OF g_ledcfg_def] by (auto simp: board_userled_initialize_def BOARD_NLEDS_def)
qed

lemma userled_all_level:
  "level_abs (board_userled_all ledset h) =
     (level_abs h)((1, 0) \<mapsto> bit ledset 0, (4, 1) \<mapsto> bit ledset 1, (1, 14) \<mapsto> bit ledset 2)"
  using and_bit_iff [of 0 ledset] and_bit_iff [of 1 ledset] and_bit_iff [of 2 ledset]
  by (simp add: board_userled_all_def g_ledcfg_def gpio.wr_level numeral_2_eq_2)

text \<open>
  Setting the LEDs from a set lights LED \<open>i\<close> exactly if bit \<open>i\<close> is in the set and drives no other
  pin; setting one LED drives the pin of that LED only, and a number that is no LED, negative
  numbers included, drives nothing.
\<close>

theorem userled_sets:
  assumes "- (2 ^ 31) \<le> led" "led < 2 ^ 31"
  shows "level_abs (userled_setall ledset h) =
           (level_abs h)((1, 0) \<mapsto> bit ledset 0, (4, 1) \<mapsto> bit ledset 1, (1, 14) \<mapsto> bit ledset 2) \<and>
         level_abs (userled_setled led on h) =
           (if 0 \<le> led \<and> led < 3 then (level_abs h)(gpio_loc (g_ledcfg ! nat led) \<mapsto> on) else level_abs h)"
proof -
  have n: "unat (word_of_int led :: u32) = nat (led mod 2 ^ 32)"
    by (simp add: unat_eq_nat_uint uint_word_of_int)
  have m: "led mod 2 ^ 32 = (if 0 \<le> led then led else led + 2 ^ 32)"
  proof (cases "0 \<le> led")
    case False
    then have "(led + 2 ^ 32) mod 2 ^ 32 = led + 2 ^ 32" using assms by (intro mod_pos_pos_trivial) auto
    with False show ?thesis by simp
  qed (use assms in simp)
  then have "nat (led mod 2 ^ 32) < 3 \<longleftrightarrow> 0 \<le> led \<and> led < 3" "0 \<le> led \<Longrightarrow> led mod 2 ^ 32 = led"
    using assms by auto
  moreover have "gpio_valid (g_ledcfg ! nat led)" if "0 \<le> led" "led < 3"
  proof -
    have "led = 0 \<or> led = 1 \<or> led = 2" using that by linarith
    then show ?thesis by (auto simp: g_ledcfg_def)
  qed
  ultimately show ?thesis
    by (auto simp: userled_setall_def userled_all_level userled_setled_def board_userled_def n Let_def
        gpio.wr_level) (simp_all add: g_ledcfg_def)
qed

theorem userled_sets_witness:
  "level_abs (userled_setled 2 True bus0) (1, 14) = Some True \<and>
   level_abs (userled_setled (- 1) True bus0) = level_abs bus0"
  using userled_sets [of 2 0 bus0 True] userled_sets [of "- 1" 0 bus0 True]
  by (simp add: g_ledcfg_def)

lemma autoled_init_level:
  "level_abs (board_autoled_initialize h) p = (if p \<in> led_pins then Some False else level_abs h p)"
  by (simp add: board_autoled_initialize_def config_leds_eq(2) [OF g_ledmap_def])

lemma phy_set_led_only:
  "led < 3 \<Longrightarrow> p \<notin> led_pins \<Longrightarrow> level_abs (phy_set_led led v h) p = level_abs h p"
  by (auto simp: led_pins_def g_ledmap_def less_Suc_eq numeral_3_eq_3)

definition only_leds :: "bus \<Rightarrow> bus \<Rightarrow> bool" where
  "only_leds h h' \<longleftrightarrow> (\<forall>p. p \<notin> led_pins \<longrightarrow> level_abs h' p = level_abs h p) \<and> gpio_abs h' = gpio_abs h"

lemma only_leds_simps [simp]:
  "only_leds h h" "led < 3 \<Longrightarrow> only_leds h h1 \<Longrightarrow> only_leds h (phy_set_led led v h1)"
  by (simp_all add: only_leds_def phy_set_led_only del: phy_set_led_eq(1))

lemma autoled_frame:
  "only_leds h (snd (board_autoled_on led (g, h)))" "only_leds h (snd (board_autoled_off led (g, h)))"
  by (simp_all add: board_autoled_on_def board_autoled_off_def led_nums)

text \<open>
  What the board makes of an event, LED by LED: switching it on or off, or nothing. An event is shown
  (\<open>True\<close>) or withdrawn (\<open>False\<close>).
\<close>

definition led_verdict :: "bool \<times> int \<Rightarrow> nat \<Rightarrow> bool option" where
  "led_verdict e led =
     (let (lit, dark) =
        (if led = BOARD_LED_GREEN then
           ([(True, LED_IRQSENABLED), (True, LED_STACKCREATED), (True, LED_SIGNAL)], [(False, LED_SIGNAL)])
         else if led = BOARD_LED_ORANGE then
           ([(True, LED_HEAPALLOCATE), (True, LED_STACKCREATED), (True, LED_INIRQ), (True, LED_ASSERTION)],
            [(True, LED_IRQSENABLED), (False, LED_INIRQ), (False, LED_ASSERTION)])
         else
           ([(True, LED_ASSERTION), (True, LED_PANIC), (True, LED_IDLE)],
            [(False, LED_ASSERTION), (False, LED_PANIC), (False, LED_IDLE)]))
      in if e \<in> set lit then Some True else if e \<in> set dark then Some False else None)"

text \<open>The LED after a history of events: as the last one says that says anything about it, and off before.\<close>

fun led_after :: "(bool \<times> int) list \<Rightarrow> nat \<Rightarrow> bool" where
  "led_after evs led = (case filter (\<lambda>v. v \<noteq> None) (map (\<lambda>e. led_verdict e led) (rev evs)) of [] \<Rightarrow> False | v # _ \<Rightarrow> v = Some True)"

lemma led_after_Nil [simp]: "led_after [] led = False"
  by simp

lemma led_after_snoc: "led_after (evs @ [e]) led = (case led_verdict e led of None \<Rightarrow> led_after evs led | Some v \<Rightarrow> v)"
  by (cases "led_verdict e led") simp_all

definition autoled_event :: "bool \<times> int \<Rightarrow> bool \<times> bus \<Rightarrow> bool \<times> bus" where
  "autoled_event e = (if fst e then board_autoled_on (snd e) else board_autoled_off (snd e))"

lemma autoled_event_led:
  assumes "led < 3"
  shows "level_abs (snd (autoled_event e s)) (gpio_loc (g_ledmap ! led)) =
     (case led_verdict e led of None \<Rightarrow> level_abs (snd s) (gpio_loc (g_ledmap ! led)) | Some v \<Rightarrow> Some v)"
proof -
  obtain b l where "e = (b, l)" by (rule prod.exhaust)
  moreover have "led = 0 \<or> led = 1 \<or> led = 2" using assms by linarith
  ultimately show ?thesis
    by (elim disjE; cases b)
      (simp_all add: autoled_event_def board_autoled_on_def board_autoled_off_def split_beta led_verdict_def led_events led_nums g_ledmap_def)
qed

lemma autoled_event_rest:
  "p \<notin> led_pins \<Longrightarrow> level_abs (snd (autoled_event e s)) p = level_abs (snd s) p"
  "gpio_abs (snd (autoled_event e s)) = gpio_abs (snd s)"
  "fst (autoled_event e s) = (fst s \<or> e = (True, LED_STACKCREATED))"
proof -
  have "only_leds (snd s) (snd (autoled_event e s))"
    using autoled_frame [of "snd s" "snd e" "fst s"] by (simp add: autoled_event_def)
  then show "p \<notin> led_pins \<Longrightarrow> level_abs (snd (autoled_event e s)) p = level_abs (snd s) p"
    "gpio_abs (snd (autoled_event e s)) = gpio_abs (snd s)" unfolding only_leds_def by blast+
  show "fst (autoled_event e s) = (fst s \<or> e = (True, LED_STACKCREATED))"
    by (cases e; cases s) (simp add: autoled_event_def board_autoled_on_def board_autoled_off_def led_events)
qed

lemma led_map_pins: "led < 3 \<Longrightarrow> gpio_loc (g_ledmap ! led) \<in> led_pins"
  by (auto simp: led_pins_def g_ledmap_def less_Suc_eq numeral_3_eq_3)


text \<open>
  Whatever event is shown or withdrawn, only the levels of the LED pins change.
\<close>

theorem autoled_only_leds:
  "level_abs (snd (board_autoled_on led s)) |` (- led_pins) = level_abs (snd s) |` (- led_pins) \<and>
   level_abs (snd (board_autoled_off led s)) |` (- led_pins) = level_abs (snd s) |` (- led_pins) \<and>
   gpio_abs (snd (board_autoled_on led s)) = gpio_abs (snd s) \<and>
   gpio_abs (snd (board_autoled_off led s)) = gpio_abs (snd s)"
  using autoled_frame [of "snd s" led "fst s"] by (auto simp: only_leds_def restrict_map_def fun_eq_iff)

end
