(* ===== verification/Stm32_Exti.thy ===== *)
theory Stm32_Exti
  imports Stm32_Gpio
begin

text \<open>
  Interrupts: the interrupt vector of the kernel (\<^verbatim>\<open>sched/irq/irq_attach.c\<close>,
  \<^verbatim>\<open>irq_dispatch.c\<close>), the enabling of an interrupt at the NVIC (\<^verbatim>\<open>stm32_irq.c\<close>) and the external
  interrupt lines of the GPIO pins (\<^verbatim>\<open>stm32_exti_gpio.c\<close>).

  The state holds the register bus, the callback table of the 16 lines, the interrupt vector
  and the rest of the world \<open>env\<close>. A handler is a function pointer: one of the dispatchers of
  \<^verbatim>\<open>stm32_exti_gpio.c\<close>, the handler for unexpected interrupts, or a client's callback, whose
  effect is the parameter \<open>call\<close> (callback, irq, context and argument to a return value and a
  new state; it may change anything, also the tables). A PANIC is the result \<open>None\<close>. The NVIC
  enable registers are write-one-to-act, so whether an interrupt is enabled is read from the
  write log. The configuration is the board's: full vector table, no interrupt chains.
\<close>

subsection \<open>State\<close>

datatype 'f xcpt =
    stm32_exti0_isr | stm32_exti1_isr | stm32_exti2_isr | stm32_exti3_isr | stm32_exti4_isr
  | stm32_exti95_isr | stm32_exti1510_isr | irq_unexpected_isr | User 'f

record ('f, 'a) gpio_callback_s =
  callback :: "'f option"
  cbarg :: "'a option"

record ('f, 'a) irq_info =
  handler :: "'f xcpt option"
  vecarg :: "'a option"

record ('f, 'a, 'w) irq_state =
  hw :: bus
  g_gpio_callbacks :: "('f, 'a) gpio_callback_s list"
  g_irqvector :: "('f, 'a) irq_info list"
  env :: 'w

type_synonym ('f, 'a, 'w) caller =
  "'f \<Rightarrow> int \<Rightarrow> 'a option \<Rightarrow> 'a option \<Rightarrow> ('f, 'a, 'w) irq_state \<Rightarrow> int \<times> ('f, 'a, 'w) irq_state"

text \<open>
  The functions that are registered for the lines on this board: the handlers of the button driver
  and of the GPIO devices, and those of other drivers, by number.
\<close>

datatype board_isr = btnl_interrupt_p | stm32_gpio_interrupt_handler | other_isr nat

definition on_hw :: "(bus \<Rightarrow> bus) \<Rightarrow> ('f, 'a, 'w) irq_state \<Rightarrow> ('f, 'a, 'w) irq_state" where
  "on_hw f s = s\<lparr>hw := f (hw s)\<rparr>"

subsection \<open>NVIC\<close>

definition STM32_IRQ_FIRST :: int where "STM32_IRQ_FIRST = 16"
definition STM32_IRQ_NEXTINTS :: int where "STM32_IRQ_NEXTINTS = 150"
definition NR_IRQS :: int where "NR_IRQS = STM32_IRQ_FIRST + STM32_IRQ_NEXTINTS"
definition STM32_IRQ_EXTI0 :: int where "STM32_IRQ_EXTI0 = STM32_IRQ_FIRST + 6"
definition STM32_IRQ_EXTI95 :: int where "STM32_IRQ_EXTI95 = STM32_IRQ_FIRST + 23"
definition STM32_IRQ_EXTI1510 :: int where "STM32_IRQ_EXTI1510 = STM32_IRQ_FIRST + 40"

lemmas irq_numbers =
  STM32_IRQ_FIRST_def STM32_IRQ_NEXTINTS_def NR_IRQS_def STM32_IRQ_EXTI0_def
  STM32_IRQ_EXTI95_def STM32_IRQ_EXTI1510_def

definition NVIC_ENA_OFFSET :: u32 where "NVIC_ENA_OFFSET = 0"
definition NVIC_CLRENA_OFFSET :: u32 where "NVIC_CLRENA_OFFSET = 0xe000e180 - 0xe000e100"

definition stm32_irqinfo :: "int \<Rightarrow> u32 \<Rightarrow> (u32 \<times> u32) option" where
  "stm32_irqinfo irq offset =
     (let extint = nat (irq - STM32_IRQ_FIRST) in
      if irq \<ge> STM32_IRQ_FIRST then
        (if extint < 32 then Some (0xe000e100 + offset, push_bit extint 1)
         else if extint < 64 then Some (0xe000e104 + offset, push_bit (extint - 32) 1)
         else if extint < 96 then Some (0xe000e108 + offset, push_bit (extint - 64) 1)
         else if extint < 128 then Some (0xe000e10c + offset, push_bit (extint - 96) 1)
         else if extint < nat STM32_IRQ_NEXTINTS then Some (0xe000e110 + offset, push_bit (extint - 128) 1)
         else None)
      else if irq = 4 then Some (0xe000ed24, push_bit 16 1)
      else if irq = 5 then Some (0xe000ed24, push_bit 17 1)
      else if irq = 6 then Some (0xe000ed24, push_bit 18 1)
      else if irq = 15 then Some (0xe000e010, push_bit 0 1)
      else None)"

definition up_disable_irq :: "int \<Rightarrow> bus \<Rightarrow> bus" where
  "up_disable_irq irq h =
     (case stm32_irqinfo irq NVIC_CLRENA_OFFSET of
        None \<Rightarrow> h
      | Some (regaddr, ibit) \<Rightarrow>
          if irq \<ge> STM32_IRQ_FIRST then putreg32 ibit regaddr h
          else putreg32 (getreg32 regaddr h AND NOT ibit) regaddr h)"

definition up_enable_irq :: "int \<Rightarrow> bus \<Rightarrow> bus" where
  "up_enable_irq irq h =
     (case stm32_irqinfo irq NVIC_ENA_OFFSET of
        None \<Rightarrow> h
      | Some (regaddr, ibit) \<Rightarrow>
          if irq \<ge> STM32_IRQ_FIRST then putreg32 ibit regaddr h
          else putreg32 (getreg32 regaddr h OR ibit) regaddr h)"

subsection \<open>The interrupt vector\<close>

definition irq_attach ::
  "int \<Rightarrow> 'f xcpt option \<Rightarrow> 'a option \<Rightarrow> ('f, 'a, 'w) irq_state \<Rightarrow> int \<times> ('f, 'a, 'w) irq_state" where
  "irq_attach irq isr arg s =
     (if 0 \<le> irq \<and> irq < NR_IRQS then
        let ndx = nat irq;
            (isr, arg, s) =
              (case isr of
                 None \<Rightarrow> (irq_unexpected_isr, None, on_hw (up_disable_irq irq) s)
               | Some f \<Rightarrow> (f, arg, s))
        in (OK, s\<lparr>g_irqvector := (g_irqvector s)[ndx := \<lparr>handler = Some isr, vecarg = arg\<rparr>]\<rparr>)
      else (- EINVAL, s))"

subsection \<open>The external interrupt lines\<close>

definition STM32_EXTI_RTSR1 :: u32 where "STM32_EXTI_RTSR1 = 0x58000000"
definition STM32_EXTI_FTSR1 :: u32 where "STM32_EXTI_FTSR1 = 0x58000004"
definition STM32_EXTI_CPUIMR1 :: u32 where "STM32_EXTI_CPUIMR1 = 0x58000080"
definition STM32_EXTI_CPUEMR1 :: u32 where "STM32_EXTI_CPUEMR1 = 0x58000084"
definition STM32_EXTI_CPUPR1 :: u32 where "STM32_EXTI_CPUPR1 = 0x58000088"

lemmas exti_regs =
  STM32_EXTI_RTSR1_def STM32_EXTI_FTSR1_def STM32_EXTI_CPUIMR1_def STM32_EXTI_CPUEMR1_def
  STM32_EXTI_CPUPR1_def

definition STM32_EXTI_MASK :: "nat \<Rightarrow> u32" where "STM32_EXTI_MASK n = push_bit (n mod 32) 1"

text \<open>
  The five dispatchers of the lines that have an interrupt of their own differ in the line only.
\<close>

definition exti_single_isr ::
  "('f, 'a, 'w) caller \<Rightarrow> nat \<Rightarrow> int \<Rightarrow> 'a option \<Rightarrow> ('f, 'a, 'w) irq_state \<Rightarrow>
   int \<times> ('f, 'a, 'w) irq_state" where
  "exti_single_isr call n irq context s =
     (let s = on_hw (putreg32 (push_bit n 1) STM32_EXTI_CPUPR1) s;
          cb = g_gpio_callbacks s ! n
      in case callback cb of
           None \<Rightarrow> (OK, s)
         | Some f \<Rightarrow> call f irq context (cbarg cb) s)"

text \<open>The loop of the shared dispatcher, over the lines still to visit.\<close>

fun exti_multi_loop ::
  "('f, 'a, 'w) caller \<Rightarrow> int \<Rightarrow> 'a option \<Rightarrow> u32 \<Rightarrow> nat list \<Rightarrow> int \<Rightarrow> ('f, 'a, 'w) irq_state \<Rightarrow>
   int \<times> ('f, 'a, 'w) irq_state" where
  "exti_multi_loop call irq context pr [] ret s = (ret, s)"
| "exti_multi_loop call irq context pr (pin # pins) ret s =
     (let mask = push_bit pin 1 in
      if pr AND mask \<noteq> 0 then
        let s = on_hw (putreg32 mask STM32_EXTI_CPUPR1) s;
            cb = g_gpio_callbacks s ! pin;
            (ret, s) =
              (case callback cb of
                 None \<Rightarrow> (ret, s)
               | Some f \<Rightarrow> (let (tmp, s) = call f irq context (cbarg cb) s
                           in (if tmp < 0 then tmp else ret, s)))
        in exti_multi_loop call irq context pr pins ret s
      else exti_multi_loop call irq context pr pins ret s)"

definition stm32_exti_multiisr ::
  "('f, 'a, 'w) caller \<Rightarrow> int \<Rightarrow> 'a option \<Rightarrow> nat \<Rightarrow> nat \<Rightarrow> ('f, 'a, 'w) irq_state \<Rightarrow>
   int \<times> ('f, 'a, 'w) irq_state" where
  "stm32_exti_multiisr call irq context first lastp s =
     (let pr = getreg32 STM32_EXTI_CPUPR1 (hw s)
      in exti_multi_loop call irq context pr [first..<lastp + 1] OK s)"

fun run_xcpt ::
  "('f, 'a, 'w) caller \<Rightarrow> 'f xcpt \<Rightarrow> int \<Rightarrow> 'a option \<Rightarrow> 'a option \<Rightarrow> ('f, 'a, 'w) irq_state \<Rightarrow>
   (int \<times> ('f, 'a, 'w) irq_state) option" where
  "run_xcpt call stm32_exti0_isr irq context arg s = Some (exti_single_isr call 0 irq context s)"
| "run_xcpt call stm32_exti1_isr irq context arg s = Some (exti_single_isr call 1 irq context s)"
| "run_xcpt call stm32_exti2_isr irq context arg s = Some (exti_single_isr call 2 irq context s)"
| "run_xcpt call stm32_exti3_isr irq context arg s = Some (exti_single_isr call 3 irq context s)"
| "run_xcpt call stm32_exti4_isr irq context arg s = Some (exti_single_isr call 4 irq context s)"
| "run_xcpt call stm32_exti95_isr irq context arg s = Some (stm32_exti_multiisr call irq context 5 9 s)"
| "run_xcpt call stm32_exti1510_isr irq context arg s = Some (stm32_exti_multiisr call irq context 10 15 s)"
| "run_xcpt call irq_unexpected_isr irq context arg s = None"
| "run_xcpt call (User f) irq context arg s = Some (call f irq context arg s)"

definition irq_dispatch ::
  "('f, 'a, 'w) caller \<Rightarrow> int \<Rightarrow> 'a option \<Rightarrow> ('f, 'a, 'w) irq_state \<Rightarrow> ('f, 'a, 'w) irq_state option" where
  "irq_dispatch call irq context s =
     (let (vector, arg) =
        (if 0 \<le> irq \<and> irq < NR_IRQS then
           (case handler (g_irqvector s ! nat irq) of
              Some f \<Rightarrow> (f, vecarg (g_irqvector s ! nat irq))
            | None \<Rightarrow> (irq_unexpected_isr, None))
         else (irq_unexpected_isr, None))
      in map_option snd (run_xcpt call vector irq context arg s))"

text \<open>
  The interrupt, dispatcher and range of callbacks a line belongs to: the first part of
  \<^verbatim>\<open>stm32_gpiosetevent\<close>.
\<close>

definition exti_group :: "nat \<Rightarrow> int \<times> 'f xcpt \<times> nat \<times> nat" where
  "exti_group pin =
     (if pin < 5 then
        (int pin + STM32_IRQ_EXTI0,
         (if pin = 0 then stm32_exti0_isr else if pin = 1 then stm32_exti1_isr
          else if pin = 2 then stm32_exti2_isr else if pin = 3 then stm32_exti3_isr
          else stm32_exti4_isr),
         pin, 1)
      else if pin < 10 then (STM32_IRQ_EXTI95, stm32_exti95_isr, 5, 5)
      else (STM32_IRQ_EXTI1510, stm32_exti1510_isr, 10, 6))"

text \<open>The scan for an active callback: the index it stops at.\<close>

fun scan_shared :: "('f, 'a) gpio_callback_s list \<Rightarrow> nat" where
  "scan_shared [] = 0"
| "scan_shared (c # cs) = (if callback c \<noteq> None then 0 else Suc (scan_shared cs))"

definition stm32_gpiosetevent ::
  "u32 \<Rightarrow> bool \<Rightarrow> bool \<Rightarrow> bool \<Rightarrow> 'f option \<Rightarrow> 'a option \<Rightarrow> ('f, 'a, 'w) irq_state \<Rightarrow>
   int \<times> ('f, 'a, 'w) irq_state" where
  "stm32_gpiosetevent pinset risingedge fallingedge event func arg s =
     (let pin = unat (pinset AND GPIO_PIN_MASK);
          exti = STM32_EXTI_MASK pin;
          (irq, isr, shared, nshared) = exti_group pin;
          s = s\<lparr>g_gpio_callbacks := (g_gpio_callbacks s)[pin := \<lparr>callback = func, cbarg = arg\<rparr>]\<rparr>;
          s = (if func \<noteq> None then
                 (let (_, s) = irq_attach irq (Some isr) None s in on_hw (up_enable_irq irq) s)
               else if scan_shared (take nshared (drop shared (g_gpio_callbacks s))) = nshared
               then on_hw (up_disable_irq irq) s
               else s);
          pinset = (if event \<or> func \<noteq> None then pinset OR GPIO_EXTI else pinset);
          s = on_hw (\<lambda>h. snd (stm32_configgpio pinset h)) s;
          s = on_hw (modifyreg32 STM32_EXTI_RTSR1 (if risingedge then 0 else exti)
                                                  (if risingedge then exti else 0)) s;
          s = on_hw (modifyreg32 STM32_EXTI_FTSR1 (if fallingedge then 0 else exti)
                                                  (if fallingedge then exti else 0)) s;
          s = on_hw (modifyreg32 STM32_EXTI_CPUEMR1 (if event then 0 else exti)
                                                    (if event then exti else 0)) s;
          s = on_hw (modifyreg32 STM32_EXTI_CPUIMR1 (if func \<noteq> None then 0 else exti)
                                                    (if func \<noteq> None then exti else 0)) s
      in (OK, s))"

subsection \<open>Which interrupts are enabled\<close>

text \<open>
  Whether the NVIC has an external interrupt enabled, from the write log: the newest write of
  its bit to a set-enable or a clear-enable register decides.
\<close>

definition nvic_reg :: "int \<Rightarrow> u32" where
  "nvic_reg irq = 0xe000e100 + 4 * word_of_int ((irq - STM32_IRQ_FIRST) div 32)"

definition nvic_bit :: "int \<Rightarrow> nat" where
  "nvic_bit irq = nat ((irq - STM32_IRQ_FIRST) mod 32)"

fun nvic_enabled :: "int \<Rightarrow> (u32 \<times> u32) list \<Rightarrow> bool" where
  "nvic_enabled irq [] \<longleftrightarrow> False"
| "nvic_enabled irq ((a, v) # l) \<longleftrightarrow>
     (if a = nvic_reg irq \<and> bit v (nvic_bit irq) then True
      else if a = nvic_reg irq + NVIC_CLRENA_OFFSET \<and> bit v (nvic_bit irq) then False
      else nvic_enabled irq l)"

definition ext_irq :: "int \<Rightarrow> bool" where
  "ext_irq irq \<longleftrightarrow> STM32_IRQ_FIRST \<le> irq \<and> irq < NR_IRQS"

lemma div_mod_32:
  fixes e k :: int
  assumes "32 * k \<le> e" "e < 32 * k + 32"
  shows "e div 32 = k" "e mod 32 = e - 32 * k"
  using assms int_div_pos_eq [of e 32 k "e - 32 * k"] int_mod_pos_eq [of e 32 k "e - 32 * k"]
  by simp_all

lemma irqinfo_ext:
  assumes "ext_irq irq"
  shows "stm32_irqinfo irq offset = Some (nvic_reg irq + offset, push_bit (nvic_bit irq) 1)"
proof -
  define e where "e = irq - STM32_IRQ_FIRST"
  have e: "0 \<le> e" "e < 150" "irq \<ge> STM32_IRQ_FIRST"
    using assms by (auto simp: ext_irq_def irq_numbers e_def)
  then consider "e < 32" | "32 \<le> e" "e < 64" | "64 \<le> e" "e < 96" | "96 \<le> e" "e < 128" | "128 \<le> e"
    by linarith
  moreover have "nat e - n = nat (e - int n)" for n
    using e by linarith
  ultimately show ?thesis
    using e div_mod_32 [of 0 e] div_mod_32 [of 1 e] div_mod_32 [of 2 e] div_mod_32 [of 3 e]
      div_mod_32 [of 4 e]
    by cases (simp_all add: stm32_irqinfo_def nvic_reg_def nvic_bit_def e_def [symmetric] Let_def
        STM32_IRQ_NEXTINTS_def nat_less_iff)
qed

lemma nvic_bit_less [simp]: "nvic_bit irq < 32"
  by (simp add: nvic_bit_def nat_less_iff)

lemma nvic_reg_range:
  assumes "ext_irq irq"
  shows "unat (nvic_reg irq) = 0xe000e100 + 4 * nat ((irq - STM32_IRQ_FIRST) div 32)"
    and "nat ((irq - STM32_IRQ_FIRST) div 32) < 5"
proof -
  define q where "q = nat ((irq - STM32_IRQ_FIRST) div 32)"
  have q: "q < 5" "(irq - STM32_IRQ_FIRST) div 32 = int q"
    using assms by (auto simp: q_def ext_irq_def irq_numbers)
  have "unat (nvic_reg irq) = 0xe000e100 + 4 * q"
    using q(1) by (simp add: nvic_reg_def q(2) unat_word_ariths unat_of_nat)
  then show "unat (nvic_reg irq) = 0xe000e100 + 4 * nat ((irq - STM32_IRQ_FIRST) div 32)"
    by (simp only: q_def)
  show "nat ((irq - STM32_IRQ_FIRST) div 32) < 5"
    using q(1) by (simp only: q_def)
qed

lemma nvic_same:
  assumes "ext_irq i" "ext_irq j"
  shows "nvic_reg i = nvic_reg j \<and> nvic_bit i = nvic_bit j \<longleftrightarrow> i = j"
proof
  assume *: "nvic_reg i = nvic_reg j \<and> nvic_bit i = nvic_bit j"
  then have "nat ((i - STM32_IRQ_FIRST) div 32) = nat ((j - STM32_IRQ_FIRST) div 32)"
    using nvic_reg_range(1) [OF assms(1)] nvic_reg_range(1) [OF assms(2)] by simp
  moreover have "0 \<le> (i - STM32_IRQ_FIRST) div 32" "0 \<le> (j - STM32_IRQ_FIRST) div 32"
    using assms by (simp_all add: ext_irq_def pos_imp_zdiv_nonneg_iff)
  ultimately have "(i - STM32_IRQ_FIRST) div 32 = (j - STM32_IRQ_FIRST) div 32"
    by (simp add: eq_nat_nat_iff)
  moreover have "(i - STM32_IRQ_FIRST) mod 32 = (j - STM32_IRQ_FIRST) mod 32"
    using * by (simp add: nvic_bit_def eq_nat_nat_iff)
  ultimately show "i = j" by (metis add_diff_cancel_right' diff_add_cancel mult_div_mod_eq)
qed simp

lemma nvic_clr_unat:
  assumes "ext_irq i"
  shows "unat (nvic_reg i + NVIC_CLRENA_OFFSET) = unat (nvic_reg i) + 0x80"
  using nvic_reg_range [OF assms] by (simp add: NVIC_CLRENA_OFFSET_def unat_word_ariths)

lemma nvic_reg_clr_neq:
  assumes "ext_irq i" "ext_irq j"
  shows "nvic_reg i \<noteq> nvic_reg j + NVIC_CLRENA_OFFSET"
proof -
  have "unat (nvic_reg i) < unat (nvic_reg j + NVIC_CLRENA_OFFSET)"
    using nvic_reg_range [OF assms(1)] nvic_reg_range [OF assms(2)] nvic_clr_unat [OF assms(2)] by simp
  then show ?thesis by auto
qed

lemma bit_one_hot: "b < 32 \<Longrightarrow> bit (push_bit b 1 :: u32) i \<longleftrightarrow> i = b"
  by (auto simp: bit_simps)

lemma up_enable_ext:
  "ext_irq j \<Longrightarrow> wlog (up_enable_irq j h) = (nvic_reg j, push_bit (nvic_bit j) 1) # wlog h"
  by (simp add: up_enable_irq_def irqinfo_ext NVIC_ENA_OFFSET_def ext_irq_def wlog_putreg32
      del: push_bit_of_1)

lemma up_disable_ext:
  "ext_irq j \<Longrightarrow>
   wlog (up_disable_irq j h) = (nvic_reg j + NVIC_CLRENA_OFFSET, push_bit (nvic_bit j) 1) # wlog h"
  by (simp add: up_disable_irq_def irqinfo_ext ext_irq_def wlog_putreg32 del: push_bit_of_1)

lemma nvic_enabled_up_enable:
  assumes "ext_irq i" "ext_irq j"
  shows "nvic_enabled i (wlog (up_enable_irq j h)) \<longleftrightarrow> i = j \<or> nvic_enabled i (wlog h)"
proof (cases "i = j")
  case True
  then show ?thesis using assms by (simp add: up_enable_ext bit_one_hot del: push_bit_of_1)
next
  case False
  then have "\<not> (nvic_reg j = nvic_reg i \<and> nvic_bit i = nvic_bit j)"
    using nvic_same [OF assms] by auto
  then show ?thesis
    using False assms nvic_reg_clr_neq [OF assms(2,1)]
    by (auto simp: up_enable_ext bit_one_hot simp del: push_bit_of_1)
qed

lemma nvic_enabled_up_disable:
  assumes "ext_irq i" "ext_irq j"
  shows "nvic_enabled i (wlog (up_disable_irq j h)) \<longleftrightarrow> i \<noteq> j \<and> nvic_enabled i (wlog h)"
proof (cases "i = j")
  case True
  then show ?thesis
    using assms nvic_reg_clr_neq [OF assms]
    by (simp add: up_disable_ext bit_one_hot del: push_bit_of_1)
next
  case False
  then have "\<not> (nvic_reg j = nvic_reg i \<and> nvic_bit i = nvic_bit j)"
    using nvic_same [OF assms] by auto
  then show ?thesis
    using False assms nvic_reg_clr_neq [OF assms] not_sym [OF nvic_reg_clr_neq [OF assms]]
    by (auto simp: up_disable_ext bit_one_hot simp del: push_bit_of_1)
qed

lemma nvic_enabled_writes_in:
  assumes "writes_in lo hi h h'" "hi \<le> 0xe000e100" "ext_irq i"
  shows "nvic_enabled i (wlog h') \<longleftrightarrow> nvic_enabled i (wlog h)"
proof -
  have far: "nvic_enabled i (ws @ l) \<longleftrightarrow> nvic_enabled i l"
    if "\<forall>a \<in> fst ` set ws. unat a < 0xe000e100" for ws l
    using that
  proof (induction ws)
    case (Cons w ws)
    obtain a v where w: "w = (a, v)" by (cases w)
    have "unat a < unat (nvic_reg i)" "unat a < unat (nvic_reg i + NVIC_CLRENA_OFFSET)"
      using Cons.prems nvic_reg_range(1) [OF assms(3)] nvic_clr_unat [OF assms(3)] by (auto simp: w)
    then have "a \<noteq> nvic_reg i" "a \<noteq> nvic_reg i + NVIC_CLRENA_OFFSET" by auto
    with Cons show ?case by (simp add: w)
  qed simp
  obtain ws where ws: "wlog h' = ws @ wlog h" "\<forall>a \<in> fst ` set ws. lo \<le> unat a \<and> unat a < hi"
    using assms(1) by (auto simp: writes_in_def)
  have "\<forall>a \<in> fst ` set ws. unat a < 0xe000e100"
    using ws(2) assms(2) by (meson order_less_le_trans)
  then show ?thesis by (simp add: ws(1) far)
qed

subsection \<open>The lines\<close>

record exti_line =
  rising :: bool
  falling :: bool
  ev_enabled :: bool
  int_enabled :: bool

text \<open>How the registers configure a line.\<close>

definition exti_lines :: "bus \<Rightarrow> nat \<Rightarrow> exti_line" where
  "exti_lines h p =
     \<lparr>rising = bit (getreg32 STM32_EXTI_RTSR1 h) p, falling = bit (getreg32 STM32_EXTI_FTSR1 h) p,
      ev_enabled = bit (getreg32 STM32_EXTI_CPUEMR1 h) p, int_enabled = bit (getreg32 STM32_EXTI_CPUIMR1 h) p\<rparr>"

lemma exti_regs_distinct [simp]:
  "STM32_EXTI_RTSR1 \<noteq> STM32_EXTI_FTSR1" "STM32_EXTI_RTSR1 \<noteq> STM32_EXTI_CPUEMR1"
  "STM32_EXTI_RTSR1 \<noteq> STM32_EXTI_CPUIMR1" "STM32_EXTI_FTSR1 \<noteq> STM32_EXTI_CPUEMR1"
  "STM32_EXTI_FTSR1 \<noteq> STM32_EXTI_CPUIMR1" "STM32_EXTI_CPUEMR1 \<noteq> STM32_EXTI_CPUIMR1"
  "STM32_EXTI_RTSR1 \<noteq> STM32_EXTI_CPUPR1" "STM32_EXTI_FTSR1 \<noteq> STM32_EXTI_CPUPR1"
  "STM32_EXTI_CPUEMR1 \<noteq> STM32_EXTI_CPUPR1" "STM32_EXTI_CPUIMR1 \<noteq> STM32_EXTI_CPUPR1"
  by (simp_all add: exti_regs)

lemma exti_regs_unat [simp]:
  "unat STM32_EXTI_RTSR1 = 0x58000000" "unat STM32_EXTI_FTSR1 = 0x58000004"
  "unat STM32_EXTI_CPUIMR1 = 0x58000080" "unat STM32_EXTI_CPUEMR1 = 0x58000084"
  "unat STM32_EXTI_CPUPR1 = 0x58000088"
  by (simp_all add: exti_regs)

lemma exti_lines_gpio [simp]:
  "writes_in 0x58000400 hi h h' \<Longrightarrow> exti_lines h' = exti_lines h"
  by (auto simp: exti_lines_def writes_in_def)

lemma modify_line:
  assumes "pin < 16"
  shows "bit ((r AND NOT (if b then 0 else STM32_EXTI_MASK pin)) OR (if b then STM32_EXTI_MASK pin else 0)) p
         \<longleftrightarrow> (if p = pin then b else bit r p)"
proof -
  have "bit r p \<Longrightarrow> p < 32" by (auto dest: bit_imp_le_length)
  then show ?thesis
    using assms bit_one_hot [of pin p]
    by (auto simp: STM32_EXTI_MASK_def bit_simps simp del: push_bit_of_1)
qed

lemma on_hw_simps [simp]:
  "hw (on_hw f s) = f (hw s)" "g_gpio_callbacks (on_hw f s) = g_gpio_callbacks s"
  "g_irqvector (on_hw f s) = g_irqvector s" "env (on_hw f s) = env s"
  by (simp_all add: on_hw_def)


definition exti_irq :: "nat \<Rightarrow> int" where
  "exti_irq p = (if p < 5 then int p + STM32_IRQ_EXTI0 else if p < 10 then STM32_IRQ_EXTI95
                 else STM32_IRQ_EXTI1510)"

definition exti_isr :: "nat \<Rightarrow> 'f xcpt" where
  "exti_isr p = fst (snd (exti_group p))"

definition exti_first :: "nat \<Rightarrow> nat" where
  "exti_first p = (if p < 5 then p else if p < 10 then 5 else 10)"

definition exti_num :: "nat \<Rightarrow> nat" where
  "exti_num p = (if p < 5 then 1 else if p < 10 then 5 else 6)"

lemma exti_group_eq: "exti_group p = (exti_irq p, exti_isr p, exti_first p, exti_num p)"
  by (simp add: exti_group_def exti_irq_def exti_isr_def exti_first_def exti_num_def)

lemma exti_irq_ext [simp]: "p < 16 \<Longrightarrow> ext_irq (exti_irq p)"
  by (auto simp: ext_irq_def exti_irq_def irq_numbers)

lemma exti_irq_range [simp]: "0 \<le> exti_irq p" "exti_irq p < NR_IRQS"
  by (auto simp: exti_irq_def irq_numbers)

lemma exti_irq_group:
  "p < 16 \<Longrightarrow> q < 16 \<Longrightarrow>
   exti_irq q = exti_irq p \<longleftrightarrow> exti_first p \<le> q \<and> q < exti_first p + exti_num p"
  by (auto simp: exti_irq_def exti_first_def exti_num_def irq_numbers)

lemma exti_isr_group:
  "p < 16 \<Longrightarrow> q < 16 \<Longrightarrow> exti_irq q = exti_irq p \<Longrightarrow> exti_isr q = (exti_isr p :: 'f xcpt)"
  by (auto simp: exti_irq_def exti_isr_def exti_group_def irq_numbers split: if_splits)

lemma exti_group_bound: "p < 16 \<Longrightarrow> exti_first p + exti_num p \<le> 16"
  by (auto simp: exti_first_def exti_num_def)

lemma scan_shared_full: "scan_shared cs = length cs \<longleftrightarrow> (\<forall>c \<in> set cs. callback c = None)"
proof -
  have "scan_shared cs \<le> length cs" for cs :: "('f, 'a) gpio_callback_s list"
    by (induction cs) auto
  then show ?thesis by (induction cs) auto
qed

lemma scan_group:
  assumes "p < 16" "length cbs = 16"
  shows "scan_shared (take (exti_num p) (drop (exti_first p) cbs)) = exti_num p \<longleftrightarrow>
         (\<forall>q < 16. exti_irq q = exti_irq p \<longrightarrow> callback (cbs ! q) = None)"
proof -
  let ?cs = "take (exti_num p) (drop (exti_first p) cbs)"
  have len: "length ?cs = exti_num p"
    using exti_group_bound [OF assms(1)] assms(2) by simp
  have "(\<forall>c \<in> set ?cs. callback c = None) \<longleftrightarrow> (\<forall>i < exti_num p. callback (cbs ! (exti_first p + i)) = None)"
    using exti_group_bound [OF assms(1)] assms(2) unfolding all_set_conv_all_nth len by simp
  also have "\<dots> \<longleftrightarrow> (\<forall>q < 16. exti_irq q = exti_irq p \<longrightarrow> callback (cbs ! q) = None)"
  proof (intro iffI allI impI)
    fix q assume *: "\<forall>i < exti_num p. callback (cbs ! (exti_first p + i)) = None"
      and q: "q < 16" "exti_irq q = exti_irq p"
    then have "exti_first p \<le> q" "q - exti_first p < exti_num p"
      using exti_irq_group [OF assms(1) q(1)] by auto
    with * show "callback (cbs ! q) = None" by (metis le_add_diff_inverse)
  next
    fix i assume "\<forall>q < 16. exti_irq q = exti_irq p \<longrightarrow> callback (cbs ! q) = None" "i < exti_num p"
    then show "callback (cbs ! (exti_first p + i)) = None"
      using exti_irq_group [OF assms(1), of "exti_first p + i"] exti_group_bound [OF assms(1)] by simp
  qed
  finally show ?thesis using scan_shared_full [of ?cs] by (simp only: len)
qed

lemma writes_in_modify [simp]:
  "lo \<le> unat a \<Longrightarrow> unat a < hi \<Longrightarrow> writes_in lo hi h h' \<Longrightarrow> writes_in lo hi h (modifyreg32 a c v h')"
  by (simp add: modifyreg32_def Let_def)

lemma writes_in_trans:
  assumes "writes_in lo hi h h1" "writes_in lo' hi' h1 h2" "lo \<le> lo'" "hi' \<le> hi"
  shows "writes_in lo hi h h2"
proof -
  obtain ws ws' where
    "wlog h1 = ws @ wlog h" "\<forall>a \<in> fst ` set ws. lo \<le> unat a \<and> unat a < hi"
    "wlog h2 = ws' @ wlog h1" "\<forall>a \<in> fst ` set ws'. lo' \<le> unat a \<and> unat a < hi'"
    using assms(1,2) by (auto simp: writes_in_def)
  then have "wlog h2 = (ws' @ ws) @ wlog h" "\<forall>a \<in> fst ` set (ws' @ ws). lo \<le> unat a \<and> unat a < hi"
    using assms(3,4) by (auto intro: order_trans order_less_le_trans)
  moreover have "getreg32 a h2 = getreg32 a h" if "\<not> (lo \<le> unat a \<and> unat a < hi)" for a
    using assms that by (metis (no_types, lifting) order_trans order_less_le_trans writes_in_def)
  ultimately show ?thesis by (auto simp: writes_in_def)
qed

subsection \<open>Setting an event\<close>

text \<open>The NVIC step of \<^verbatim>\<open>stm32_gpiosetevent\<close> and the line registers it ends with.\<close>

definition setevent_nvic :: "nat \<Rightarrow> bool \<Rightarrow> bool \<Rightarrow> bus \<Rightarrow> bus" where
  "setevent_nvic pin on idle h =
     (if on then up_enable_irq (exti_irq pin) h
      else if idle then up_disable_irq (exti_irq pin) h else h)"

definition setevent_regs :: "nat \<Rightarrow> exti_line \<Rightarrow> bus \<Rightarrow> bus" where
  "setevent_regs pin l h =
     (let m = STM32_EXTI_MASK pin;
          upd = (\<lambda>a b. modifyreg32 a (if b then 0 else m) (if b then m else 0)) in
      upd STM32_EXTI_CPUIMR1 (int_enabled l) (upd STM32_EXTI_CPUEMR1 (ev_enabled l)
        (upd STM32_EXTI_FTSR1 (falling l) (upd STM32_EXTI_RTSR1 (rising l) h))))"

lemma setevent_regs_lines:
  "pin < 16 \<Longrightarrow> exti_lines (setevent_regs pin l h) = (exti_lines h)(pin := l)"
  by (rule ext) (simp add: exti_lines_def setevent_regs_def Let_def getreg32_modifyreg32 modify_line
      exti_regs_distinct [symmetric] split del: if_split, simp add: exti_lines_def)

lemma setevent_regs_writes: "writes_in 0x58000000 0x58000400 h (setevent_regs pin l h)"
  by (simp add: setevent_regs_def Let_def)

lemma up_irq_writes:
  "ext_irq i \<Longrightarrow> writes_in 0xe000e100 0xe000e200 h (up_enable_irq i h)"
  "ext_irq i \<Longrightarrow> writes_in 0xe000e100 0xe000e200 h (up_disable_irq i h)"
  using nvic_reg_range [of i] nvic_clr_unat [of i]
  by (auto simp: up_enable_irq_def up_disable_irq_def irqinfo_ext NVIC_ENA_OFFSET_def
      intro!: writes_in_put)

lemma pin_and_mask: "unat (pinset AND GPIO_PIN_MASK) = gpio_pin pinset"
  by (simp add: gpio_pin_def)

lemma setevent_state:
  fixes s :: "('f, 'a, 'w) irq_state" and pinset :: u32 and re fe event :: bool
    and func :: "'f option" and arg :: "'a option"
  defines "pin \<equiv> gpio_pin pinset"
  defines "cbs \<equiv> (g_gpio_callbacks s)[pin := \<lparr>callback = func, cbarg = arg\<rparr>]"
    and "l \<equiv> \<lparr>rising = re, falling = fe, ev_enabled = event, int_enabled = func \<noteq> None\<rparr>"
    and "ps \<equiv> (if event \<or> func \<noteq> None then pinset OR GPIO_EXTI else pinset)"
  shows "stm32_gpiosetevent pinset re fe event func arg s =
    (0, s\<lparr>hw := setevent_regs pin l (snd (stm32_configgpio ps
                 (setevent_nvic pin (func \<noteq> None)
                    (scan_shared (take (exti_num pin) (drop (exti_first pin) cbs)) = exti_num pin) (hw s)))),
          g_gpio_callbacks := cbs,
          g_irqvector := (if func \<noteq> None
             then (g_irqvector s)[nat (exti_irq pin) := \<lparr>handler = Some (exti_isr pin), vecarg = None\<rparr>]
             else g_irqvector s)\<rparr>)"
  by (cases func; cases "scan_shared (take (exti_num pin) (drop (exti_first pin) cbs)) = exti_num pin")
    (simp_all add: stm32_gpiosetevent_def pin_and_mask exti_group_eq Let_def irq_attach_def on_hw_def
      setevent_regs_def setevent_nvic_def pin_def cbs_def l_def ps_def split del: if_split cong: if_cong)

lemma setevent_nvic_enabled:
  assumes "p < 16" "ext_irq i"
  shows "nvic_enabled i (wlog (setevent_nvic p on idle h)) \<longleftrightarrow>
           (if on then i = exti_irq p \<or> nvic_enabled i (wlog h)
            else if idle then i \<noteq> exti_irq p \<and> nvic_enabled i (wlog h) else nvic_enabled i (wlog h))"
  using assms by (simp add: setevent_nvic_def nvic_enabled_up_enable nvic_enabled_up_disable)

lemma setevent_nvic_lines: "p < 16 \<Longrightarrow> exti_lines (setevent_nvic p on idle h) = exti_lines h"
  using up_irq_writes [of "exti_irq p" h]
  by (auto simp: setevent_nvic_def exti_lines_def writes_in_def)

lemma setevent_hw_nvic:
  assumes "ext_irq i"
  shows "nvic_enabled i (wlog (setevent_regs p l (snd (stm32_configgpio ps h)))) \<longleftrightarrow> nvic_enabled i (wlog h)"
  using nvic_enabled_writes_in [OF setevent_regs_writes _ assms, of p l "snd (stm32_configgpio ps h)"]
    nvic_enabled_writes_in [OF configgpio_writes_in _ assms, of ps h] by simp

lemma setevent_lines:
  "exti_lines (hw (snd (stm32_gpiosetevent pinset re fe event func arg s))) =
     (exti_lines (hw s))(gpio_pin pinset :=
        \<lparr>rising = re, falling = fe, ev_enabled = event, int_enabled = func \<noteq> None\<rparr>)"
  by (simp add: setevent_state setevent_regs_lines setevent_nvic_lines exti_lines_gpio [OF configgpio_writes_in])

lemma setevent_nvic_after:
  fixes s :: "('f, 'a, 'w) irq_state" and pinset :: u32 and re fe event :: bool
    and func :: "'f option" and arg :: "'a option"
  assumes "ext_irq i" "length (g_gpio_callbacks s) = 16"
  defines "pin \<equiv> gpio_pin pinset"
    and "cbs \<equiv> g_gpio_callbacks (snd (stm32_gpiosetevent pinset re fe event func arg s))"
  shows "nvic_enabled i (wlog (hw (snd (stm32_gpiosetevent pinset re fe event func arg s)))) \<longleftrightarrow>
    (if func \<noteq> None then i = exti_irq pin \<or> nvic_enabled i (wlog (hw s))
     else if \<forall>q < 16. exti_irq q = exti_irq pin \<longrightarrow> callback (cbs ! q) = None
     then i \<noteq> exti_irq pin \<and> nvic_enabled i (wlog (hw s)) else nvic_enabled i (wlog (hw s)))"
proof -
  have cbs: "cbs = (g_gpio_callbacks s)[pin := \<lparr>callback = func, cbarg = arg\<rparr>]"
    by (simp add: cbs_def pin_def setevent_state)
  have scan: "scan_shared (take (exti_num pin) (drop (exti_first pin) cbs)) = exti_num pin \<longleftrightarrow>
      (\<forall>q < 16. exti_irq q = exti_irq pin \<longrightarrow> callback (cbs ! q) = None)"
    by (rule scan_group) (simp_all add: assms(2) cbs pin_def)
  show ?thesis
    using assms(1) scan
    by (simp add: setevent_state setevent_hw_nvic setevent_nvic_enabled pin_def [symmetric] cbs [symmetric]
        del: gpio_pin_less) (auto simp: pin_def setevent_nvic_enabled)
qed

lemma or_exti_fields:
  "gpio_port (c OR GPIO_EXTI) = gpio_port c" "gpio_pin (c OR GPIO_EXTI) = gpio_pin c"
  "cfg_of (c OR GPIO_EXTI) = cfg_of c" "bit (c OR GPIO_EXTI) 8"
proof -
  have b: "bit GPIO_EXTI i \<longleftrightarrow> i = 8" for i
    using bit_one_hot [of 8 i] by (simp add: GPIO_EXTI_def)
  have "reg_field w s (c OR GPIO_EXTI) = reg_field w s c" if "8 < s \<or> s + w \<le> 8" for w s
    using that by (auto intro!: bit_word_eqI simp: bit_reg_field bit_simps b)
  then show "gpio_port (c OR GPIO_EXTI) = gpio_port c" "gpio_pin (c OR GPIO_EXTI) = gpio_pin c"
    "cfg_of (c OR GPIO_EXTI) = cfg_of c"
    by (simp_all add: gpio_port_field gpio_pin_field cfg_of_def Let_def bit_simps b)
  show "bit (c OR GPIO_EXTI) 8" by (simp add: bit_simps b)
qed

lemma exti_abs_far:
  assumes "writes_in lo hi h h'" "hi \<le> 0x58000400 \<or> 0x58022000 \<le> lo"
  shows "exti_abs h' = exti_abs h" "gpio_abs h' = gpio_abs h"
proof -
  have same: "getreg32 a h' = getreg32 a h" if "0x58000400 \<le> unat a" "unat a < 0x58022000" for a
    using assms that by (auto simp: writes_in_def)
  then show "exti_abs h' = exti_abs h"
    by (auto simp: exti_abs_def exti_source_def)
  have "getreg32 (afr_reg port pin) h' = getreg32 (afr_reg port pin) h" if "port < 8" for port pin
    using that by (intro same) (simp_all add: afr_reg_def)
  with same show "gpio_abs h' = gpio_abs h"
    by (auto simp: gpio_abs_def STM32H7_NGPIO_def Let_def split: prod.split intro!: ext)
qed

lemma setevent_nvic_far:
  assumes "p < 16"
  shows "exti_abs (setevent_nvic p on idle h) = exti_abs h" "gpio_abs (setevent_nvic p on idle h) = gpio_abs h"
  using exti_abs_far [OF up_irq_writes(1) [OF exti_irq_ext [OF assms]]]
    exti_abs_far [OF up_irq_writes(2) [OF exti_irq_ext [OF assms]]]
  by (auto simp: setevent_nvic_def)

lemma setevent_pin:
  fixes s :: "('f, 'a, 'w) irq_state" and func :: "'f option" and arg :: "'a option"
    and pinset :: u32 and re fe event :: bool
  assumes "event \<or> func \<noteq> None"
  defines "s' \<equiv> snd (stm32_gpiosetevent pinset re fe event func arg s)"
  shows "gpio_abs (hw s') = snd (spec_config pinset (gpio_abs (hw s)))"
    and "exti_abs (hw s') =
      (if gpio_port pinset < STM32H7_NGPIO \<and> pc_mode (cfg_of pinset) \<noteq> 1
       then (exti_abs (hw s))(gpio_pin pinset \<mapsto> word_of_nat (gpio_port pinset)) else exti_abs (hw s))"
proof -
  let ?h = "setevent_nvic (gpio_pin pinset) (func \<noteq> None)
     (scan_shared (take (exti_num (gpio_pin pinset)) (drop (exti_first (gpio_pin pinset))
        ((g_gpio_callbacks s)[gpio_pin pinset := \<lparr>callback = func, cbarg = arg\<rparr>]))) = exti_num (gpio_pin pinset))
     (hw s)"
  have far: "exti_abs (hw s') = exti_abs (snd (stm32_configgpio (pinset OR GPIO_EXTI) ?h))"
    "gpio_abs (hw s') = gpio_abs (snd (stm32_configgpio (pinset OR GPIO_EXTI) ?h))"
    using exti_abs_far [OF setevent_regs_writes] assms(1) by (auto simp: s'_def setevent_state)
  show "gpio_abs (hw s') = snd (spec_config pinset (gpio_abs (hw s)))"
    using configgpio_pins [of "pinset OR GPIO_EXTI" ?h]
    by (cases "gpio_port pinset < STM32H7_NGPIO")
      (simp_all add: far or_exti_fields spec_config_def STM32H7_NGPIO_def setevent_nvic_far)
  show "exti_abs (hw s') =
      (if gpio_port pinset < STM32H7_NGPIO \<and> pc_mode (cfg_of pinset) \<noteq> 1
       then (exti_abs (hw s))(gpio_pin pinset \<mapsto> word_of_nat (gpio_port pinset)) else exti_abs (hw s))"
    unfolding far exti_abs_configgpio or_exti_fields using gpio_pin_less [of pinset]
    by (simp add: setevent_nvic_far or_exti_fields)
qed

lemma setevent_pending [simp]:
  "getreg32 STM32_EXTI_CPUPR1 (hw (snd (stm32_gpiosetevent pinset re fe event func arg s))) =
   getreg32 STM32_EXTI_CPUPR1 (hw s)"
proof -
  have "getreg32 STM32_EXTI_CPUPR1 (setevent_regs pin l h) = getreg32 STM32_EXTI_CPUPR1 h" for pin l h
    by (simp add: setevent_regs_def Let_def getreg32_modifyreg32 exti_regs_distinct [symmetric])
  moreover have "getreg32 STM32_EXTI_CPUPR1 (snd (stm32_configgpio c h)) = getreg32 STM32_EXTI_CPUPR1 h" for c h
    using configgpio_writes_in [of h c] by (simp add: writes_in_def)
  moreover have "getreg32 STM32_EXTI_CPUPR1 (setevent_nvic (gpio_pin pinset) on idle h) =
      getreg32 STM32_EXTI_CPUPR1 h" for on idle h
    using up_irq_writes [OF exti_irq_ext [OF gpio_pin_less, of pinset], of h]
    by (simp add: writes_in_def setevent_nvic_def)
  ultimately show ?thesis by (simp add: setevent_state)
qed

subsection \<open>Reachable states\<close>

text \<open>
  The interrupt tables at start-up, and the operations that follow: setting and clearing
  events, plain pin configuration and output, and interrupts whose callbacks keep away from the
  interrupt tables.
\<close>

definition exti_start :: "('f, 'a, 'w) irq_state \<Rightarrow> bool" where
  "exti_start s \<longleftrightarrow>
     length (g_gpio_callbacks s) = 16 \<and> list_all (\<lambda>c. callback c = None) (g_gpio_callbacks s) \<and>
     length (g_irqvector s) = nat NR_IRQS \<and>
     list_all (\<lambda>p. \<not> int_enabled (exti_lines (hw s) p) \<and> \<not> nvic_enabled (exti_irq p) (wlog (hw s))) [0..<16]"

definition env_only :: "('f, 'a, 'w) caller \<Rightarrow> bool" where
  "env_only call \<longleftrightarrow> (\<forall>f irq c a s. \<exists>e. snd (call f irq c a s) = s\<lparr>env := e\<rparr>)"

inductive exti_reach :: "('f, 'a, 'w) irq_state \<Rightarrow> bool" where
  start: "exti_start s \<Longrightarrow> exti_reach s"
| setevent: "exti_reach s \<Longrightarrow> exti_reach (snd (stm32_gpiosetevent pinset re fe event func arg s))"
| configure: "exti_reach s \<Longrightarrow> exti_reach (on_hw (\<lambda>h. snd (stm32_configgpio c h)) s)"
| drive: "exti_reach s \<Longrightarrow> exti_reach (on_hw (stm32_gpiowrite c v) s)"
| interrupt: "exti_reach s \<Longrightarrow> env_only call \<Longrightarrow> irq_dispatch call (exti_irq p) context s = Some s' \<Longrightarrow>
    p < 16 \<Longrightarrow> exti_reach s'"

definition exti_inv :: "('f, 'a, 'w) irq_state \<Rightarrow> bool" where
  "exti_inv s \<longleftrightarrow>
     length (g_gpio_callbacks s) = 16 \<and> length (g_irqvector s) = nat NR_IRQS \<and>
     (\<forall>p < 16. int_enabled (exti_lines (hw s) p) \<longleftrightarrow> callback (g_gpio_callbacks s ! p) \<noteq> None) \<and>
     (\<forall>p < 16. nvic_enabled (exti_irq p) (wlog (hw s)) \<longleftrightarrow>
        (\<exists>q < 16. exti_irq q = exti_irq p \<and> callback (g_gpio_callbacks s ! q) \<noteq> None)) \<and>
     (\<forall>p < 16. callback (g_gpio_callbacks s ! p) \<noteq> None \<longrightarrow>
        handler (g_irqvector s ! nat (exti_irq p)) = Some (exti_isr p))"

lemma exti_inv_start: "exti_start s \<Longrightarrow> exti_inv s"
  by (auto simp: exti_start_def exti_inv_def list_all_length)

lemma exti_inv_hw:
  assumes "exti_inv s" "writes_in 0x58000400 0x58022000 (hw s) (f (hw s))"
  shows "exti_inv (on_hw f s)"
  using assms nvic_enabled_writes_in [OF assms(2)] by (simp add: exti_inv_def)

lemma exti_inv_setevent:
  fixes s :: "('f, 'a, 'w) irq_state"
  assumes inv: "exti_inv s"
  shows "exti_inv (snd (stm32_gpiosetevent pinset re fe event func arg s))"
proof -
  let ?pin = "gpio_pin pinset" and ?s' = "snd (stm32_gpiosetevent pinset re fe event func arg s)"
  let ?cbs = "(g_gpio_callbacks s)[?pin := \<lparr>callback = func, cbarg = arg\<rparr>]"
  have len: "length (g_gpio_callbacks s) = 16" "length (g_irqvector s) = nat NR_IRQS"
    using inv by (simp_all add: exti_inv_def)
  have cb: "g_gpio_callbacks ?s' = ?cbs" by (simp add: setevent_state)
  have vec: "nat (exti_irq p) < length (g_irqvector s)" for p
    using exti_irq_range [of p] by (simp only: len nat_less_eq_zless)
  have eq_irq: "nat (exti_irq p) = nat (exti_irq q) \<longleftrightarrow> exti_irq p = exti_irq q" for p q
    by (simp add: eq_nat_nat_iff)
  have lines: "int_enabled (exti_lines (hw ?s') p) \<longleftrightarrow> callback (?cbs ! p) \<noteq> None" if "p < 16" for p
    using inv that len unfolding setevent_lines by (auto simp: exti_inv_def nth_list_update)
  have nvic: "nvic_enabled (exti_irq p) (wlog (hw ?s')) \<longleftrightarrow>
      (\<exists>q < 16. exti_irq q = exti_irq p \<and> callback (?cbs ! q) \<noteq> None)" if "p < 16" for p
  proof (cases "exti_irq p = exti_irq ?pin")
    case True
    define idle where
      "idle \<longleftrightarrow> (\<forall>q < 16. exti_irq q = exti_irq ?pin \<longrightarrow> callback (?cbs ! q) = None)"
    note after = setevent_nvic_after [OF exti_irq_ext [OF that] len(1), of pinset re fe event func arg,
        unfolded cb True, folded idle_def]
    show ?thesis
    proof (cases "func = None \<and> idle")
      case True
      with after have "\<not> nvic_enabled (exti_irq ?pin) (wlog (hw ?s'))" by simp
      with True show ?thesis using \<open>exti_irq p = exti_irq ?pin\<close> by (auto simp: idle_def)
    next
      case False
      then obtain q where q: "q < 16" "exti_irq q = exti_irq ?pin" "callback (?cbs ! q) \<noteq> None"
      proof (cases func)
        case None
        with False that show thesis by (auto simp: idle_def)
      next
        case (Some f)
        with that [of ?pin] len(1) show thesis by simp
      qed
      have "nvic_enabled (exti_irq ?pin) (wlog (hw s))" if "func = None"
        using q inv that len(1) gpio_pin_less [of pinset]
        by (auto simp: exti_inv_def nth_list_update split: if_splits)
      with after False have "nvic_enabled (exti_irq ?pin) (wlog (hw ?s'))" by (auto split: if_splits)
      with q True show ?thesis by auto
    qed
  next
    case False
    then have "?cbs ! q = g_gpio_callbacks s ! q" if "exti_irq q = exti_irq p" for q
      using that by (metis nth_list_update_neq)
    with False show ?thesis
      using setevent_nvic_after [OF exti_irq_ext [OF that] len(1), of pinset re fe event func arg] inv that
      by (auto simp: exti_inv_def)
  qed
  have vect: "handler (g_irqvector ?s' ! nat (exti_irq p)) = Some (exti_isr p)"
    if "p < 16" "callback (?cbs ! p) \<noteq> None" for p
    using inv that len vec exti_isr_group [of ?pin p, where 'f = 'f]
    by (auto simp: setevent_state exti_inv_def nth_list_update eq_irq split: if_splits)
  show ?thesis
    using lines nvic vect len by (simp add: exti_inv_def cb) (simp add: setevent_state)
qed

lemma exti_lines_pr: "writes_in 0x58000088 0x5800008c h h' \<Longrightarrow> exti_lines h' = exti_lines h"
  by (auto simp: exti_lines_def writes_in_def)

definition keeps_tables :: "('f, 'a, 'w) irq_state \<Rightarrow> ('f, 'a, 'w) irq_state \<Rightarrow> bool" where
  "keeps_tables s s' \<longleftrightarrow>
     g_gpio_callbacks s' = g_gpio_callbacks s \<and> g_irqvector s' = g_irqvector s \<and>
     writes_in 0x58000088 0x5800008c (hw s) (hw s')"

lemma keeps_tables_inv: "keeps_tables s s' \<Longrightarrow> exti_inv s \<Longrightarrow> exti_inv s'"
proof -
  assume k: "keeps_tables s s'" and inv: "exti_inv s"
  have "exti_lines (hw s') = exti_lines (hw s)"
    using k by (simp add: keeps_tables_def exti_lines_pr)
  moreover have "nvic_enabled (exti_irq p) (wlog (hw s')) \<longleftrightarrow> nvic_enabled (exti_irq p) (wlog (hw s))"
    if "p < 16" for p
    using k that nvic_enabled_writes_in [of "0x58000088" "0x5800008c" "hw s" "hw s'" "exti_irq p"]
    by (simp add: keeps_tables_def)
  ultimately show "exti_inv s'"
    using k inv by (simp add: keeps_tables_def exti_inv_def)
qed

lemma keeps_tables_call:
  "env_only call \<Longrightarrow> keeps_tables s s1 \<Longrightarrow> keeps_tables s (snd (call f irq c a s1))"
proof -
  assume "env_only call" "keeps_tables s s1"
  moreover then obtain e where "snd (call f irq c a s1) = s1\<lparr>env := e\<rparr>"
    unfolding env_only_def by blast
  ultimately show ?thesis by (simp add: keeps_tables_def)
qed

lemma keeps_tables_pr:
  "keeps_tables s s1 \<Longrightarrow> keeps_tables s (on_hw (putreg32 v STM32_EXTI_CPUPR1) s1)"
  by (simp add: keeps_tables_def)

lemma keeps_tables_multi:
  "env_only call \<Longrightarrow> keeps_tables s s1 \<Longrightarrow>
   keeps_tables s (snd (exti_multi_loop call irq c pr pins ret s1))"
proof (induction pins arbitrary: ret s1)
  case (Cons pin pins)
  have step: "keeps_tables s (on_hw (putreg32 (push_bit pin 1) STM32_EXTI_CPUPR1) s1)"
    by (rule keeps_tables_pr) (rule Cons.prems)
  show ?case
  proof (cases "pr AND push_bit pin 1 \<noteq> 0")
    case True
    show ?thesis
    proof (cases "callback (g_gpio_callbacks s1 ! pin)")
      case None
      with True Cons.IH [OF Cons.prems(1) step] show ?thesis by (simp del: push_bit_of_1)
    next
      case (Some f)
      obtain tmp s2 where "call f irq c (cbarg (g_gpio_callbacks s1 ! pin))
          (on_hw (putreg32 (push_bit pin 1) STM32_EXTI_CPUPR1) s1) = (tmp, s2)" by (rule prod.exhaust)
      moreover from this have "keeps_tables s s2"
        using keeps_tables_call [OF Cons.prems(1) step] by (metis snd_conv)
      ultimately show ?thesis
        using True Some Cons.IH [OF Cons.prems(1)] by (simp del: push_bit_of_1)
    qed
  next
    case False
    with Cons show ?thesis by (simp del: push_bit_of_1)
  qed
qed simp

lemma keeps_tables_refl [simp]: "keeps_tables s s"
  by (simp add: keeps_tables_def)

lemma keeps_tables_single:
  "env_only call \<Longrightarrow> keeps_tables s (snd (exti_single_isr call n irq c s))"
  by (simp add: exti_single_isr_def Let_def keeps_tables_call keeps_tables_pr split: option.split)

lemma keeps_tables_multiisr:
  "env_only call \<Longrightarrow> keeps_tables s (snd (stm32_exti_multiisr call irq c lo hi s))"
  unfolding stm32_exti_multiisr_def Let_def by (rule keeps_tables_multi) simp_all

lemma keeps_tables_run:
  assumes "env_only call" "run_xcpt call x irq c a s = Some rs"
  shows "keeps_tables s (snd rs)"
proof -
  have "pred_option (\<lambda>rs. keeps_tables s (snd rs)) (run_xcpt call x irq c a s)"
    using assms(1)
    by (cases x) (simp_all add: keeps_tables_single keeps_tables_multiisr keeps_tables_call)
  with assms(2) show ?thesis by simp
qed

lemma keeps_tables_dispatch:
  assumes "env_only call" "irq_dispatch call irq c s = Some s'" shows "keeps_tables s s'"
proof -
  obtain x a rs where "run_xcpt call x irq c a s = Some rs" "s' = snd rs"
    using assms(2) by (auto simp: irq_dispatch_def Let_def split: prod.splits)
  with assms(1) show ?thesis by (metis keeps_tables_run)
qed

lemma exti_reach_inv: "exti_reach s \<Longrightarrow> exti_inv s"
proof (induction rule: exti_reach.induct)
  case (interrupt s call p ctx s')
  then show ?case by (blast intro: keeps_tables_dispatch keeps_tables_inv)
qed (simp_all add: exti_inv_start exti_inv_setevent exti_inv_hw configgpio_writes_in gpiowrite_writes_in)

subsection \<open>Delivery\<close>

text \<open>
  The calls a line's callback gets; callers whose callbacks act on the world alone, as \<open>E\<close> says,
  and one of them, which records the calls.
\<close>

definition exti_calls ::
  "('f, 'a, 'w) irq_state \<Rightarrow> int \<Rightarrow> nat \<Rightarrow> ('f \<times> int \<times> 'a option) list" where
  "exti_calls s irq q =
     (case callback (g_gpio_callbacks s ! q) of
        None \<Rightarrow> [] | Some f \<Rightarrow> [(f, irq, cbarg (g_gpio_callbacks s ! q))])"

definition env_call :: "('f \<Rightarrow> int \<Rightarrow> 'a option \<Rightarrow> 'w \<Rightarrow> int \<times> 'w) \<Rightarrow> ('f, 'a, 'w) caller" where
  "env_call E f irq c a s = (fst (E f irq a (env s)), s\<lparr>env := snd (E f irq a (env s))\<rparr>)"

definition run_calls ::
  "('f \<Rightarrow> int \<Rightarrow> 'a option \<Rightarrow> 'w \<Rightarrow> int \<times> 'w) \<Rightarrow> ('f \<times> int \<times> 'a option) list \<Rightarrow> 'w \<Rightarrow> 'w" where
  "run_calls E cs e = fold (\<lambda>(f, irq, a) e. snd (E f irq a e)) cs e"

lemma run_calls_append [simp]: "run_calls E (xs @ ys) e = run_calls E ys (run_calls E xs e)"
  by (simp add: run_calls_def)

lemma run_calls_simps [simp]:
  "run_calls E [] e = e" "run_calls E ((f, irq, a) # cs) e = run_calls E cs (snd (E f irq a e))"
  by (simp_all add: run_calls_def)

lemma env_call_only: "env_only (env_call E)"
  unfolding env_only_def env_call_def by auto

definition log_call :: "('f \<Rightarrow> int) \<Rightarrow> ('f, 'a, ('f \<times> int \<times> 'a option) list) caller" where
  "log_call r f irq c a s = (r f, s\<lparr>env := env s @ [(f, irq, a)]\<rparr>)"

definition exti_served :: "u32 \<Rightarrow> nat \<Rightarrow> nat list" where
  "exti_served pr p =
     (if p < 5 then [p] else filter (bit pr) [exti_first p..<exti_first p + exti_num p])"

definition ack :: "nat \<Rightarrow> u32 \<times> u32" where
  "ack q = (STM32_EXTI_CPUPR1, push_bit q 1)"

lemma served_less: "q \<in> set (exti_served pr p) \<Longrightarrow> p < 16 \<Longrightarrow> q < 16" "distinct (exti_served pr p)"
  by (auto simp: exti_served_def exti_first_def exti_num_def split: if_splits)

lemma multi_loop_served:
  assumes "list_all (\<lambda>q. q < 32) pins"
  shows "\<exists>ret' s'. exti_multi_loop (env_call E) irq c pr pins ret s = (ret', s') \<and>
           g_gpio_callbacks s' = g_gpio_callbacks s \<and>
           env s' = run_calls E (concat (map (exti_calls s irq) (filter (bit pr) pins))) (env s) \<and>
           wlog (hw s') = rev (map ack (filter (bit pr) pins)) @ wlog (hw s)"
  using assms
proof (induction pins arbitrary: ret s)
  case (Cons q pins)
  show ?case
  proof (cases "bit pr q")
    case True
    then have pend: "pr AND push_bit q 1 \<noteq> 0"
      using Cons.prems and_bit_iff [of q pr] by simp
    define s1 where "s1 = on_hw (putreg32 (push_bit q 1) STM32_EXTI_CPUPR1) s"
    have s1: "g_gpio_callbacks s1 = g_gpio_callbacks s" "env s1 = env s"
      "wlog (hw s1) = ack q # wlog (hw s)"
      by (simp_all add: s1_def wlog_putreg32 ack_def)
    have same: "s1\<lparr>env := env s\<rparr> = s1"
      using s1(2) by (cases s1) simp
    define s2 where "s2 = s1\<lparr>env := run_calls E (exti_calls s irq q) (env s1)\<rparr>"
    have s2: "g_gpio_callbacks s2 = g_gpio_callbacks s" "env s2 = run_calls E (exti_calls s irq q) (env s)"
      "wlog (hw s2) = ack q # wlog (hw s)"
      by (simp_all add: s2_def s1)
    obtain ret2 where "exti_multi_loop (env_call E) irq c pr (q # pins) ret s =
        exti_multi_loop (env_call E) irq c pr pins ret2 s2"
      using pend s1
      by (cases "callback (g_gpio_callbacks s ! q)")
        (auto simp: same s1_def [symmetric] s2_def exti_calls_def env_call_def Let_def simp del: push_bit_of_1)
    moreover have "exti_calls s2 irq = exti_calls s irq"
      by (rule ext) (simp only: exti_calls_def s2)
    ultimately show ?thesis
      using Cons.IH [of ret2 s2] Cons.prems True s2 by auto
  next
    case False
    then have "pr AND push_bit q 1 = 0"
      using Cons.prems and_bit_iff [of q pr] by simp
    with False Cons show ?thesis by (simp del: push_bit_of_1)
  qed
qed simp

lemma single_isr_served:
  "\<exists>ret' s'. exti_single_isr (env_call E) p irq c s = (ret', s') \<and>
     env s' = run_calls E (exti_calls s irq p) (env s) \<and> wlog (hw s') = ack p # wlog (hw s)"
  by (simp add: exti_single_isr_def Let_def exti_calls_def env_call_def ack_def wlog_putreg32
      split: option.split prod.split del: push_bit_of_1)

lemma run_isr_served:
  assumes "p < 16"
  shows "\<exists>ret' s'. run_xcpt (env_call E) (exti_isr p) irq c a s = Some (ret', s') \<and>
     env s' = run_calls E (concat (map (exti_calls s irq) (exti_served (getreg32 STM32_EXTI_CPUPR1 (hw s)) p))) (env s) \<and>
     wlog (hw s') = rev (map ack (exti_served (getreg32 STM32_EXTI_CPUPR1 (hw s)) p)) @ wlog (hw s)"
proof (cases "p < 5")
  case True
  then have "run_xcpt (env_call E) (exti_isr p) irq c a s = Some (exti_single_isr (env_call E) p irq c s)"
  proof -
    consider "p = 0" | "p = 1" | "p = 2" | "p = 3" | "p = 4" using True by linarith
    then show ?thesis by cases (simp_all add: exti_isr_def exti_group_def)
  qed
  with True single_isr_served [of E p irq c s] show ?thesis
    by (auto simp: exti_served_def)
next
  case False
  let ?pr = "getreg32 STM32_EXTI_CPUPR1 (hw s)"
  have pins: "[exti_first p..<exti_first p + exti_num p] = (if p < 10 then [5..<9 + 1] else [10..<15 + 1])"
    using False by (simp add: exti_first_def exti_num_def)
  have "run_xcpt (env_call E) (exti_isr p) irq c a s =
      Some (exti_multi_loop (env_call E) irq c ?pr [exti_first p..<exti_first p + exti_num p] 0 s)"
    unfolding pins using False
    by (simp add: exti_isr_def exti_group_def stm32_exti_multiisr_def Let_def
        del: upt_Suc exti_multi_loop.simps)
  moreover have "list_all (\<lambda>q. q < 32) [exti_first p..<exti_first p + exti_num p]"
    using exti_group_bound [OF assms] by (auto simp: list_all_iff)
  ultimately show ?thesis
    using multi_loop_served [of "[exti_first p..<exti_first p + exti_num p]" E irq c ?pr 0 s] False
    by (auto simp: exti_served_def)
qed

lemma dispatch_env:
  fixes s :: "('f, 'a, 'w) irq_state"
  assumes "exti_inv s" "p < 16" "callback (g_gpio_callbacks s ! p) \<noteq> None"
  defines "served \<equiv> exti_served (getreg32 STM32_EXTI_CPUPR1 (hw s)) p"
  shows "\<exists>s'. irq_dispatch (env_call E) (exti_irq p) c s = Some s' \<and>
           env s' = run_calls E (concat (map (exti_calls s (exti_irq p)) served)) (env s) \<and>
           wlog (hw s') = rev (map ack served) @ wlog (hw s)"
proof -
  have "handler (g_irqvector s ! nat (exti_irq p)) = Some (exti_isr p)"
    using assms(1-3) by (simp add: exti_inv_def)
  then have "irq_dispatch (env_call E) (exti_irq p) c s =
      map_option snd (run_xcpt (env_call E) (exti_isr p) (exti_irq p) c
        (vecarg (g_irqvector s ! nat (exti_irq p))) s)"
    by (simp add: irq_dispatch_def)
  then show ?thesis
    using run_isr_served [OF assms(2), of E "exti_irq p" c "vecarg (g_irqvector s ! nat (exti_irq p))" s]
    by (auto simp: served_def)
qed

lemma log_call_env: "log_call r = env_call (\<lambda>f irq a e. (r f, e @ [(f, irq, a)]))"
  by (intro ext) (simp add: log_call_def env_call_def)

lemma run_calls_log: "run_calls (\<lambda>f irq a e. (r f, e @ [(f, irq, a)])) cs e = e @ cs"
  by (induction cs arbitrary: e) (auto simp: run_calls_def)

lemma dispatch_served:
  fixes s :: "('f, 'a, ('f \<times> int \<times> 'a option) list) irq_state"
  assumes "exti_reach s" "p < 16" "callback (g_gpio_callbacks s ! p) \<noteq> None"
  defines "served \<equiv> exti_served (getreg32 STM32_EXTI_CPUPR1 (hw s)) p"
  shows "\<exists>s'. irq_dispatch (log_call r) (exti_irq p) c s = Some s' \<and>
           env s' = env s @ concat (map (exti_calls s (exti_irq p)) served) \<and>
           wlog (hw s') = rev (map ack served) @ wlog (hw s)"
  using dispatch_env [OF exti_reach_inv [OF assms(1)] assms(2,3), of "\<lambda>f irq a e. (r f, e @ [(f, irq, a)])" c]
  by (simp add: log_call_env run_calls_log served_def)

text \<open>
  C11. Interrupts reach their handlers: in every reachable state, dispatching the interrupt of
  a line that has a callback does not panic; it acknowledges exactly the pending lines of that
  interrupt, each once and in ascending order (a line with an interrupt of its own is
  acknowledged unconditionally), and calls exactly the callbacks registered for these lines, in
  that order, each with the argument it was registered with.
\<close>

theorem dispatch_delivers:
  fixes s :: "('f, 'a, ('f \<times> int \<times> 'a option) list) irq_state"
  assumes "exti_reach s" "p < 16" "callback (g_gpio_callbacks s ! p) \<noteq> None"
  defines "served \<equiv> exti_served (getreg32 STM32_EXTI_CPUPR1 (hw s)) p"
  shows "\<exists>s'. irq_dispatch (log_call r) (exti_irq p) c s = Some s' \<and>
           env s' = env s @ concat (map (exti_calls s (exti_irq p)) served) \<and>
           wlog (hw s') = rev (map ack served) @ wlog (hw s)"
  using dispatch_served [OF assms(1-3)] by (simp add: served_def)

text \<open>
  C12. The masks always match the table of callbacks: in every reachable state a line is
  unmasked at the EXTI exactly when it has a callback, and its interrupt is enabled at the NVIC
  exactly when some line sharing that interrupt has one; an interrupt that is enabled is attached to the
  dispatcher of its lines in the vector of the kernel.
\<close>

theorem exti_masks_match:
  assumes "exti_reach s" "p < 16"
  shows "(int_enabled (exti_lines (hw s) p) \<longleftrightarrow> callback (g_gpio_callbacks s ! p) \<noteq> None) \<and>
         (nvic_enabled (exti_irq p) (wlog (hw s)) \<longleftrightarrow>
          (\<exists>q < 16. exti_irq q = exti_irq p \<and> callback (g_gpio_callbacks s ! q) \<noteq> None)) \<and>
         (nvic_enabled (exti_irq p) (wlog (hw s)) \<longrightarrow> handler (g_irqvector s ! nat (exti_irq p)) = Some (exti_isr p))"
proof -
  have inv: "exti_inv s" using assms(1) by (rule exti_reach_inv)
  have "handler (g_irqvector s ! nat (exti_irq p)) = Some (exti_isr p)"
    if "q < 16" "exti_irq q = exti_irq p" "callback (g_gpio_callbacks s ! q) \<noteq> None" for q
    using inv that exti_isr_group [OF assms(2) that(1,2)] unfolding exti_inv_def by metis
  then show ?thesis using inv assms(2) unfolding exti_inv_def by blast
qed

text \<open>
  Setting an event configures exactly the line of the pin: its rising and falling edge
  triggers, event and interrupt enables become what was asked for (the interrupt enable: whether
  a handler was given), and no other line changes.
\<close>

theorem gpiosetevent_lines:
  "exti_lines (hw (snd (stm32_gpiosetevent pinset re fe event func arg s))) =
     (exti_lines (hw s))(gpio_pin pinset :=
        \<lparr>rising = re, falling = fe, ev_enabled = event, int_enabled = func \<noteq> None\<rparr>)"
  by (rule setevent_lines)

text \<open>
  C28. Setting an event or an interrupt configures the pin itself as its word asks for and
  routes the line of its number to its port, unless the pin is an output; no other pin and no
  other line is touched.
\<close>

theorem gpiosetevent_pin:
  assumes "event \<or> func \<noteq> None"
  shows "gpio_abs (hw (snd (stm32_gpiosetevent pinset re fe event func arg s))) =
           snd (spec_config pinset (gpio_abs (hw s))) \<and>
         exti_abs (hw (snd (stm32_gpiosetevent pinset re fe event func arg s))) =
           (if gpio_port pinset < STM32H7_NGPIO \<and> pc_mode (cfg_of pinset) \<noteq> 1
            then (exti_abs (hw s))(gpio_pin pinset \<mapsto> word_of_nat (gpio_port pinset))
            else exti_abs (hw s))"
  using setevent_pin [OF assms] by blast

text \<open>
  Callers that agree on all states whose registers, but for the pending ones, are those of the
  state at hand: a dispatch cannot tell them apart.
\<close>

definition same_regs :: "bus \<Rightarrow> bus \<Rightarrow> bool" where
  "same_regs h h' \<longleftrightarrow> (\<forall>r. r \<noteq> STM32_EXTI_CPUPR1 \<longrightarrow> getreg32 r h' = getreg32 r h)"

lemma same_regs_simps [simp]:
  "same_regs h h" "same_regs h0 h \<Longrightarrow> same_regs h0 (putreg32 v STM32_EXTI_CPUPR1 h)"
  by (simp_all add: same_regs_def getreg32_def putreg32_def)

lemma multi_loop_cong:
  assumes "\<And>f irq c a s'. same_regs h0 (hw s') \<Longrightarrow> call f irq c a s' = env_call E f irq c a s'" "same_regs h0 (hw s)"
  shows "exti_multi_loop call irq c pr pins ret s = exti_multi_loop (env_call E) irq c pr pins ret s"
  using assms(2)
proof (induction pins arbitrary: ret s)
  case (Cons q pins)
  let ?s1 = "on_hw (putreg32 (push_bit q 1) STM32_EXTI_CPUPR1) s"
  have s1: "same_regs h0 (hw ?s1)" using Cons.prems by (simp del: push_bit_of_1)
  have "same_regs h0 (hw (snd (env_call E f irq c a ?s1)))" for f a
    using s1 by (simp add: env_call_def del: push_bit_of_1)
  then show ?case using s1 Cons assms(1)
    by (simp add: Let_def split_beta split: option.split del: push_bit_of_1)
qed simp

lemma dispatch_cong:
  assumes "exti_inv s" "p < 16" "callback (g_gpio_callbacks s ! p) \<noteq> None"
    "\<And>f irq c a s'. same_regs (hw s) (hw s') \<Longrightarrow> call f irq c a s' = env_call E f irq c a s'"
  shows "irq_dispatch call (exti_irq p) c s = irq_dispatch (env_call E) (exti_irq p) c s"
proof -
  have v: "handler (g_irqvector s ! nat (exti_irq p)) = Some (exti_isr p)"
    using assms(1-3) by (simp add: exti_inv_def)
  have single: "exti_single_isr call n irq c s = exti_single_isr (env_call E) n irq c s" for n irq c
    using assms(4) by (simp add: exti_single_isr_def Let_def split: option.split del: push_bit_of_1)
  have multi: "stm32_exti_multiisr call irq c a b s = stm32_exti_multiisr (env_call E) irq c a b s" for irq c a b
    by (simp add: stm32_exti_multiisr_def Let_def multi_loop_cong [of "hw s", OF assms(4)] del: upt_Suc)
  have "exti_isr p = x \<Longrightarrow> run_xcpt call x irq c a s = run_xcpt (env_call E) x irq c a s" for x irq c a
    using single multi by (cases x) (auto simp: exti_isr_def exti_group_def split: if_splits)
  with v show ?thesis by (simp add: irq_dispatch_def)
qed

text \<open>
  The part \<open>V\<close> of the environment, if the handlers in \<open>Q\<close> do \<open>G\<close> to it and the others leave it alone.
\<close>

lemma run_calls_view:
  assumes "\<And>f irq a e. (f, irq, a) \<in> set cs \<Longrightarrow> V (snd (E f irq a e)) = (if Q f then G (V e) else V e)"
  shows "V (run_calls E cs e) = (G ^^ length (filter (\<lambda>c. Q (fst c)) cs)) (V e)"
  using assms
proof (induction cs arbitrary: e)
  case (Cons c cs)
  obtain f irq a where c: "c = (f, irq, a)" by (rule prod_cases3)
  have "V (run_calls E cs e') = (G ^^ length (filter (\<lambda>c. Q (fst c)) cs)) (V e')" for e'
    using Cons.prems by (intro Cons.IH) simp
  then show ?case using Cons.prems [of f irq a e] by (simp add: c funpow_swap1)
qed simp

lemma funpow_idem: "(\<And>x. G (G x) = G x) \<Longrightarrow> (G ^^ n) x = (if n = 0 then x else G x)"
  by (induction n) simp_all

subsection \<open>Witnesses\<close>

text \<open>Start-up with lines 5 and 9 pending, then a handler on pin 9 of port E.\<close>

definition demo0 :: "(nat, nat, (nat \<times> int \<times> nat option) list) irq_state" where
  "demo0 = \<lparr>hw = \<lparr>regs = (\<lambda>a. if a = STM32_EXTI_CPUPR1 then 0x220 else 0), wlog = []\<rparr>,
            g_gpio_callbacks = replicate 16 \<lparr>callback = None, cbarg = None\<rparr>,
            g_irqvector = replicate 166 \<lparr>handler = Some irq_unexpected_isr, vecarg = None\<rparr>,
            env = []\<rparr>"

definition demo1 :: "(nat, nat, (nat \<times> int \<times> nat option) list) irq_state" where
  "demo1 = snd (stm32_gpiosetevent 0x00049 True False False (Some 7) (Some 3) demo0)"

lemma demo1_reach: "exti_reach demo1"
proof -
  have "exti_start demo0"
    by (auto simp: exti_start_def demo0_def exti_lines_def getreg32_def NR_IRQS_def irq_numbers
        list_all_iff exti_regs)
  then show ?thesis unfolding demo1_def by (rule exti_reach.setevent [OF exti_reach.start])
qed

lemma demo1_table:
  "g_gpio_callbacks demo1 = (replicate 16 \<lparr>callback = None, cbarg = None\<rparr>)[9 := \<lparr>callback = Some 7, cbarg = Some 3\<rparr>]"
  "env demo1 = []"
  by (simp_all add: demo1_def setevent_state demo0_def gpio_pin_field reg_field_def take_bit_eq_mod)

lemma demo1_pending: "getreg32 STM32_EXTI_CPUPR1 (hw demo1) = 0x220"
  by (simp add: demo1_def setevent_pending) (simp add: demo0_def getreg32_def)

theorem dispatch_delivers_witness:
  "\<exists>s'. irq_dispatch (log_call (\<lambda>_. 0)) 39 None demo1 = Some s' \<and> env s' = [(7, 39, Some 3)]"
proof -
  have p: "exti_irq 9 = 39" "exti_first 9 = 5" "exti_num 9 = 5"
    by (simp_all add: exti_irq_def exti_first_def exti_num_def irq_numbers)
  have "exti_served 0x220 9 = [5, 9]"
    by (simp add: exti_served_def p upt_rec bit_iff_odd_drop_bit drop_bit_eq_div)
  then show ?thesis
    using dispatch_delivers [OF demo1_reach, of 9 "\<lambda>_. 0" None]
    by (simp add: demo1_table demo1_pending p exti_calls_def) blast
qed

theorem gpiosetevent_pin_witness:
  "exti_abs (hw demo1) 9 = Some 4 \<and> gpio_abs (hw demo1) (4, 9) = Some pin_reset"
proof -
  have f: "gpio_port 0x00049 = 4" "gpio_pin 0x00049 = 9" "cfg_of 0x00049 = pin_reset"
    by (simp_all add: gpio_port_field gpio_pin_field cfg_of_def pin_reset_def Let_def reg_field_def
        take_bit_eq_mod drop_bit_eq_div bit_iff_odd_drop_bit)
  show ?thesis
    using gpiosetevent_pin [of False "Some 7 :: nat option" "0x00049" True False "Some 3" demo0]
    by (simp add: demo1_def f spec_config_def STM32H7_NGPIO_def pin_reset_def del: word_of_gpio_port)
qed

theorem exti_masks_match_witness:
  "int_enabled (exti_lines (hw demo1) 9) \<and> \<not> int_enabled (exti_lines (hw demo1) 8) \<and>
   nvic_enabled 39 (wlog (hw demo1)) \<and> handler (g_irqvector demo1 ! 39) = Some (exti_isr 9)"
proof -
  have "exti_irq 9 = 39" by (simp add: exti_irq_def irq_numbers)
  moreover have "\<exists>q < 16. exti_irq q = exti_irq 9 \<and> callback (g_gpio_callbacks demo1 ! q) \<noteq> None"
    by (rule exI [of _ 9]) (simp add: demo1_table)
  ultimately show ?thesis
    using exti_masks_match [OF demo1_reach, of 9] exti_masks_match [OF demo1_reach, of 8]
    by (simp add: demo1_table)
qed

end
