(* ===== verification/Pin_Frame.thy ===== *)
theory Pin_Frame
  imports Stm32_Exti
begin

text \<open>
  Which pins code touches: steps on a set of pins leave the configuration and the level of every other
  pin alone, registering a callback touches one pin, and an interrupt none. The drivers that share
  the pins of the board are kept apart by these facts.
\<close>

text \<open>What code does to the bus that only configures and drives pins of the set \<open>L\<close>.\<close>

inductive pin_steps :: "(nat \<times> nat) set \<Rightarrow> bus \<Rightarrow> bus \<Rightarrow> bool" for L where
  refl: "pin_steps L h h"
| config: "pin_steps L h h1 \<Longrightarrow> gpio_loc c \<in> L \<Longrightarrow> pin_steps L h (snd (stm32_configgpio c h1))"
| drive: "pin_steps L h h1 \<Longrightarrow> gpio_loc c \<in> L \<Longrightarrow> pin_steps L h (stm32_gpiowrite c v h1)"

lemma pin_steps_trans: "pin_steps L h1 h2 \<Longrightarrow> pin_steps L h h1 \<Longrightarrow> pin_steps L h h2"
  by (induction rule: pin_steps.induct) (auto intro: pin_steps.intros)

lemma pin_steps_mono: "pin_steps L h h' \<Longrightarrow> L \<subseteq> M \<Longrightarrow> pin_steps M h h'"
  by (induction rule: pin_steps.induct) (auto intro: pin_steps.intros)

definition pin_view :: "bus \<Rightarrow> nat \<times> nat \<Rightarrow> pin_config option \<times> bool option" where
  "pin_view h p = (gpio_abs h p, level_abs h p)"

lemma pin_steps_other: "pin_steps L h h' \<Longrightarrow> p \<notin> L \<Longrightarrow> pin_view h' p = pin_view h p"
proof (induction rule: pin_steps.induct)
  case (config h h1 c)
  then have "p \<notin> gpio_loc ` set [c]" by auto
  then show ?case
    using config gpio.cfg_all_other [of p "[c]" h1] by (simp add: pin_view_def)
next
  case (drive h h1 c v)
  then have "p \<noteq> gpio_loc c" by auto
  with drive show ?case
    by (cases "gpio_valid c") (simp_all add: pin_view_def gpio.wr_level gpio.wr_pins, simp add: gpio_valid_def)
qed simp

lemma pin_steps_writes: "pin_steps L h h' \<Longrightarrow> writes_in 0x58000400 0x58022000 h h'"
proof (induction rule: pin_steps.induct)
  case (config h h1 c)
  then show ?case using configgpio_writes_in by (blast intro: writes_in_trans)
next
  case (drive h h1 c v)
  then show ?case using gpiowrite_writes_in by (blast intro: writes_in_trans)
qed simp

lemma pin_steps_config_all: "pin_steps (gpio_loc ` set cs) h (fold (\<lambda>c h. snd (stm32_configgpio c h)) cs h)"
proof -
  have "pin_steps L h (fold (\<lambda>c h. snd (stm32_configgpio c h)) cs h)" if "gpio_loc ` set cs \<subseteq> L" for L
    using that
  proof (induction cs arbitrary: h)
    case (Cons c cs)
    then have "pin_steps L h (snd (stm32_configgpio c h))" by (simp add: pin_steps.config pin_steps.refl)
    then show ?case using pin_steps_trans [OF Cons.IH [of "snd (stm32_configgpio c h)"]] Cons.prems by simp
  qed (simp add: pin_steps.refl)
  then show ?thesis by blast
qed

lemma level_far:
  assumes "writes_in lo hi h h'" "hi \<le> 0x58020000 \<or> 0x58022000 \<le> lo"
  shows "level_abs h' = level_abs h"
proof -
  obtain ws where ws: "wlog h' = ws @ wlog h" "\<forall>a \<in> fst ` set ws. lo \<le> unat a \<and> unat a < hi"
    using assms(1) by (auto simp: writes_in_def)
  have "latch port pin (ws @ l) = latch port pin l" if "port < 8" for port pin l
    using ws(2)
  proof (induction ws)
    case (Cons w ws)
    have "fst w \<noteq> g_gpiobase ! port + off" if "unat off < 0x400" for off
      using Cons.prems assms(2) gpio_reg_unat [OF \<open>port < 8\<close> that] \<open>port < 8\<close> that by auto
    then show ?case using Cons
      by (cases w) (simp add: STM32_GPIO_BSRR_OFFSET_def STM32_GPIO_ODR_OFFSET_def)
  qed simp
  then show ?thesis by (auto simp: level_abs_def ws(1) STM32H7_NGPIO_def split: prod.split)
qed

text \<open>Setting or clearing the event of an input pin drives no pin and configures that one only.\<close>

lemma setevent_input:
  assumes "gpio_valid c" "\<not> gpio_is_output c"
  shows "level_abs (hw (snd (stm32_gpiosetevent c re fe ev f a s))) = level_abs (hw s)"
    "gpio_abs (hw (snd (stm32_gpiosetevent c re fe ev f a s))) = (gpio_abs (hw s))(gpio_loc c \<mapsto> cfg_of c)"
proof -
  let ?ps = "if ev \<or> f \<noteq> None then c OR GPIO_EXTI else c"
  have ps: "gpio_valid ?ps" "\<not> gpio_is_output ?ps" "gpio_loc ?ps = gpio_loc c" "cfg_of ?ps = cfg_of c"
    using assms by (auto simp: gpio_valid_def gpio_is_output_def gpio_loc_def or_exti_fields)
  have nv: "level_abs (setevent_nvic (gpio_pin c) on idle h) = level_abs h" for on idle h
    using level_far [OF up_irq_writes(1) [OF exti_irq_ext [OF gpio_pin_less, of c]]]
      level_far [OF up_irq_writes(2) [OF exti_irq_ext [OF gpio_pin_less, of c]]]
    by (simp add: setevent_nvic_def)
  show "level_abs (hw (snd (stm32_gpiosetevent c re fe ev f a s))) = level_abs (hw s)"
    unfolding setevent_state using ps level_far [OF setevent_regs_writes] by (simp add: gpio.cfg_level nv)
  show "gpio_abs (hw (snd (stm32_gpiosetevent c re fe ev f a s))) = (gpio_abs (hw s))(gpio_loc c \<mapsto> cfg_of c)"
    unfolding setevent_state using ps exti_abs_far(2) [OF setevent_regs_writes]
    by (simp add: gpio.cfg_pins setevent_nvic_far)
qed

text \<open>Whatever the word, registering touches no pin but its own.\<close>

lemma setevent_view:
  assumes "p \<noteq> gpio_loc c"
  shows "pin_view (hw (snd (stm32_gpiosetevent c re fe ev f a s))) p = pin_view (hw s) p"
proof -
  let ?ps = "if ev \<or> f \<noteq> None then c OR GPIO_EXTI else c"
  let ?h = "\<lambda>on idle. setevent_nvic (gpio_pin c) on idle (hw s)"
  have loc: "gpio_loc ?ps = gpio_loc c" by (simp add: gpio_loc_def or_exti_fields)
  have nv: "pin_view (?h on idle) = pin_view (hw s)" for on idle
    using level_far [OF up_irq_writes(1) [OF exti_irq_ext [OF gpio_pin_less, of c]]]
      level_far [OF up_irq_writes(2) [OF exti_irq_ext [OF gpio_pin_less, of c]]] setevent_nvic_far(2) [OF gpio_pin_less, of c]
    by (simp add: pin_view_def fun_eq_iff setevent_nvic_def)
  have rg: "pin_view (setevent_regs q l h) = pin_view h" for q l h
    using level_far [OF setevent_regs_writes] exti_abs_far(2) [OF setevent_regs_writes] by (simp add: pin_view_def fun_eq_iff)
  have "pin_view (snd (stm32_configgpio ?ps h)) p = pin_view h p" for h
    using assms pin_steps_other [OF pin_steps.config [OF pin_steps.refl, of ?ps "{gpio_loc ?ps}" h]] loc by auto
  then show ?thesis unfolding setevent_state by (simp add: rg nv)
qed

lemma dispatch_view:
  assumes "keeps_tables s s'" shows "pin_view (hw s') = pin_view (hw s)"
proof -
  have w: "writes_in 0x58000088 0x5800008c (hw s) (hw s')" using assms by (simp add: keeps_tables_def)
  show ?thesis using level_far [OF w] exti_abs_far(2) [OF w] by (simp add: pin_view_def fun_eq_iff)
qed

end
