(* ===== verification/Userled_Lower.thy ===== *)
theory Userled_Lower
  imports Userled_Upper Board_Leds Pin_Frame
begin

text \<open>
  The generic lower half of the user LED driver, \<^verbatim>\<open>drivers/leds/userled_lower.c\<close>, bound to the LEDs
  of the board and registered with the upper half; and what an application sees of the LEDs
  through the device.
\<close>

subsection \<open>Initialization\<close>

record userled_low =
  g_lednum :: u32
  led_bus :: bus

type_synonym uled_state = "userled_low led_state"

definition on_led_bus :: "(bus \<Rightarrow> bus) \<Rightarrow> userled_low \<Rightarrow> userled_low" where
  "on_led_bus f l = l\<lparr>led_bus := f (led_bus l)\<rparr>"

text \<open>
  The operations are those of a build without \<^verbatim>\<open>CONFIG_USERLED_LOWER_READSTATE\<close>: with it the lower half calls
  \<^verbatim>\<open>board_userled_getall\<close>, which the board does not have.
\<close>

definition g_userled_lower :: "userled_low userled_lowerhalf_s" where
  "g_userled_lower =
     \<lparr>ll_supported = (\<lambda>l. userled_supported (g_lednum l)),
      ll_setled = (\<lambda>led ledon. on_led_bus (userled_setled led ledon)),
      ll_setall = (\<lambda>ledset. on_led_bus (userled_setall ledset)),
      ll_getall = None, ll_effect_sup = None, ll_effect_set = None\<rparr>"

definition userled_lower_initialize ::
  "(string \<Rightarrow> (string \<times> nat) list \<Rightarrow> int) \<Rightarrow> nat option \<Rightarrow> string \<Rightarrow> uled_state \<Rightarrow> int \<times> uled_state" where
  "userled_lower_initialize reserve alloc devname s =
     (let (n, h) = board_userled_initialize (led_bus (ledhw s));
          s = s\<lparr>ledhw := \<lparr>g_lednum = n, led_bus = h\<rparr>\<rparr>
      in userled_register reserve alloc devname g_userled_lower s)"

subsection \<open>The lower half keeps the contract\<close>

lemma uled_supported [simp]: "ll_supported g_userled_lower l = userled_supported (g_lednum l)"
  by (simp add: g_userled_lower_def)


definition led_loc :: "nat \<Rightarrow> nat \<times> nat" where
  "led_loc i = gpio_loc (g_ledcfg ! i)"

definition leds_lit :: "userled_low \<Rightarrow> nat set" where
  "leds_lit l = {i. i < 3 \<and> level_abs (led_bus l) (led_loc i) = Some True}"

definition leds_ready :: "userled_low \<Rightarrow> bool" where
  "leds_ready l \<longleftrightarrow> g_lednum l = 3"

lemma below_3: "i < 3 \<longleftrightarrow> i = 0 \<or> i = 1 \<or> i = (2 :: nat)" by linarith

lemma led_loc_simps [simp]: "led_loc 0 = (1, 0)" "led_loc (Suc 0) = (4, 1)" "led_loc 2 = (1, 14)"
  by (simp_all add: led_loc_def g_ledcfg_def)

lemma led_loc_inj: "i < 3 \<Longrightarrow> j < 3 \<Longrightarrow> led_loc i = led_loc j \<longleftrightarrow> i = j"
  by (auto simp: below_3)

lemma supported_3: "set_bits (userled_supported 3) = {i. i < 3}"
proof -
  have "userled_supported 3 = mask 3" by (simp add: userled_supported_def mask_eq_exp_minus_1)
  then show ?thesis by (auto simp: set_bits_def bit_mask_iff)
qed

lemma setled_level:
  assumes "i < 3"
  shows "level_abs (userled_setled (int i) on h) = (level_abs h)(led_loc i \<mapsto> on)"
proof -
  have "unat (word_of_int (int i) :: u32) = i" using assms by (simp add: unat_of_nat)
  moreover have "gpio_valid (g_ledcfg ! i)" using assms by (auto simp: g_ledcfg_def below_3)
  ultimately show ?thesis
    using assms by (simp add: userled_setled_def board_userled_def Let_def gpio.wr_level led_loc_def)
      (simp add: g_ledcfg_def)
qed

interpretation uled: led_lower g_userled_lower leds_lit leds_ready
proof unfold_locales
  fix h i v w
  show "leds_ready h \<Longrightarrow> leds_lit (ll_setall g_userled_lower w h) = set_bits w \<inter> set_bits (ll_supported g_userled_lower h)"
    by (auto simp: g_userled_lower_def leds_ready_def leds_lit_def on_led_bus_def userled_setall_def userled_all_level
        supported_3 below_3) (auto simp: set_bits_def)
  show "leds_ready h \<Longrightarrow> i \<in> set_bits (ll_supported g_userled_lower h) \<Longrightarrow>
      leds_lit (ll_setled g_userled_lower (int i) v h) = (if v then insert i (leds_lit h) else leds_lit h - {i})"
    by (auto simp: g_userled_lower_def leds_ready_def leds_lit_def on_led_bus_def supported_3 setled_level led_loc_inj
        split: if_splits)
qed (auto simp: g_userled_lower_def leds_ready_def on_led_bus_def)

subsection \<open>What the application sees\<close>

text \<open>
  The states of the device: \<open>w\<close> says whether anybody has written to it, apart from using its other
  requests.
\<close>

inductive led_reach :: "bool \<Rightarrow> uled_state \<Rightarrow> bool" where
  init: "userled_lower_initialize reserve (Some a) devname s = (r, s') \<Longrightarrow> led_reach False s'"
| op: "led_reach w s \<Longrightarrow> led_op b g_userled_lower s s' \<Longrightarrow> led_reach (w \<or> b) s'"

lemma init_ok:
  assumes "userled_lower_initialize reserve (Some a) devname s = (r, s')"
  shows "uled.led_ok s'" "uled.in_step s'" "set_bits (lu_supported (ldev s')) = {i. i < 3}"
proof -
  let ?s = "s\<lparr>ledhw := \<lparr>g_lednum = 3, led_bus = snd (board_userled_initialize (led_bus (ledhw s)))\<rparr>\<rparr>"
  have "userled_register reserve (Some a) devname g_userled_lower ?s = (r, s')"
    using assms by (simp add: userled_lower_initialize_def board_userled_initialize_def BOARD_NLEDS_def)
  then show "uled.led_ok s'" "uled.in_step s'" "set_bits (lu_supported (ldev s')) = {i. i < 3}"
    using uled.register_ok [of ?s reserve a devname r s']
    by (auto simp: leds_ready_def g_userled_lower_def supported_3)
qed

lemma led_reach_ok: "led_reach w s \<Longrightarrow> uled.led_ok s \<and> (w \<or> uled.in_step s)"
  by (induction rule: led_reach.induct) (auto dest: init_ok uled.op_ok)

lemma led_reach_sup: "led_reach w s \<Longrightarrow> set_bits (lu_supported (ldev s)) = {i. i < 3}"
  by (drule led_reach_ok) (auto simp: uled.led_ok_def leds_ready_def supported_3)

text \<open>Whatever is asked of the device, only the pins of the LEDs are driven.\<close>

lemma led_pin_steps:
  "pin_steps led_pins h (userled_setall w h)" "pin_steps led_pins h (userled_setled n v h)"
proof -
  show "pin_steps led_pins h (userled_setall w h)"
    by (simp add: userled_setall_def board_userled_all_def g_ledcfg_def led_pins_def pin_steps.intros)
  have "gpio_loc (g_ledcfg ! i) \<in> led_pins" if "i < length g_ledcfg" for i
    using that by (auto simp: g_ledcfg_def led_pins_def less_Suc_eq nth_Cons')
  then show "pin_steps led_pins h (userled_setled n v h)"
    by (simp add: userled_setled_def board_userled_def Let_def pin_steps.intros)
qed

lemma led_op_pins: "led_op w g_userled_lower s s' \<Longrightarrow> pin_steps led_pins (led_bus (ledhw s)) (led_bus (ledhw s'))"
proof (induction rule: led_op.induct)
  case (ioctl effects lock cmd r out s')
  then show ?case
    by (auto simp: userled_ioctl_def Let_def upd_ldev_def upd_ledhw_def g_userled_lower_def on_led_bus_def led_pin_steps
        pin_steps.refl split: userled_cmd.splits option.splits if_splits)
qed (auto simp: userled_open_def userled_close_def userled_write_def upd_ldev_def upd_ledhw_def g_userled_lower_def
    on_led_bus_def Let_def led_pin_steps pin_steps.refl split: option.splits if_splits)

text \<open>
  C19. The device as a set of LEDs: as long as nobody writes to it, in every state it can get into the
  request for the state of the LEDs answers with exactly those that are lit; setting one LED
  lights or darkens exactly that one, and is refused without effect for a number that is no
  LED; setting all makes exactly the requested ones lit, and is refused without effect if one of
  them is not there.
\<close>

theorem userled_shows:
  assumes "led_reach False s"
  shows "(\<exists>w. userled_ioctl g_userled_lower False effects 0 (ULEDIOC_GETALL True) s = Some (OK, Out_set w, s) \<and>
           set_bits w = leds_lit (ledhw s)) \<and>
     (\<exists>r s'. userled_ioctl g_userled_lower False effects 0 (ULEDIOC_SETLED (Some \<lparr>ul_led = n, ul_on = on\<rparr>)) s =
           Some (r, No_out, s') \<and>
        (if unat n < 3 then r = OK \<and>
           leds_lit (ledhw s') = (if on then insert (unat n) (leds_lit (ledhw s)) else leds_lit (ledhw s) - {unat n})
         else r = - EINVAL \<and> s' = s)) \<and>
     (\<exists>r s'. userled_ioctl g_userled_lower False effects 0 (ULEDIOC_SETALL v) s = Some (r, No_out, s') \<and>
        (if set_bits v \<subseteq> {i. i < 3} then r = OK \<and> leds_lit (ledhw s') = set_bits v
         else r = - EINVAL \<and> s' = s))"
proof -
  have ok: "uled.led_ok s" "uled.in_step s" using led_reach_ok [OF assms] by auto
  have sup: "set_bits (lu_supported (ldev s)) = {i. i < 3}" using assms by (rule led_reach_sup)
  show ?thesis
    using uled.setled_eq [OF ok(1), of 0 "\<lparr>ul_led = n, ul_on = on\<rparr>" False effects]
      uled.setall_eq [OF ok(1), of 0 v False effects] ok(2)
    by (cases "unat n < 3"; cases "set_bits v \<subseteq> {i. i < 3}") (auto simp: sup uled.getall_eq uled.in_step_def)
qed

text \<open>
  C37. Writing bypasses the record the driver keeps: a write of four bytes or more lights exactly the
  LEDs in the set that are there, those that are not being ignored and not refused, but the
  request for the state of the LEDs goes on answering what it did before the write.
\<close>

theorem userled_write_stale:
  assumes "led_reach w s" "4 \<le> len"
  shows "\<exists>s'. userled_write g_userled_lower 0 v len s = (4, s') \<and>
     leds_lit (ledhw s') = set_bits v \<inter> {i. i < 3} \<and>
     userled_ioctl g_userled_lower False effects 0 (ULEDIOC_GETALL True) s' =
       Some (OK, Out_set (lu_ledset (ldev s)), s')"
  using uled.write_lit [of s 0 len v] led_reach_ok [OF assms(1)] assms(2)
  by (auto simp: uled.getall_eq led_reach_sup [OF assms(1)])

text \<open>The requests that call an operation the lower half leaves NULL, in a build with effects.\<close>

fun missing_op :: "userled_cmd \<Rightarrow> bool" where
  "missing_op (ULEDIOC_SUPEFFECT e) \<longleftrightarrow> e \<noteq> None"
| "missing_op (ULEDIOC_SETEFFECT e) \<longleftrightarrow> e \<noteq> None"
| "missing_op _ \<longleftrightarrow> False"

lemma ioctl_missing:
  "userled_ioctl g_userled_lower False effects lock cmd s = None \<longleftrightarrow> 0 \<le> lock \<and> effects \<and> missing_op cmd"
  by (cases cmd) (auto simp: userled_ioctl_def g_userled_lower_def Let_def split: option.split)

lemma close_returns: "userled_close lock filep s \<noteq> None \<longleftrightarrow> lf_priv filep \<in> fst ` set (lu_open (ldev s))"
proof -
  have "userled_close lock filep s \<noteq> None \<longleftrightarrow> map_of (lu_open (ldev s)) (lf_priv filep) \<noteq> None"
    by (simp add: userled_close_def Let_def split: option.split)
  then show ?thesis unfolding map_of_eq_None_iff by simp
qed

text \<open>
  C21. The types of the device's state: in every state it can get into, whatever was asked and
  written, exactly the three LEDs of the board count as supported, the remembered set holds
  supported LEDs only, and no structure of an open file is in the list twice. A request gets stuck exactly if effects are
  configured and, with the lock taken, it asks for one, since the lower half has no operations for them; any other request returns
  and leads to such a state again. Closing a file returns exactly if its structure is still in the list.
\<close>

theorem userled_well_typed:
  assumes "led_reach w s"
  shows "set_bits (lu_supported (ldev s)) = {i. i < 3} \<and> set_bits (lu_ledset (ldev s)) \<subseteq> {i. i < 3} \<and>
     distinct (map fst (lu_open (ldev s))) \<and>
     (case userled_ioctl g_userled_lower False effects lock cmd s of
        None \<Rightarrow> 0 \<le> lock \<and> effects \<and> missing_op cmd
      | Some (r, out, s') \<Rightarrow> \<not> (0 \<le> lock \<and> effects \<and> missing_op cmd) \<and> led_reach w s') \<and>
     (userled_close lock filep s \<noteq> None \<longleftrightarrow> lf_priv filep \<in> fst ` set (lu_open (ldev s)))"
proof -
  have "set_bits (lu_supported (ldev s)) = {i. i < 3} \<and> set_bits (lu_ledset (ldev s)) \<subseteq> {i. i < 3} \<and> distinct (map fst (lu_open (ldev s)))"
    using led_reach_ok [OF assms] led_reach_sup [OF assms] by (auto simp: uled.led_ok_def)
  moreover have "case userled_ioctl g_userled_lower False effects lock cmd s of
        None \<Rightarrow> 0 \<le> lock \<and> effects \<and> missing_op cmd
      | Some (r, out, s') \<Rightarrow> \<not> (0 \<le> lock \<and> effects \<and> missing_op cmd) \<and> led_reach w s'"
  proof (cases "userled_ioctl g_userled_lower False effects lock cmd s")
    case None
    then show ?thesis using ioctl_missing [of effects lock cmd s] by simp
  next
    case (Some x)
    obtain r out s' where x: "x = (r, out, s')" by (rule prod_cases3)
    then have "led_reach w s'" using led_reach.op [where b = False, OF assms led_op.ioctl] Some by simp
    then show ?thesis using Some x ioctl_missing [of effects lock cmd s] by simp
  qed
  ultimately show ?thesis using close_returns by blast
qed

text \<open>
  A close that cannot take the lock leaves the structure marked: closing the file again reports
  success and frees nothing, so the structure stays in the list for good.
\<close>

lemma userled_close_interrupted:
  assumes "led_reach w s" "lock < 0" "(lf_priv filep, \<lparr>bo_closing = False\<rparr>) \<in> set (lu_open (ldev s))"
  shows "\<exists>s'. userled_close lock filep s = Some (lock, s') \<and>
     (\<forall>lock'. \<exists>s''. userled_close lock' filep s' = Some (OK, s'') \<and>
        map fst (lu_open (ldev s'')) = map fst (lu_open (ldev s)))"
proof -
  let ?a = "lf_priv filep" and ?os = "lu_open (ldev s)"
  have d: "distinct (map fst ?os)" using led_reach_ok [OF assms(1)] by (auto simp: uled.led_ok_def)
  have m: "map_of ?os ?a = Some \<lparr>bo_closing = False\<rparr>" using d assms(3) by (rule map_of_is_SomeI)
  have "(?a, \<lparr>bo_closing = True\<rparr>) \<in> set (set_closing ?a ?os)"
    using assms(3) by (force simp: set_closing_def)
  then have "map_of (set_closing ?a ?os) ?a = Some \<lparr>bo_closing = True\<rparr>"
    using d by (intro map_of_is_SomeI) simp_all
  with m show ?thesis using assms(2) by (simp add: userled_close_def upd_ldev_def)
qed

subsection \<open>Witnesses\<close>

definition led_zero :: uled_state where
  "led_zero = \<lparr>ledhw = \<lparr>g_lednum = 0, led_bus = bus0\<rparr>,
     ldev = \<lparr>lu_supported = 0, lu_ledset = 0, lu_open = []\<rparr>, led_nodes = []\<rparr>"

definition led_run0 :: uled_state where
  "led_run0 = snd (userled_lower_initialize (\<lambda>_ _. 0) (Some 1) ''/dev/userleds'' led_zero)"

lemma led_run0_reach: "led_reach False led_run0"
  unfolding led_run0_def by (rule led_reach.init, rule prod.collapse [symmetric])

lemma led_run0_dark: "leds_lit (ledhw led_run0) = {}"
  using led_reach_ok [OF led_run0_reach]
  by (simp add: uled.in_step_def)
    (simp add: led_run0_def userled_lower_initialize_def board_userled_initialize_def userled_register_def
      register_driver_def upd_ledhw_def Let_def)

theorem userled_shows_witness:
  "\<exists>s'. userled_ioctl g_userled_lower False False 0 (ULEDIOC_SETLED (Some \<lparr>ul_led = 1, ul_on = True\<rparr>)) led_run0 =
     Some (OK, No_out, s') \<and> leds_lit (ledhw s') = {1}"
  using userled_shows [OF led_run0_reach, of False 1 True 0] by (auto simp: led_run0_dark)

theorem userled_well_typed_witness:
  "led_reach False led_run0 \<and> set_bits (lu_ledset (ldev led_run0)) \<subseteq> {i. i < 3} \<and>
   userled_ioctl g_userled_lower False True 0 (ULEDIOC_GETALL True) led_run0 \<noteq> None \<and>
   userled_ioctl g_userled_lower False True 0 (ULEDIOC_SUPEFFECT (Some \<lparr>sup_led = 0, sup_bits = 0\<rparr>)) led_run0 = None"
  using userled_well_typed [OF led_run0_reach, where effects = True and lock = 0 and cmd = "ULEDIOC_GETALL True" and filep = "\<lparr>lf_priv = 1\<rparr>"]
    userled_well_typed [OF led_run0_reach, where effects = True and lock = 0 and
      cmd = "ULEDIOC_SUPEFFECT (Some \<lparr>sup_led = 0, sup_bits = 0\<rparr>)" and filep = "\<lparr>lf_priv = 1\<rparr>"] led_run0_reach
  by (auto split: option.splits)

theorem userled_write_stale_witness:
  "\<exists>s'. userled_write g_userled_lower 0 5 4 led_run0 = (4, s') \<and> leds_lit (ledhw s') = {0, 2} \<and>
     userled_ioctl g_userled_lower False False 0 (ULEDIOC_GETALL True) s' = Some (OK, Out_set 0, s')"
proof -
  have "set_bits 5 \<inter> {i. i < 3} = {0, 2}"
    by (auto simp: set_bits_def below_3 bit_iff_odd_drop_bit drop_bit_eq_div)
  moreover have "lu_ledset (ldev led_run0) = 0"
    by (simp add: led_run0_def userled_lower_initialize_def board_userled_initialize_def userled_register_def
      register_driver_def upd_ledhw_def Let_def)
  ultimately show ?thesis using userled_write_stale [OF led_run0_reach, of 4 5 False] by auto
qed

end
