(* ===== verification/Gpio_Upper.thy ===== *)
theory Gpio_Upper
  imports Nx_Poll Stm32_Exti "HOL-Library.Multiset"
begin

text \<open>
  The character driver of the GPIO pins, \<^verbatim>\<open>drivers/ioexpander/gpio.c\<close>: one device per pin, with
  the tasks to signal on an interrupt, the tasks that poll, and the operations of the lower half
  that drives the pin.

  Devices are a store from addresses to records; \<open>lower\<close> is the part that belongs to the lower
  half. The operations of a lower half are a record of function pointers, each of which may be
  NULL; a call through NULL has no result (\<open>None\<close>), one from an interrupt sets \<open>fault\<close>. The
  notifications sent to tasks are kept as a log, newest first. Assertions are off, as in the
  board's configuration, and so are notifications by thread; \<open>CONFIG_DEV_GPIO_NSIGNALS\<close> and
  \<open>CONFIG_DEV_GPIO_NPOLLWAITERS\<close> are the lengths of the two arrays.
\<close>

subsection \<open>Data\<close>

datatype gpio_pintype_e =
    GPIO_INPUT_PIN | GPIO_INPUT_PIN_PULLUP | GPIO_INPUT_PIN_PULLDOWN
  | GPIO_OUTPUT_PIN | GPIO_OUTPUT_PIN_OPENDRAIN
  | GPIO_INTERRUPT_PIN | GPIO_INTERRUPT_HIGH_PIN | GPIO_INTERRUPT_LOW_PIN
  | GPIO_INTERRUPT_RISING_PIN | GPIO_INTERRUPT_FALLING_PIN | GPIO_INTERRUPT_BOTH_PIN
  | GPIO_INTERRUPT_PIN_WAKEUP | GPIO_INTERRUPT_HIGH_PIN_WAKEUP | GPIO_INTERRUPT_LOW_PIN_WAKEUP
  | GPIO_INTERRUPT_RISING_PIN_WAKEUP | GPIO_INTERRUPT_FALLING_PIN_WAKEUP
  | GPIO_INTERRUPT_BOTH_PIN_WAKEUP

definition pintypes :: "gpio_pintype_e list" where
  "pintypes =
     [GPIO_INPUT_PIN, GPIO_INPUT_PIN_PULLUP, GPIO_INPUT_PIN_PULLDOWN, GPIO_OUTPUT_PIN,
      GPIO_OUTPUT_PIN_OPENDRAIN, GPIO_INTERRUPT_PIN, GPIO_INTERRUPT_HIGH_PIN,
      GPIO_INTERRUPT_LOW_PIN, GPIO_INTERRUPT_RISING_PIN, GPIO_INTERRUPT_FALLING_PIN,
      GPIO_INTERRUPT_BOTH_PIN, GPIO_INTERRUPT_PIN_WAKEUP, GPIO_INTERRUPT_HIGH_PIN_WAKEUP,
      GPIO_INTERRUPT_LOW_PIN_WAKEUP, GPIO_INTERRUPT_RISING_PIN_WAKEUP,
      GPIO_INTERRUPT_FALLING_PIN_WAKEUP, GPIO_INTERRUPT_BOTH_PIN_WAKEUP]"

text \<open>The number of an enumeration constant, and the order of the numbers.\<close>

fun index_in :: "'a list \<Rightarrow> 'a \<Rightarrow> nat" where
  "index_in [] x = 0"
| "index_in (y # ys) x = (if x = y then 0 else Suc (index_in ys x))"

definition pintype_num :: "gpio_pintype_e \<Rightarrow> nat" where
  "pintype_num t = index_in pintypes t"

lemma index_in_nth: "x \<in> set xs \<Longrightarrow> xs ! index_in xs x = x"
  by (induction xs) auto

lemma pintypes_nth: "pintypes ! pintype_num t = t"
  by (cases t) (simp_all add: pintype_num_def pintypes_def)

lemma pintype_num_inj: "pintype_num t = pintype_num u \<longleftrightarrow> t = u"
  by (metis pintypes_nth)

instantiation gpio_pintype_e :: linorder
begin

definition less_eq_gpio_pintype_e :: "gpio_pintype_e \<Rightarrow> gpio_pintype_e \<Rightarrow> bool" where
  "less_eq_gpio_pintype_e t u \<longleftrightarrow> pintype_num t \<le> pintype_num u"

definition less_gpio_pintype_e :: "gpio_pintype_e \<Rightarrow> gpio_pintype_e \<Rightarrow> bool" where
  "less_gpio_pintype_e t u \<longleftrightarrow> pintype_num t < pintype_num u"

instance
  by standard (auto simp: less_eq_gpio_pintype_e_def less_gpio_pintype_e_def pintype_num_inj)

end

definition pintype_of :: "nat \<Rightarrow> gpio_pintype_e option" where
  "pintype_of n = (if n < length pintypes then Some (pintypes ! n) else None)"

datatype pin_interrupt_t = gpio_handler_p

record 'e gpio_signal_s =
  gp_event :: 'e
  gp_pid :: int

record ('e, 'o, 'l) gpio_dev_s =
  gp_pintype :: gpio_pintype_e
  register_count :: "8 word"
  int_count :: u32
  gp_signals :: "'e gpio_signal_s list"
  gp_ops :: 'o
  fds :: "nat option list"
  lower :: 'l

record ('e, 'o, 'l) gpio_env =
  gpio_mem :: "nat \<Rightarrow> ('e, 'o, 'l) gpio_dev_s"
  pw :: poll_world
  siglog :: "(int \<times> 'e) list"
  inodes :: "(string \<times> nat) list"
  fault :: bool

type_synonym ('f, 'a, 'e, 'o, 'l) gpio_state = "('f, 'a, ('e, 'o, 'l) gpio_env) irq_state"

record 's gpio_operations_s =
  go_read :: "(nat \<Rightarrow> 's \<Rightarrow> int \<times> bool \<times> 's) option"
  go_write :: "(nat \<Rightarrow> bool \<Rightarrow> 's \<Rightarrow> int \<times> 's) option"
  go_attach :: "(nat \<Rightarrow> pin_interrupt_t option \<Rightarrow> 's \<Rightarrow> int \<times> 's) option"
  go_enable :: "(nat \<Rightarrow> bool \<Rightarrow> 's \<Rightarrow> int \<times> 's) option"
  go_setpintype :: "(nat \<Rightarrow> gpio_pintype_e \<Rightarrow> 's \<Rightarrow> int \<times> 's) option"

record gfile =
  f_dev :: nat
  f_pos :: int
  f_priv :: u32

definition gdev :: "nat \<Rightarrow> ('f, 'a, 'e, 'o, 'l) gpio_state \<Rightarrow> ('e, 'o, 'l) gpio_dev_s" where
  "gdev a s = gpio_mem (env s) a"

definition upd_dev ::
  "nat \<Rightarrow> (('e, 'o, 'l) gpio_dev_s \<Rightarrow> ('e, 'o, 'l) gpio_dev_s) \<Rightarrow>
   ('f, 'a, 'e, 'o, 'l) gpio_state \<Rightarrow> ('f, 'a, 'e, 'o, 'l) gpio_state" where
  "upd_dev a f s = s\<lparr>env := (env s)\<lparr>gpio_mem := (gpio_mem (env s))(a := f (gpio_mem (env s) a))\<rparr>\<rparr>"

subsection \<open>Interrupts\<close>

fun signal_loop :: "'e gpio_signal_s list \<Rightarrow> (int \<times> 'e) list \<Rightarrow> (int \<times> 'e) list" where
  "signal_loop [] l = l"
| "signal_loop (signal # sigs) l =
     (if gp_pid signal = 0 then l
      else signal_loop sigs ((gp_pid signal, gp_event signal) # l))"

definition gpio_handler :: "nat \<Rightarrow> ('e, 'o, 'l) gpio_env \<Rightarrow> ('e, 'o, 'l) gpio_env" where
  "gpio_handler a e =
     (let d = gpio_mem e a;
          d = d\<lparr>int_count := int_count d + 1\<rparr>;
          e = e\<lparr>gpio_mem := (gpio_mem e)(a := d)\<rparr>;
          e = e\<lparr>pw := poll_notify (fds d) POLLIN (pw e)\<rparr>
      in e\<lparr>siglog := signal_loop (gp_signals d) (siglog e)\<rparr>)"

subsection \<open>File operations\<close>

definition gpio_open :: "gfile \<Rightarrow> ('f, 'a, 'e, 'o, 'l) gpio_state \<Rightarrow> int \<times> gfile" where
  "gpio_open filep s = (OK, filep\<lparr>f_priv := int_count (gdev (f_dev filep) s)\<rparr>)"

text \<open>The result holds the return value, the character stored (if one is), the file and the state.\<close>

definition gpio_read ::
  "('o \<Rightarrow> ('f, 'a, 'e, 'o, 'l) gpio_state gpio_operations_s) \<Rightarrow> gfile \<Rightarrow> nat \<Rightarrow>
   ('f, 'a, 'e, 'o, 'l) gpio_state \<Rightarrow>
   (int \<times> char option \<times> gfile \<times> ('f, 'a, 'e, 'o, 'l) gpio_state) option" where
  "gpio_read ops filep buflen s =
     (let a = f_dev filep in
      if buflen = 0 then Some (0, None, filep, s)
      else if f_pos filep > 0 then Some (0, None, filep, s)
      else let filep = filep\<lparr>f_priv := int_count (gdev a s)\<rparr> in
      case go_read (ops (gp_ops (gdev a s))) of
        None \<Rightarrow> None
      | Some rd \<Rightarrow>
          let (ret, val, s) = rd a s in
          if ret < 0 then Some (ret, None, filep, s)
          else Some (1, Some (if val then CHR ''1'' else CHR ''0''), filep\<lparr>f_pos := 1\<rparr>, s))"

definition gpio_write ::
  "('o \<Rightarrow> ('f, 'a, 'e, 'o, 'l) gpio_state gpio_operations_s) \<Rightarrow> gfile \<Rightarrow> string \<Rightarrow>
   ('f, 'a, 'e, 'o, 'l) gpio_state \<Rightarrow> (int \<times> ('f, 'a, 'e, 'o, 'l) gpio_state) option" where
  "gpio_write ops filep buffer s =
     (let a = f_dev filep; t = gp_pintype (gdev a s) in
      if t \<noteq> GPIO_OUTPUT_PIN \<and> t \<noteq> GPIO_OUTPUT_PIN_OPENDRAIN then Some (- EACCES, s)
      else if buffer = [] then Some (0, s)
      else if hd buffer \<noteq> CHR ''0'' \<and> hd buffer \<noteq> CHR ''1'' then Some (- EINVAL, s)
      else case go_write (ops (gp_ops (gdev a s))) of
        None \<Rightarrow> None
      | Some wr \<Rightarrow>
          let (ret, s) = wr a (hd buffer = CHR ''1'') s in
          Some (if ret < 0 then ret else 1, s))"

datatype whence = SEEK_SET | SEEK_CUR | SEEK_END | whence_other

definition gpio_seek :: "gfile \<Rightarrow> int \<Rightarrow> whence \<Rightarrow> int \<times> gfile" where
  "gpio_seek filep offset wh =
     (if wh = SEEK_CUR \<or> wh = SEEK_END then (- ENOSYS, filep)
      else if wh = SEEK_SET \<and> offset = 0 then (0, filep\<lparr>f_pos := 0\<rparr>)
      else (- EINVAL, filep))"

subsection \<open>The tasks to signal\<close>

text \<open>
  The table of the tasks to signal. Registration takes the first slot that is free or that the
  task has already, and fails if there is none.
\<close>

fun sig_register :: "int \<Rightarrow> 'e \<Rightarrow> 'e gpio_signal_s list \<Rightarrow> 'e gpio_signal_s list option" where
  "sig_register pid ev [] = None"
| "sig_register pid ev (signal # sigs) =
     (if gp_pid signal = 0 \<or> gp_pid signal = pid
      then Some (signal\<lparr>gp_event := ev, gp_pid := pid\<rparr> # sigs)
      else map_option ((#) signal) (sig_register pid ev sigs))"

text \<open>Removal looks for the slot of the task, then for the last slot in use, and moves that one.\<close>

fun find_pid :: "int \<Rightarrow> 'e gpio_signal_s list \<Rightarrow> nat option" where
  "find_pid pid [] = None"
| "find_pid pid (signal # sigs) =
     (if pid = gp_pid signal then Some 0 else map_option Suc (find_pid pid sigs))"

fun find_free :: "'e gpio_signal_s list \<Rightarrow> nat" where
  "find_free [] = 0"
| "find_free (signal # sigs) = (if gp_pid signal = 0 then 0 else Suc (find_free sigs))"

definition sig_unregister :: "int \<Rightarrow> 'e gpio_signal_s list \<Rightarrow> 'e gpio_signal_s list" where
  "sig_unregister pid sigs =
     (case find_pid pid sigs of
        None \<Rightarrow> sigs
      | Some i \<Rightarrow>
          let j = i + 1 + find_free (drop (i + 1) sigs);
              j = j - 1;
              sigs = (if i \<noteq> j then sigs[i := sigs ! j] else sigs)
          in sigs[j := (sigs ! j)\<lparr>gp_pid := 0\<rparr>])"

subsection \<open>Control\<close>

definition gpioc_register ::
  "('o \<Rightarrow> ('f, 'a, 'e, 'o, 'l) gpio_state gpio_operations_s) \<Rightarrow> int \<Rightarrow> nat \<Rightarrow> 'e option \<Rightarrow>
   ('f, 'a, 'e, 'o, 'l) gpio_state \<Rightarrow> (int \<times> ('f, 'a, 'e, 'o, 'l) gpio_state) option" where
  "gpioc_register ops pid a arg s =
     (let d = gdev a s in
      if gp_pintype d \<ge> GPIO_INTERRUPT_PIN then
        (case (case arg of
                 None \<Rightarrow> Some (gp_signals d)
               | Some ev \<Rightarrow> if gp_signals d = [] then Some [] else sig_register pid ev (gp_signals d)) of
           None \<Rightarrow> Some (- EBUSY, s)
         | Some sigs \<Rightarrow>
             let s = upd_dev a (\<lambda>d. d\<lparr>gp_signals := sigs, register_count := register_count d + 1\<rparr>) s in
             if register_count d > 0 then Some (OK, s)
             else (case go_attach (ops (gp_ops (gdev a s))) of
                     None \<Rightarrow> None
                   | Some attach \<Rightarrow>
                       let (ret, s) = attach a (Some gpio_handler_p) s in
                       if ret \<ge> 0 then
                         (case go_enable (ops (gp_ops (gdev a s))) of
                            None \<Rightarrow> None
                          | Some enable \<Rightarrow> Some (enable a True s))
                       else Some (ret, s)))
      else Some (- EACCES, s))"

definition gpioc_unregister ::
  "('o \<Rightarrow> ('f, 'a, 'e, 'o, 'l) gpio_state gpio_operations_s) \<Rightarrow> int \<Rightarrow> nat \<Rightarrow>
   ('f, 'a, 'e, 'o, 'l) gpio_state \<Rightarrow> (int \<times> ('f, 'a, 'e, 'o, 'l) gpio_state) option" where
  "gpioc_unregister ops pid a s =
     (let d = gdev a s in
      if gp_pintype d \<ge> GPIO_INTERRUPT_PIN then
        (let s = upd_dev a (\<lambda>d. d\<lparr>gp_signals := sig_unregister pid (gp_signals d),
                                  register_count := register_count d - 1\<rparr>) s in
         if register_count (gdev a s) > 0 then Some (OK, s)
         else (case go_enable (ops (gp_ops (gdev a s))) of
                 None \<Rightarrow> None
               | Some enable \<Rightarrow>
                   let (ret, s) = enable a False s in
                   if ret \<ge> 0 then
                     (case go_attach (ops (gp_ops (gdev a s))) of
                        None \<Rightarrow> None
                      | Some attach \<Rightarrow> Some (attach a None s))
                   else Some (ret, s)))
      else Some (- EACCES, s))"

definition gpioc_setpintype ::
  "('o \<Rightarrow> ('f, 'a, 'e, 'o, 'l) gpio_state gpio_operations_s) \<Rightarrow> nat \<Rightarrow> nat \<Rightarrow>
   ('f, 'a, 'e, 'o, 'l) gpio_state \<Rightarrow> (int \<times> ('f, 'a, 'e, 'o, 'l) gpio_state) option" where
  "gpioc_setpintype ops a arg s =
     (case pintype_of arg of
        None \<Rightarrow> Some (- EINVAL, s)
      | Some t \<Rightarrow>
          if gp_pintype (gdev a s) = t then Some (OK, s)
          else
            (case (if gp_pintype (gdev a s) \<ge> GPIO_INTERRUPT_PIN then
                     (case go_enable (ops (gp_ops (gdev a s))) of
                        None \<Rightarrow> None
                      | Some enable \<Rightarrow> Some (enable a False s))
                   else Some (OK, s)) of
               None \<Rightarrow> None
             | Some (ret, s) \<Rightarrow>
                 if ret < 0 then Some (ret, s)
                 else (case go_setpintype (ops (gp_ops (gdev a s))) of
                         None \<Rightarrow> None
                       | Some setpintype \<Rightarrow> Some (setpintype a t s))))"

datatype 'e gpio_cmd =
    GPIOC_WRITE bool | GPIOC_READ | GPIOC_PINTYPE | GPIOC_REGISTER "'e option"
  | GPIOC_UNREGISTER | GPIOC_SETPINTYPE nat | gpioc_unknown

datatype gpio_out = Out_none | Out_bool bool | Out_pintype gpio_pintype_e

definition no_out :: "gfile \<Rightarrow> (int \<times> 's) option \<Rightarrow> (int \<times> gpio_out \<times> gfile \<times> 's) option" where
  "no_out filep r = map_option (\<lambda>(ret, s). (ret, Out_none, filep, s)) r"

definition gpio_ioctl ::
  "('o \<Rightarrow> ('f, 'a, 'e, 'o, 'l) gpio_state gpio_operations_s) \<Rightarrow> int \<Rightarrow> gfile \<Rightarrow> 'e gpio_cmd \<Rightarrow>
   ('f, 'a, 'e, 'o, 'l) gpio_state \<Rightarrow>
   (int \<times> gpio_out \<times> gfile \<times> ('f, 'a, 'e, 'o, 'l) gpio_state) option" where
  "gpio_ioctl ops pid filep cmd s =
     (let a = f_dev filep; t = gp_pintype (gdev a s) in
      case cmd of
        GPIOC_WRITE arg \<Rightarrow>
          if t = GPIO_OUTPUT_PIN \<or> t = GPIO_OUTPUT_PIN_OPENDRAIN then
            (case go_write (ops (gp_ops (gdev a s))) of
               None \<Rightarrow> None
             | Some wr \<Rightarrow> no_out filep (Some (wr a arg s)))
          else no_out filep (Some (- EACCES, s))
      | GPIOC_READ \<Rightarrow>
          (case go_read (ops (gp_ops (gdev a s))) of
             None \<Rightarrow> None
           | Some rd \<Rightarrow>
               let (ret, val, s') = rd a s in
               Some (ret, Out_bool val, filep\<lparr>f_priv := int_count (gdev a s)\<rparr>, s'))
      | GPIOC_PINTYPE \<Rightarrow> Some (OK, Out_pintype t, filep, s)
      | GPIOC_REGISTER arg \<Rightarrow> no_out filep (gpioc_register ops pid a arg s)
      | GPIOC_UNREGISTER \<Rightarrow> no_out filep (gpioc_unregister ops pid a s)
      | GPIOC_SETPINTYPE arg \<Rightarrow> no_out filep (gpioc_setpintype ops a arg s)
      | gpioc_unknown \<Rightarrow> no_out filep (Some (- ENOTTY, s)))"

subsection \<open>Polling\<close>

definition on_pw :: "(poll_world \<Rightarrow> poll_world) \<Rightarrow> ('f, 'a, 'e, 'o, 'l) gpio_state \<Rightarrow> ('f, 'a, 'e, 'o, 'l) gpio_state" where
  "on_pw g s = s\<lparr>env := (env s)\<lparr>pw := g (pw (env s))\<rparr>\<rparr>"

definition gpio_poll ::
  "gfile \<Rightarrow> nat \<Rightarrow> bool \<Rightarrow> ('f, 'a, 'e, 'o, 'l) gpio_state \<Rightarrow> int \<times> ('f, 'a, 'e, 'o, 'l) gpio_state" where
  "gpio_poll filep p setup s =
     (let a = f_dev filep in
      if setup then
        (case free_slot (fds (gdev a s)) of
           Some i \<Rightarrow>
             let s = upd_dev a (\<lambda>d. d\<lparr>fds := (fds d)[i := Some p]\<rparr>) s;
                 s = on_pw (set_priv p (Some (a, i))) s
             in (OK, if int_count (gdev a s) \<noteq> f_priv filep
                     then on_pw (poll_notify [Some p] POLLIN) s else s)
         | None \<Rightarrow> (- EBUSY, on_pw (set_priv p None) s))
      else
        (case priv (pollfds (pw (env s)) p) of
           Some (a', i) \<Rightarrow>
             (OK, on_pw (set_priv p None) (upd_dev a' (\<lambda>d. d\<lparr>fds := (fds d)[i := None]\<rparr>) s))
         | None \<Rightarrow> (OK, s)))"

subsection \<open>Registration of the devices\<close>

text \<open>
  Decimal numbers, as \<^verbatim>\<open>snprintf\<close> prints them. \<open>remove\<close> is what \<^verbatim>\<open>unregister_driver\<close> does to the
  inodes.
\<close>

fun dec_str :: "nat \<Rightarrow> string" where
  "dec_str n = (if n < 10 then [''0123456789'' ! n] else dec_str (n div 10) @ [''0123456789'' ! (n mod 10)])"

declare dec_str.simps [simp del]

definition gpio_register_driver ::
  "(string \<Rightarrow> (string \<times> nat) list \<Rightarrow> int) \<Rightarrow> string \<Rightarrow> nat \<Rightarrow>
   ('f, 'a, 'e, 'o, 'l) gpio_state \<Rightarrow> int \<times> ('f, 'a, 'e, 'o, 'l) gpio_state" where
  "gpio_register_driver reserve path a s =
     (let (ret, ns) = register_driver reserve path a (inodes (env s))
      in (ret, s\<lparr>env := (env s)\<lparr>inodes := ns\<rparr>\<rparr>))"

definition gpio_pin_register_byname ::
  "('o \<Rightarrow> ('f, 'a, 'e, 'o, 'l) gpio_state gpio_operations_s) \<Rightarrow> (string \<Rightarrow> (string \<times> nat) list \<Rightarrow> int) \<Rightarrow>
   nat \<Rightarrow> string \<Rightarrow> ('f, 'a, 'e, 'o, 'l) gpio_state \<Rightarrow> (int \<times> ('f, 'a, 'e, 'o, 'l) gpio_state) option" where
  "gpio_pin_register_byname ops reserve a pinname s =
     (case (if gp_pintype (gdev a s) \<in> {GPIO_INPUT_PIN, GPIO_INPUT_PIN_PULLUP, GPIO_INPUT_PIN_PULLDOWN,
                                        GPIO_OUTPUT_PIN, GPIO_OUTPUT_PIN_OPENDRAIN}
            then Some (OK, s)
            else map_option (\<lambda>enable. enable a False s) (go_enable (ops (gp_ops (gdev a s))))) of
        None \<Rightarrow> None
      | Some (ret, s) \<Rightarrow>
          if ret < 0 then Some (ret, s)
          else Some (gpio_register_driver reserve (take 31 (''/dev/'' @ pinname)) a s))"

definition gpio_pin_register ::
  "('o \<Rightarrow> ('f, 'a, 'e, 'o, 'l) gpio_state gpio_operations_s) \<Rightarrow> (string \<Rightarrow> (string \<times> nat) list \<Rightarrow> int) \<Rightarrow>
   nat \<Rightarrow> nat \<Rightarrow> ('f, 'a, 'e, 'o, 'l) gpio_state \<Rightarrow> (int \<times> ('f, 'a, 'e, 'o, 'l) gpio_state) option" where
  "gpio_pin_register ops reserve a minor s =
     gpio_pin_register_byname ops reserve a (take 15 (''gpio'' @ dec_str minor)) s"

definition gpio_pin_unregister_byname ::
  "(string \<Rightarrow> (string \<times> nat) list \<Rightarrow> int \<times> (string \<times> nat) list) \<Rightarrow> nat \<Rightarrow> string \<Rightarrow>
   ('f, 'a, 'e, 'o, 'l) gpio_state \<Rightarrow> int \<times> ('f, 'a, 'e, 'o, 'l) gpio_state" where
  "gpio_pin_unregister_byname remove a pinname s =
     (let (ret, ns) = remove (take 31 (''/dev/'' @ pinname)) (inodes (env s))
      in (ret, s\<lparr>env := (env s)\<lparr>inodes := ns\<rparr>\<rparr>))"

definition gpio_pin_unregister ::
  "(string \<Rightarrow> (string \<times> nat) list \<Rightarrow> int \<times> (string \<times> nat) list) \<Rightarrow> nat \<Rightarrow> nat \<Rightarrow>
   ('f, 'a, 'e, 'o, 'l) gpio_state \<Rightarrow> int \<times> ('f, 'a, 'e, 'o, 'l) gpio_state" where
  "gpio_pin_unregister remove a minor s =
     gpio_pin_unregister_byname remove a (take 15 (''gpio'' @ dec_str minor)) s"

subsection \<open>The table of the tasks to signal is a map\<close>

text \<open>
  The table in use is its prefix up to the first free slot. The invariant is that no task has
  two slots and that no slot behind the prefix is in use; the table then stands for a map from
  tasks to their events.
\<close>

definition sig_used :: "'e gpio_signal_s list \<Rightarrow> 'e gpio_signal_s list" where
  "sig_used sigs = takeWhile (\<lambda>s. gp_pid s \<noteq> 0) sigs"

definition sig_inv :: "'e gpio_signal_s list \<Rightarrow> bool" where
  "sig_inv sigs \<longleftrightarrow>
     distinct (map gp_pid (sig_used sigs)) \<and>
     list_all (\<lambda>s. gp_pid s = 0) (dropWhile (\<lambda>s. gp_pid s \<noteq> 0) sigs)"

definition sig_abs :: "'e gpio_signal_s list \<Rightarrow> int \<rightharpoonup> 'e" where
  "sig_abs sigs = map_of (map (\<lambda>s. (gp_pid s, gp_event s)) (sig_used sigs))"

lemma sig_split:
  assumes "sig_inv sigs"
  obtains us fs where "sigs = us @ fs" "list_all (\<lambda>s. gp_pid s \<noteq> 0) us"
    "list_all (\<lambda>s. gp_pid s = 0) fs" "distinct (map gp_pid us)"
proof
  show "sigs = sig_used sigs @ dropWhile (\<lambda>s. gp_pid s \<noteq> 0) sigs"
    by (simp add: sig_used_def)
  show "list_all (\<lambda>s. gp_pid s \<noteq> 0) (sig_used sigs)"
    by (auto simp: sig_used_def list_all_iff dest: set_takeWhileD)
qed (use assms in \<open>simp_all add: sig_inv_def\<close>)

lemma sig_used_app:
  assumes "list_all (\<lambda>s. gp_pid s \<noteq> 0) us" "list_all (\<lambda>s. gp_pid s = 0) fs"
  shows "sig_used (us @ fs) = us" "dropWhile (\<lambda>s. gp_pid s \<noteq> 0) (us @ fs) = fs"
  using assms by (cases fs; simp add: sig_used_def list_all_iff takeWhile_append dropWhile_append2)+

lemma sig_app:
  assumes "list_all (\<lambda>s. gp_pid s \<noteq> 0) us" "list_all (\<lambda>s. gp_pid s = 0) fs"
  shows "sig_inv (us @ fs) \<longleftrightarrow> distinct (map gp_pid us)"
    "sig_abs (us @ fs) = map_of (map (\<lambda>s. (gp_pid s, gp_event s)) us)"
  using assms by (simp_all add: sig_inv_def sig_abs_def sig_used_app)

lemma sig_register_new:
  assumes "pid \<notin> gp_pid ` set us" "list_all (\<lambda>s. gp_pid s \<noteq> 0) us" "list_all (\<lambda>s. gp_pid s = 0) fs"
  shows "sig_register pid ev (us @ fs) =
    (case fs of [] \<Rightarrow> None | f # fs \<Rightarrow> Some (us @ f\<lparr>gp_event := ev, gp_pid := pid\<rparr> # fs))"
  using assms by (induction us) (auto split: list.split)

lemma sig_register_old:
  assumes "pid \<notin> gp_pid ` set xs" "list_all (\<lambda>s. gp_pid s \<noteq> 0) xs" "gp_pid s = pid"
  shows "sig_register pid ev (xs @ s # ys) = Some (xs @ s\<lparr>gp_event := ev, gp_pid := pid\<rparr> # ys)"
  using assms by (induction xs) auto

lemma split_pid:
  assumes "pid \<in> gp_pid ` set us" "distinct (map gp_pid us)"
  obtains xs s ys where "us = xs @ s # ys" "gp_pid s = pid" "pid \<notin> gp_pid ` set xs" "pid \<notin> gp_pid ` set ys"
proof -
  obtain s where "s \<in> set us" "gp_pid s = pid" using assms(1) by auto
  then obtain xs ys where "us = xs @ s # ys" by (meson split_list)
  with assms(2) \<open>gp_pid s = pid\<close> show thesis by (intro that) auto
qed

lemma sig_register_abs:
  assumes "sig_inv sigs" "pid \<noteq> 0"
  shows "case sig_register pid ev sigs of
      None \<Rightarrow> sig_abs sigs pid = None \<and> length (sig_used sigs) = length sigs
    | Some sigs' \<Rightarrow> sig_inv sigs' \<and> sig_abs sigs' = (sig_abs sigs)(pid \<mapsto> ev) \<and> length sigs' = length sigs"
proof -
  obtain us fs where sp: "sigs = us @ fs" "list_all (\<lambda>s. gp_pid s \<noteq> 0) us"
    "list_all (\<lambda>s. gp_pid s = 0) fs" "distinct (map gp_pid us)"
    using assms(1) by (rule sig_split)
  show ?thesis
  proof (cases "pid \<in> gp_pid ` set us")
    case True
    then obtain xs s ys where us: "us = xs @ s # ys" "gp_pid s = pid" "pid \<notin> gp_pid ` set xs" "pid \<notin> gp_pid ` set ys"
      using sp(4) by (rule split_pid)
    let ?s = "s\<lparr>gp_event := ev, gp_pid := pid\<rparr>"
    have all: "list_all (\<lambda>s. gp_pid s \<noteq> 0) (xs @ ?s # ys)" using sp(2) us assms(2) by simp
    have reg: "sig_register pid ev sigs = Some ((xs @ ?s # ys) @ fs)"
      using sig_register_old [OF us(3) _ us(2), of ev "ys @ fs"] sp us by simp
    have "map_of (map (\<lambda>s. (gp_pid s, gp_event s)) xs) pid = None"
      using us(3) by (auto simp: map_of_eq_None_iff image_iff)
    then have "map_of (map (\<lambda>s. (gp_pid s, gp_event s)) (xs @ ?s # ys)) =
        (map_of (map (\<lambda>s. (gp_pid s, gp_event s)) us))(pid \<mapsto> ev)"
      using us by (auto simp: map_add_def fun_eq_iff split: option.split)
    moreover have "distinct (map gp_pid (xs @ ?s # ys))" using sp(4) us by simp
    ultimately have "sig_inv ((xs @ ?s # ys) @ fs)" "sig_abs ((xs @ ?s # ys) @ fs) = (sig_abs sigs)(pid \<mapsto> ev)"
      "length ((xs @ ?s # ys) @ fs) = length sigs"
      using sig_app [OF all sp(3)] sig_app [OF sp(2,3)] us(1) sp(1) by (simp_all only:) simp
    then show ?thesis unfolding reg option.case by blast
  next
    case False
    note new = sig_register_new [OF False sp(2,3), of ev]
    have none: "map_of (map (\<lambda>s. (gp_pid s, gp_event s)) us) pid = None"
      using False by (auto simp: map_of_eq_None_iff image_iff)
    show ?thesis
    proof (cases fs)
      case Nil
      then have "sig_abs sigs pid = None" "length (sig_used sigs) = length sigs"
        using sp(1) none sig_app(2) [OF sp(2,3)] sig_used_app(1) [OF sp(2,3)] by simp_all
      then show ?thesis using new sp(1) Nil by simp
    next
      case (Cons f fs')
      let ?us = "us @ [f\<lparr>gp_event := ev, gp_pid := pid\<rparr>]"
      have all: "list_all (\<lambda>s. gp_pid s \<noteq> 0) ?us" "list_all (\<lambda>s. gp_pid s = 0) fs'"
        using sp assms(2) Cons by simp_all
      have "sig_register pid ev sigs = Some (?us @ fs')" using new sp Cons by simp
      moreover have "map_of (map (\<lambda>s. (gp_pid s, gp_event s)) ?us) =
          (map_of (map (\<lambda>s. (gp_pid s, gp_event s)) us))(pid \<mapsto> ev)"
        using none by (auto simp: map_add_def fun_eq_iff split: option.split)
      ultimately show ?thesis
        using sp False Cons sig_app [OF all] sig_app [OF sp(2,3)] by simp
    qed
  qed
qed

lemma find_pid_None: "pid \<notin> gp_pid ` set sigs \<Longrightarrow> find_pid pid sigs = None"
  by (induction sigs) auto

lemma find_pid_Some:
  "pid \<notin> gp_pid ` set xs \<Longrightarrow> gp_pid s = pid \<Longrightarrow> find_pid pid (xs @ s # ys) = Some (length xs)"
  by (induction xs) auto

lemma find_free_app:
  "list_all (\<lambda>s. gp_pid s \<noteq> 0) ys \<Longrightarrow> list_all (\<lambda>s. gp_pid s = 0) fs \<Longrightarrow> find_free (ys @ fs) = length ys"
  by (induction ys) (cases fs, auto)

text \<open>Removing the task of slot \<open>s\<close> moves the last task in use, if it is another one, into its place.\<close>

lemma sig_unregister_at:
  assumes "pid \<notin> gp_pid ` set xs" "gp_pid s = pid" "list_all (\<lambda>s. gp_pid s \<noteq> 0) ys"
    "list_all (\<lambda>s. gp_pid s = 0) fs"
  shows "sig_unregister pid ((xs @ s # ys) @ fs) =
    (if ys = [] then xs @ s\<lparr>gp_pid := 0\<rparr> # fs
     else (xs @ last ys # butlast ys) @ (last ys)\<lparr>gp_pid := 0\<rparr> # fs)"
proof -
  have i: "find_pid pid ((xs @ s # ys) @ fs) = Some (length xs)"
    using find_pid_Some [OF assms(1,2), of "ys @ fs"] by simp
  have j: "find_free (drop (length xs + 1) ((xs @ s # ys) @ fs)) = length ys"
    using find_free_app [OF assms(3,4)] by simp
  show ?thesis
  proof (cases ys rule: rev_cases)
    case Nil
    then show ?thesis using i j by (simp add: sig_unregister_def Let_def)
  next
    case (snoc ys' y)
    then show ?thesis
      using i j by (simp add: sig_unregister_def Let_def nth_append list_update_append)
  qed
qed

lemma sig_unregister_abs:
  assumes "sig_inv sigs" "pid \<noteq> 0"
  shows "sig_inv (sig_unregister pid sigs) \<and> sig_abs (sig_unregister pid sigs) = (sig_abs sigs)(pid := None) \<and>
    length (sig_unregister pid sigs) = length sigs"
proof -
  let ?kv = "map (\<lambda>s. (gp_pid s, gp_event s)) :: 'a gpio_signal_s list \<Rightarrow> (int \<times> 'a) list"
  obtain us fs where sp: "sigs = us @ fs" "list_all (\<lambda>s. gp_pid s \<noteq> 0) us"
    "list_all (\<lambda>s. gp_pid s = 0) fs" "distinct (map gp_pid us)"
    using assms(1) by (rule sig_split)
  show ?thesis
  proof (cases "pid \<in> gp_pid ` set us")
    case True
    then obtain xs s ys where us: "us = xs @ s # ys" "gp_pid s = pid" "pid \<notin> gp_pid ` set xs" "pid \<notin> gp_pid ` set ys"
      using sp(4) by (rule split_pid)
    define us' where "us' = (if ys = [] then xs else xs @ last ys # butlast ys)"
    define f where "f = (if ys = [] then s else last ys)\<lparr>gp_pid := 0\<rparr>"
    have un: "sig_unregister pid sigs = us' @ f # fs"
      using sig_unregister_at [OF us(3,2) _ sp(3), of ys] sp us by (simp add: us'_def f_def)
    have mset: "mset us' = mset xs + mset ys"
      by (cases ys rule: rev_cases) (simp_all add: us'_def)
    have set: "set us' = set xs \<union> set ys" using arg_cong [OF mset, of set_mset] by simp
    have "mset (map gp_pid us') = mset (map gp_pid (xs @ ys))" using mset by simp
    then have dist: "distinct (map gp_pid us')"
      using sp(4) us(1) mset_eq_imp_distinct_iff [of "map gp_pid us'" "map gp_pid (xs @ ys)"] by auto
    have all: "list_all (\<lambda>s. gp_pid s \<noteq> 0) us'" "list_all (\<lambda>s. gp_pid s = 0) (f # fs)"
      using sp us set by (auto simp: list_all_iff f_def)
    have none: "map_of (?kv xs) pid = None" "map_of (?kv ys) pid = None"
      using us(3,4) by (auto simp: map_of_eq_None_iff image_iff)
    have "map_of (?kv us') = map_of (?kv (xs @ ys))"
      using dist sp(4) us(1) set by (subst map_of_inject_set) (auto simp: comp_def)
    also have "\<dots> = (map_of (?kv us))(pid := None)"
      using us(1,2) none by (auto simp: map_add_def fun_eq_iff split: option.split)
    finally have "map_of (?kv us') = (map_of (?kv us))(pid := None)" .
    then show ?thesis
      using dist un sp us sig_app [OF all] sig_app [OF sp(2,3)] arg_cong [OF mset, of size] by simp
  next
    case False
    then have "pid \<notin> gp_pid ` set sigs" using sp assms(2) by (auto simp: list_all_iff)
    then have un: "sig_unregister pid sigs = sigs" by (simp add: sig_unregister_def find_pid_None)
    have "map_of (?kv us) pid = None" using False by (auto simp: map_of_eq_None_iff image_iff)
    then show ?thesis using assms(1) sig_app(2) [OF sp(2,3)] un unfolding sp(1) by (simp add: fun_upd_idem)
  qed
qed

subsection \<open>Subscription as an interface\<close>

text \<open>
  What a client may rely on: subscribing and unsubscribing are the update and the deletion of
  one entry of a map, as long as there is room, and they keep the invariant.
\<close>

datatype ('p, 'e) sub_op = Subscribe 'p 'e | Unsubscribe 'p

fun sub_spec :: "('p, 'e) sub_op \<Rightarrow> ('p \<rightharpoonup> 'e) \<Rightarrow> 'p \<rightharpoonup> 'e" where
  "sub_spec (Subscribe p e) M = M(p \<mapsto> e)"
| "sub_spec (Unsubscribe p) M = M(p := None)"

locale subscribers =
  fixes sub :: "'p \<Rightarrow> 'e \<Rightarrow> 't \<Rightarrow> 't option" and unsub :: "'p \<Rightarrow> 't \<Rightarrow> 't"
    and inv :: "'t \<Rightarrow> bool" and subs :: "'t \<Rightarrow> 'p \<rightharpoonup> 'e" and size_of :: "'t \<Rightarrow> nat"
    and task :: "'p \<Rightarrow> bool"
  assumes sub_ok: "inv t \<Longrightarrow> task p \<Longrightarrow> sub p e t = Some t' \<Longrightarrow>
      inv t' \<and> subs t' = (subs t)(p \<mapsto> e) \<and> size_of t' = size_of t"
    and sub_full: "inv t \<Longrightarrow> task p \<Longrightarrow> sub p e t = None \<Longrightarrow>
      subs t p = None \<and> card (dom (subs t)) = size_of t"
    and unsub_ok: "inv t \<Longrightarrow> task p \<Longrightarrow>
      inv (unsub p t) \<and> subs (unsub p t) = (subs t)(p := None) \<and> size_of (unsub p t) = size_of t"
    and subs_fin: "finite (dom (subs t))"
begin

definition op_task :: "('p, 'e) sub_op \<Rightarrow> bool" where
  "op_task c = (case c of Subscribe p e \<Rightarrow> task p | Unsubscribe p \<Rightarrow> task p)"

text \<open>A request that fails leaves the table as it is.\<close>

fun run_op :: "('p, 'e) sub_op \<Rightarrow> 't \<Rightarrow> 't" where
  "run_op (Subscribe p e) t = (case sub p e t of None \<Rightarrow> t | Some t' \<Rightarrow> t')"
| "run_op (Unsubscribe p) t = unsub p t"

lemma run_inv: "inv t \<Longrightarrow> list_all op_task cs \<Longrightarrow> inv (fold run_op cs t) \<and> size_of (fold run_op cs t) = size_of t"
proof (induction cs arbitrary: t)
  case (Cons c cs)
  have "inv (run_op c t) \<and> size_of (run_op c t) = size_of t"
    using Cons.prems sub_ok unsub_ok by (cases c) (auto simp: op_task_def split: option.split)
  with Cons show ?case by simp
qed simp

text \<open>With room for all the tasks involved no request fails, and the table is the map.\<close>

lemma run_spec:
  assumes "inv t" "list_all op_task cs" "dom (subs t) \<subseteq> T" "finite T" "card T \<le> size_of t"
    "\<forall>p e. Subscribe p e \<in> set cs \<longrightarrow> p \<in> T"
  shows "subs (fold run_op cs t) = fold sub_spec cs (subs t)"
  using assms
proof (induction cs arbitrary: t)
  case (Cons c cs)
  have step: "inv (run_op c t)" "subs (run_op c t) = sub_spec c (subs t)" "size_of (run_op c t) = size_of t"
  proof -
    have "sub p e t \<noteq> None" if "c = Subscribe p e" for p e
    proof
      assume "sub p e t = None"
      then have full: "subs t p = None" "card (dom (subs t)) = size_of t"
        using sub_full Cons.prems that by (auto simp: op_task_def)
      have "insert p (dom (subs t)) \<subseteq> T" using Cons.prems that by auto
      then have "card (insert p (dom (subs t))) \<le> card T" using Cons.prems(4) by (rule card_mono [rotated])
      then show False using full Cons.prems(5) subs_fin [of t] by (simp add: domIff)
    qed
    then show "inv (run_op c t)" "subs (run_op c t) = sub_spec c (subs t)" "size_of (run_op c t) = size_of t"
      using Cons.prems sub_ok unsub_ok by (cases c; auto simp: op_task_def)+
  qed
  have "dom (subs (run_op c t)) \<subseteq> T" using Cons.prems step by (cases c) auto
  moreover have "\<forall>p e. Subscribe p e \<in> set cs \<longrightarrow> p \<in> T" using Cons.prems(6) by simp
  ultimately have "subs (fold run_op cs (run_op c t)) = fold sub_spec cs (subs (run_op c t))"
    using Cons.IH [OF step(1)] Cons.prems step(3) by simp
  then show ?case using step by simp
qed simp

end

interpretation sigs: subscribers sig_register sig_unregister sig_inv sig_abs length "\<lambda>pid. pid \<noteq> 0"
proof unfold_locales
  fix t t' :: "'a gpio_signal_s list" and p :: int and e :: 'a
  assume inv: "sig_inv t" "p \<noteq> 0"
  show "sig_register p e t = Some t' \<Longrightarrow>
      sig_inv t' \<and> sig_abs t' = (sig_abs t)(p \<mapsto> e) \<and> length t' = length t"
    using sig_register_abs [OF inv, of e] by simp
  show "sig_inv (sig_unregister p t) \<and> sig_abs (sig_unregister p t) = (sig_abs t)(p := None) \<and>
      length (sig_unregister p t) = length t"
    using sig_unregister_abs [OF inv] .
  assume full: "sig_register p e t = None"
  have "card (dom (sig_abs t)) = card (gp_pid ` set (sig_used t))"
    by (simp add: sig_abs_def dom_map_of_conv_image_fst image_image)
  also have "\<dots> = length (sig_used t)"
    using inv(1) distinct_card [of "map gp_pid (sig_used t)"] by (simp add: sig_inv_def)
  finally show "sig_abs t p = None \<and> card (dom (sig_abs t)) = length t"
    using sig_register_abs [OF inv, of e] full by simp
qed (simp add: sig_abs_def finite_dom_map_of)

lemma signal_loop_used:
  "signal_loop sigs l = rev (map (\<lambda>s. (gp_pid s, gp_event s)) (sig_used sigs)) @ l"
  by (induction sigs arbitrary: l) (auto simp: sig_used_def)

text \<open>
  The requests of the driver on the table, in the order they are made; a request that finds no
  room is refused and leaves the table alone.
\<close>

fun sig_run :: "(int, 'e) sub_op list \<Rightarrow> 'e gpio_signal_s list \<Rightarrow> 'e gpio_signal_s list" where
  "sig_run [] sigs = sigs"
| "sig_run (Subscribe pid ev # cs) sigs =
     sig_run cs (case sig_register pid ev sigs of None \<Rightarrow> sigs | Some sigs' \<Rightarrow> sigs')"
| "sig_run (Unsubscribe pid # cs) sigs = sig_run cs (sig_unregister pid sigs)"

lemma sig_run_fold: "sig_run cs sigs = fold sigs.run_op cs sigs"
  by (induction cs sigs rule: sig_run.induct) simp_all

fun op_pid :: "(int, 'e) sub_op \<Rightarrow> int" where
  "op_pid (Subscribe pid ev) = pid"
| "op_pid (Unsubscribe pid) = pid"

text \<open>
  C18. The table of the tasks to signal is a map from tasks to their events. Whatever sequence of
  registrations and removals real tasks make, no task ever has two slots and no free slot is
  in front of one in use; and if there are slots for all the tasks involved, no registration is
  refused and the table is exactly the map the requests describe, moved slots included.
\<close>

theorem gpio_signals_refine:
  assumes "sig_inv sigs" "list_all (\<lambda>c. op_pid c \<noteq> 0) cs"
  shows "sig_inv (sig_run cs sigs) \<and> length (sig_run cs sigs) = length sigs \<and>
     (card (dom (sig_abs sigs) \<union> op_pid ` set cs) \<le> length sigs \<longrightarrow>
        sig_abs (sig_run cs sigs) = fold sub_spec cs (sig_abs sigs))"
proof -
  have tasks: "list_all sigs.op_task cs"
    using assms(2) by (auto simp: list_all_iff sigs.op_task_def split: sub_op.split)
  have "sig_abs (fold sigs.run_op cs sigs) = fold sub_spec cs (sig_abs sigs)"
    if "card (dom (sig_abs sigs) \<union> op_pid ` set cs) \<le> length sigs"
    using assms(1) tasks _ _ that
  proof (rule sigs.run_spec)
    show "\<forall>p e. Subscribe p e \<in> set cs \<longrightarrow> p \<in> dom (sig_abs sigs) \<union> op_pid ` set cs"
      by (auto intro: rev_image_eqI)
  qed (simp_all add: sigs.subs_fin)
  with sigs.run_inv [OF assms(1) tasks] show ?thesis by (simp add: sig_run_fold)
qed

definition demo_sigs :: "nat gpio_signal_s list" where
  "demo_sigs = replicate 3 \<lparr>gp_event = 0, gp_pid = 0\<rparr>"

theorem gpio_signals_refine_witness:
  "sig_abs (sig_run [Subscribe 4 1, Subscribe 7 2, Subscribe 4 3, Unsubscribe 4, Subscribe 9 5] demo_sigs) =
     [7 \<mapsto> 2, 9 \<mapsto> 5]"
proof -
  let ?cs = "[Subscribe 4 1, Subscribe 7 2, Subscribe 4 3, Unsubscribe 4, Subscribe 9 5] :: (int, nat) sub_op list"
  have "sig_inv demo_sigs" "sig_abs demo_sigs = Map.empty" "length demo_sigs = 3"
    by (simp_all add: demo_sigs_def sig_inv_def sig_abs_def sig_used_def numeral_3_eq_3)
  moreover have "op_pid ` set ?cs = {4, 7, 9}" by auto
  ultimately show ?thesis
    using gpio_signals_refine [of demo_sigs ?cs] by (simp add: fun_upd_twist)
qed

lemma gpio_handler_log:
  assumes "sig_inv (gp_signals (gpio_mem e a))"
  shows "\<exists>new. siglog (gpio_handler a e) = new @ siglog e \<and> distinct (map fst new) \<and>
     set new = {(pid, ev). sig_abs (gp_signals (gpio_mem e a)) pid = Some ev}"
    "int_count (gpio_mem (gpio_handler a e) a) = int_count (gpio_mem e a) + 1"
proof -
  let ?new = "rev (map (\<lambda>s. (gp_pid s, gp_event s)) (sig_used (gp_signals (gpio_mem e a))))"
  have dist: "distinct (map gp_pid (sig_used (gp_signals (gpio_mem e a))))" using assms by (simp add: sig_inv_def)
  have "siglog (gpio_handler a e) = ?new @ siglog e"
    by (simp add: gpio_handler_def Let_def signal_loop_used)
  moreover have "set ?new = {(pid, ev). sig_abs (gp_signals (gpio_mem e a)) pid = Some ev}"
    using dist by (auto simp: sig_abs_def map_of_eq_Some_iff comp_def)
  moreover have "distinct (map fst ?new)" using dist by (simp add: rev_map [symmetric] comp_def)
  ultimately show "\<exists>new. siglog (gpio_handler a e) = new @ siglog e \<and> distinct (map fst new) \<and>
     set new = {(pid, ev). sig_abs (gp_signals (gpio_mem e a)) pid = Some ev}" by blast
  show "int_count (gpio_mem (gpio_handler a e) a) = int_count (gpio_mem e a) + 1"
    by (simp add: gpio_handler_def Let_def)
qed

text \<open>
  An interrupt is counted (modulo the width of the counter), every registered task is
  notified once with its own event and no other task is, and every task that polls the pin for
  input is woken with the input bit set.
\<close>

theorem gpio_handler_notifies:
  assumes "sig_inv (gp_signals (gpio_mem e a))"
  defines "e' \<equiv> gpio_handler a e"
  shows "int_count (gpio_mem e' a) = int_count (gpio_mem e a) + 1 \<and>
     (\<exists>new. siglog e' = new @ siglog e \<and> distinct (map fst new) \<and>
        set new = {(pid, ev). sig_abs (gp_signals (gpio_mem e a)) pid = Some ev}) \<and>
     (\<forall>p. Some p \<in> set (fds (gpio_mem e a)) \<longrightarrow> bit (events (pollfds (pw e) p)) 0 \<longrightarrow>
        bit (revents (pollfds (pw e') p)) 0 \<and> (cb (pollfds (pw e) p) \<longrightarrow> p \<in> set (cblog (pw e'))))"
proof -
  have "bit (revents (pollfds (pw e') p)) 0 \<and> (cb (pollfds (pw e) p) \<longrightarrow> p \<in> set (cblog (pw e')))"
    if "Some p \<in> set (fds (gpio_mem e a))" "bit (events (pollfds (pw e) p)) 0" for p
    using that by (auto simp: e'_def gpio_handler_def Let_def poll_notify_POLLIN poll_notify_calls)
  with gpio_handler_log [OF assms(1)] show ?thesis unfolding e'_def by blast
qed

definition demo_genv :: "(nat, unit, unit) gpio_env" where
  "demo_genv =
     \<lparr>gpio_mem = (\<lambda>a. \<lparr>gp_pintype = GPIO_INTERRUPT_PIN, register_count = 1, int_count = - 1,
        gp_signals = [\<lparr>gp_event = 5, gp_pid = 12\<rparr>, \<lparr>gp_event = 0, gp_pid = 0\<rparr>], gp_ops = (),
        fds = [None, Some 3], lower = ()\<rparr>),
      pw = \<lparr>pollfds = (\<lambda>p. \<lparr>events = 1, revents = 0, cb = True, priv = None\<rparr>), cblog = []\<rparr>,
      siglog = [], inodes = [], fault = False\<rparr>"

theorem gpio_handler_notifies_witness:
  "int_count (gpio_mem (gpio_handler 0 demo_genv) 0) = 0 \<and>
   3 \<in> set (cblog (pw (gpio_handler 0 demo_genv)))"
proof -
  have "sig_inv (gp_signals (gpio_mem demo_genv 0))"
    by (simp add: demo_genv_def sig_inv_def sig_used_def)
  from gpio_handler_notifies [OF this] show ?thesis
    by (auto simp: demo_genv_def)
qed

end
