(* ===== verification/Board_Buttons.thy ===== *)
theory Board_Buttons
  imports Pin_Names Stm32_Exti
begin

text \<open>
  The buttons of the board, \<^verbatim>\<open>boards/arm/stm32h7/nucleo-h753zi/src/stm32_buttons.c\<close>: the parser
  for pin names, the table of buttons built from the Kconfig strings, and the three entry
  points \<^verbatim>\<open>board_button_initialize\<close>, \<^verbatim>\<open>board_buttons\<close> and \<^verbatim>\<open>board_button_irq\<close>.

  The Kconfig settings are the record \<open>btn_config\<close>, the static variables the record
  \<open>buttons\<close>. Stores into the table are checked: the result \<open>None\<close> is a store out of bounds.
  The static pointer of \<^verbatim>\<open>strtok\<close> is passed in, with any content. Messages to the system log
  are left out.
\<close>

record btn_config =
  cfg_count :: nat
  cfg_builtin :: bool
  cfg_pins :: "string option"

record buttons =
  g_buttons :: "u32 list"
  g_button_count :: nat

subsection \<open>Parsing a pin\<close>

definition btn_port_base :: "char \<Rightarrow> u32 option" where
  "btn_port_base port =
     (if port = CHR ''A'' then Some (GPIO_PORT 0)
      else if port = CHR ''B'' then Some (GPIO_PORT 1)
      else if port = CHR ''C'' then Some (GPIO_PORT 2)
      else if port = CHR ''D'' then Some (GPIO_PORT 3)
      else if port = CHR ''E'' then Some (GPIO_PORT 4)
      else if port = CHR ''F'' then Some (GPIO_PORT 5)
      else if port = CHR ''G'' then Some (GPIO_PORT 6)
      else None)"

text \<open>
  The case for port H in the source assigns the port and falls through to the default case,
  which reports the error.
\<close>

definition btn_parse_gpio_pin :: "string option \<Rightarrow> int \<times> u32" where
  "btn_parse_gpio_pin pin_str =
     (case pin_str of
        None \<Rightarrow> (- EINVAL, 0)
      | Some s \<Rightarrow>
          let s = skip_blanks s; len = strlen s in
          if len < 3 \<or> len > 4 then (- EINVAL, 0)
          else if s ! 0 \<noteq> CHR ''P'' then (- EINVAL, 0)
          else let port = s ! 1 in
          if c2i port < c2i (CHR ''A'') \<or> c2i port > c2i (CHR ''H'') then (- EINVAL, 0)
          else let (pin_num, endptr, _) = strtol (Some (rev (take 2 s), drop 2 s)) 10 in
          if deref (the endptr) \<noteq> NUL \<or> pin_num < 0 \<or> pin_num > 15 then (- EINVAL, 0)
          else (case btn_port_base port of
             None \<Rightarrow> (- EINVAL, 0)
           | Some port_base \<Rightarrow>
               (case gpio_pin_code pin_num of
                  None \<Rightarrow> (- EINVAL, 0)
                | Some pin_code \<Rightarrow>
                    (0, GPIO_INPUT OR GPIO_FLOAT OR GPIO_EXTI OR port_base OR pin_code))))"

subsection \<open>The table of buttons\<close>

definition GPIO_BTN_BUILT_IN :: u32 where
  "GPIO_BTN_BUILT_IN = GPIO_INPUT OR GPIO_FLOAT OR GPIO_EXTI OR GPIO_PORT 2 OR GPIO_PIN 13"

text \<open>The first pass over the string, which counts the pins.\<close>

function count_pins :: "string option \<Rightarrow> string option \<Rightarrow> nat \<Rightarrow> nat \<times> string option" where
  "count_pins pin g provided_pins =
     (case pin of
        None \<Rightarrow> (provided_pins, g)
      | Some _ \<Rightarrow>
          let (pin', g') = strtok None pin_delims g
          in count_pins pin' g' (provided_pins + 1))"
  by pat_completeness auto
termination
  by (relation "measure (\<lambda>(pin, g, n). tok_size g + (if pin = None then 0 else 1))")
    (simp, use strtok_loop_dec in fastforce)

text \<open>The second pass, which parses the pins and stores them.\<close>

function parse_pins :: "btn_config \<Rightarrow> string option \<Rightarrow> string option \<Rightarrow> buttons \<Rightarrow> (int \<times> buttons) option"
where
  "parse_pins cfg pin g b =
     (case pin of
        None \<Rightarrow> Some (OK, b)
      | Some p \<Rightarrow>
          if g_button_count b < cfg_count cfg then
            let (error, gpio_config) = btn_parse_gpio_pin (Some p) in
            if error \<noteq> 0 then Some (- EINVAL, b)
            else if list_ex (\<lambda>c. c = gpio_config) (take (g_button_count b) (g_buttons b))
            then Some (- EINVAL, b)
            else (case arr_set (g_buttons b) (g_button_count b) gpio_config of
                    None \<Rightarrow> None
                  | Some bs \<Rightarrow>
                      let (pin', g') = strtok None pin_delims g in
                      parse_pins cfg pin' g' \<lparr>g_buttons = bs, g_button_count = g_button_count b + 1\<rparr>)
          else Some (OK, b))"
  by pat_completeness auto
termination
  by (relation "measure (\<lambda>(cfg, pin, g, b). tok_size g + (if pin = None then 0 else 1))")
    (simp, use strtok_loop_dec in fastforce)

declare count_pins.simps [simp del] parse_pins.simps [simp del]

definition init_button_configs :: "btn_config \<Rightarrow> string option \<Rightarrow> buttons \<Rightarrow> (int \<times> buttons) option" where
  "init_button_configs cfg g b =
     (let b = b\<lparr>g_button_count := 0\<rparr> in
      (case (if cfg_builtin cfg
             then map_option (\<lambda>bs. (b\<lparr>g_buttons := bs, g_button_count := 1\<rparr>, cfg_count cfg - 1))
                    (arr_set (g_buttons b) 0 GPIO_BTN_BUILT_IN)
             else Some (b, cfg_count cfg)) of
         None \<Rightarrow> None
       | Some (b, expected_pins) \<Rightarrow>
           if expected_pins = 0 then Some (OK, b)
           else (case cfg_pins cfg of
              None \<Rightarrow> Some (- EINVAL, b)
            | Some pins_config \<Rightarrow>
                if strlen pins_config = 0 then Some (- EINVAL, b)
                else let
                  pins_str = strncpy pins_config 511 @ [NUL];
                  count_str = pins_str;
                  (pin, g) = strtok (Some count_str) pin_delims g;
                  (provided_pins, g) = count_pins pin g 0
                in if provided_pins \<noteq> expected_pins then Some (- EINVAL, b)
                else let (pin, g) = strtok (Some pins_str) pin_delims g
                in parse_pins cfg pin g b)))"

subsection \<open>Entry points\<close>

text \<open>The loop that configures the pins of the buttons; it stops at the first failure.\<close>

fun config_buttons :: "u32 list \<Rightarrow> bus \<Rightarrow> int \<times> bus" where
  "config_buttons [] h = (OK, h)"
| "config_buttons (c # cs) h =
     (let (ret, h) = stm32_configgpio c h in
      if ret < 0 then (ret, h) else config_buttons cs h)"

definition board_button_initialize ::
  "btn_config \<Rightarrow> string option \<Rightarrow> buttons \<Rightarrow> bus \<Rightarrow> (nat \<times> buttons \<times> bus) option" where
  "board_button_initialize cfg g b h =
     (case init_button_configs cfg g b of
        None \<Rightarrow> None
      | Some (ret, b) \<Rightarrow>
          if ret < 0 then Some (0, b, h)
          else let (ret, h) = config_buttons (take (g_button_count b) (g_buttons b)) h in
               if ret < 0 then Some (0, b, h) else Some (g_button_count b, b, h))"

fun buttons_loop :: "u32 list \<Rightarrow> nat \<Rightarrow> bus \<Rightarrow> u32 \<Rightarrow> u32" where
  "buttons_loop [] i h ret = ret"
| "buttons_loop (c # cs) i h ret =
     (let released = stm32_gpioread c h;
          ret = (if released then ret OR push_bit i 1 else ret)
      in buttons_loop cs (Suc i) h ret)"

definition board_buttons :: "buttons \<Rightarrow> bus \<Rightarrow> u32" where
  "board_buttons b h = buttons_loop (take (g_button_count b) (g_buttons b)) 0 h 0"

definition board_button_irq ::
  "buttons \<Rightarrow> int \<Rightarrow> 'f option \<Rightarrow> 'a option \<Rightarrow> ('f, 'a, 'w) irq_state \<Rightarrow> int \<times> ('f, 'a, 'w) irq_state" where
  "board_button_irq b bid irqhandler arg s =
     (if bid \<ge> 0 \<and> bid < int (g_button_count b)
      then stm32_gpiosetevent (g_buttons b ! nat bid) True True True irqhandler arg s
      else (- EINVAL, s))"

subsection \<open>The parser keeps its contract\<close>

definition BTN_FLAGS :: u32 where
  "BTN_FLAGS = GPIO_INPUT OR GPIO_FLOAT OR GPIO_EXTI"

lemma btn_port_char:
  assumes "port < 8"
  shows "btn_port_base (port_char port) = (if port = 7 then None else Some (GPIO_PORT port))"
  using below_8 [OF assms] by (elim enumE) (simp_all add: btn_port_base_def port_char_def)

lemma btn_port_base_Some:
  assumes "btn_port_base c = Some pb" shows "\<exists>port < 7. pb = GPIO_PORT port"
proof -
  have "pb \<in> GPIO_PORT ` {..<7}"
    using assms by (auto simp: btn_port_base_def split: if_splits)
  then show ?thesis by auto
qed

lemma btn_parse_name:
  assumes "port < 8" "pin < 16"
  shows "btn_parse_gpio_pin (Some (pin_name port pin)) =
           (if port = 7 then (- EINVAL, 0) else (0, pin_word BTN_FLAGS port pin))"
proof -
  have range: "\<not> (c2i (port_char port) < c2i (CHR ''A'') \<or> c2i (port_char port) > c2i (CHR ''H''))"
    using pin_name_port_char(1) [OF assms(1)] assms(1) by (simp add: c2i_def)
  have code: "gpio_pin_code (int pin) = Some (GPIO_PIN pin)"
    using assms(2) by (simp add: gpio_pin_code_def)
  show ?thesis
    using assms range
    by (simp add: btn_parse_gpio_pin_def pin_name_simps strtol_dec2 code btn_port_char pin_word_def BTN_FLAGS_def
        or.assoc Let_def del: not_less)
qed

lemma btn_parse_sound:
  assumes "btn_parse_gpio_pin s = (0, w)"
  shows "\<exists>port < 7. \<exists>pin < 16. w = pin_word BTN_FLAGS port pin"
proof -
  obtain pb gp where "w = GPIO_INPUT OR GPIO_FLOAT OR GPIO_EXTI OR pb OR gp"
    "\<exists>c. btn_port_base c = Some pb" "\<exists>n. gpio_pin_code n = Some gp"
    using assms by (auto simp: btn_parse_gpio_pin_def Let_def split: option.splits if_splits prod.splits)
  then show ?thesis
    using btn_port_base_Some gpio_pin_code_Some
    by (fastforce simp: pin_word_def BTN_FLAGS_def or.assoc)
qed

lemma btn_parse_err: "fst (btn_parse_gpio_pin s) \<noteq> 0 \<Longrightarrow> btn_parse_gpio_pin s = (- EINVAL, 0)"
  by (auto simp: btn_parse_gpio_pin_def Let_def split: option.splits if_splits prod.splits)

interpretation btn: pin_parser btn_parse_gpio_pin BTN_FLAGS 7
proof unfold_locales
  show "flag_word BTN_FLAGS"
    by (simp add: flag_word_def BTN_FLAGS_def gpio_consts take_bit_eq_mod)
  show "(7 :: nat) \<le> STM32H7_NGPIO" by (simp add: STM32H7_NGPIO_def)
qed (use btn_parse_name btn_parse_sound btn_parse_err in auto)

text \<open>
  C33. Every pin name of the ports A to G is accepted and stands for that pin as a floating
  input with its interrupt line; every name of port H is rejected, although the range check
  lets it through and the messages list it as valid.
\<close>

theorem btn_parse_pin_names:
  assumes "port < 8" "pin < 16"
  shows "btn_parse_gpio_pin (Some (pin_name port pin)) =
           (if port = 7 then (- EINVAL, 0) else (0, pin_word BTN_FLAGS port pin))"
  using assms by (rule btn_parse_name)

theorem btn_parse_pin_names_witness:
  "btn_parse_gpio_pin (Some ''PF15'') = (0, pin_word BTN_FLAGS 5 15) \<and>
   btn_parse_gpio_pin (Some ''PH1'') = (- EINVAL, 0)"
  using btn_parse_pin_names [of 5 15] btn_parse_pin_names [of 7 1]
  by (simp add: pin_name_def port_char_def dec2_def)

subsection \<open>The table\<close>

text \<open>The two passes seen as recursions over the tokens.\<close>

fun parse_list :: "btn_config \<Rightarrow> string list \<Rightarrow> buttons \<Rightarrow> (int \<times> buttons) option" where
  "parse_list cfg [] b = Some (OK, b)"
| "parse_list cfg (t # ts) b =
     (if g_button_count b < cfg_count cfg then
        let (error, gpio_config) = btn_parse_gpio_pin (Some t) in
        if error \<noteq> 0 then Some (- EINVAL, b)
        else if list_ex (\<lambda>c. c = gpio_config) (take (g_button_count b) (g_buttons b))
        then Some (- EINVAL, b)
        else (case arr_set (g_buttons b) (g_button_count b) gpio_config of
                None \<Rightarrow> None
              | Some bs \<Rightarrow> parse_list cfg ts \<lparr>g_buttons = bs, g_button_count = g_button_count b + 1\<rparr>)
      else Some (OK, b))"

lemma count_pins_eq: "fst (count_pins pin g n) = n + length (rest_tokens pin g)"
proof (induction pin g n rule: count_pins.induct)
  case (1 pin g n)
  obtain pin' g' where tok: "strtok None pin_delims g = (pin', g')" by (rule prod.exhaust)
  show ?case
  proof (cases pin)
    case (Some t)
    with 1 [OF Some refl tok [symmetric]] tok rest_tokens_step [OF tok, of t] show ?thesis
      by (subst count_pins.simps) simp
  qed (subst count_pins.simps, simp)
qed

lemma parse_pins_eq: "parse_pins cfg pin g b = parse_list cfg (rest_tokens pin g) b"
proof (induction cfg pin g b rule: parse_pins.induct)
  case (1 cfg pin g b)
  obtain pin' g' where tok: "strtok None pin_delims g = (pin', g')" by (rule prod.exhaust)
  show ?case
  proof (cases pin)
    case (Some t)
    obtain e c where parse: "btn_parse_gpio_pin (Some t) = (e, c)" by (rule prod.exhaust)
    show ?thesis
      using 1 [OF Some _ parse [symmetric] refl _ _ _ tok [symmetric] refl]
      by (subst parse_pins.simps)
        (simp add: Some parse tok rest_tokens_step [OF tok] split: option.split)
  qed (subst parse_pins.simps, simp)
qed

text \<open>The table a list of tokens asks for, if all are pins and no pin occurs twice.\<close>

definition spec_add :: "u32 list \<Rightarrow> string list \<Rightarrow> u32 list option" where
  "spec_add ws ts =
     (let new = map (\<lambda>t. snd (btn_parse_gpio_pin (Some t))) ts in
      if list_all (\<lambda>t. fst (btn_parse_gpio_pin (Some t)) = 0) ts \<and> distinct (ws @ new)
      then Some (ws @ new) else None)"

lemma spec_add_Cons:
  assumes "distinct ws"
  shows "spec_add ws (t # ts) =
     (case btn_parse_gpio_pin (Some t) of
        (e, c) \<Rightarrow> if e \<noteq> 0 \<or> c \<in> set ws then None else spec_add (ws @ [c]) ts)"
  using assms by (auto simp: spec_add_def Let_def split: prod.split)

lemma parse_list_spec:
  assumes "length (g_buttons b) = cfg_count cfg" "g_button_count b + length ts = cfg_count cfg"
    and "distinct (take (g_button_count b) (g_buttons b))"
  shows "\<exists>ret b'. parse_list cfg ts b = Some (ret, b') \<and>
           length (g_buttons b') = cfg_count cfg \<and> g_button_count b' \<le> cfg_count cfg \<and>
           (case spec_add (take (g_button_count b) (g_buttons b)) ts of
              Some ws \<Rightarrow> ret = OK \<and> g_buttons b' = ws \<and> g_button_count b' = cfg_count cfg
            | None \<Rightarrow> ret = - EINVAL)"
  using assms
proof (induction ts arbitrary: b)
  case Nil
  then show ?case by (simp add: spec_add_def)
next
  case (Cons t ts)
  obtain e c where parse: "btn_parse_gpio_pin (Some t) = (e, c)" by (rule prod.exhaust)
  let ?ws = "take (g_button_count b) (g_buttons b)"
  have dup: "list_ex (\<lambda>x. x = c) ?ws \<longleftrightarrow> c \<in> set ?ws" by (auto simp: list_ex_iff)
  show ?case
  proof (cases "e \<noteq> 0 \<or> c \<in> set ?ws")
    case True
    then show ?thesis using Cons.prems
      by (cases "e = 0") (auto simp: spec_add_Cons parse dup)
  next
    case False
    let ?b = "\<lparr>g_buttons = (g_buttons b)[g_button_count b := c], g_button_count = g_button_count b + 1\<rparr>"
    have "take (g_button_count ?b) (g_buttons ?b) = ?ws @ [c]"
      using Cons.prems by simp
    with Cons.IH [of ?b] False Cons.prems show ?thesis
      by (auto simp: spec_add_Cons parse dup)
  qed
qed

text \<open>
  The contract of the configuration: the built-in button first if it is enabled, then the pins
  of the list (of which the code reads 511 characters), provided there are exactly as many as
  the count asks for, each is a pin, and no pin occurs twice.
\<close>

definition builtin_list :: "btn_config \<Rightarrow> u32 list" where
  "builtin_list cfg = (if cfg_builtin cfg then [GPIO_BTN_BUILT_IN] else [])"

definition config_tokens :: "btn_config \<Rightarrow> string list" where
  "config_tokens cfg =
     (case cfg_pins cfg of
        None \<Rightarrow> [] | Some s \<Rightarrow> pieces (set pin_delims) (take 511 (cstr s)))"

definition spec_buttons :: "btn_config \<Rightarrow> u32 list option" where
  "spec_buttons cfg =
     (let n = cfg_count cfg - length (builtin_list cfg) in
      if n = 0 then Some (builtin_list cfg)
      else if length (config_tokens cfg) = n then spec_add (builtin_list cfg) (config_tokens cfg)
      else None)"

lemma init_button_configs_spec:
  assumes len: "length (g_buttons b) = cfg_count cfg" and pos: "0 < cfg_count cfg"
  shows "\<exists>ret b'. init_button_configs cfg g b = Some (ret, b') \<and>
           length (g_buttons b') = cfg_count cfg \<and> g_button_count b' \<le> cfg_count cfg \<and>
           (case spec_buttons cfg of
              Some ws \<Rightarrow> ret = OK \<and> take (g_button_count b') (g_buttons b') = ws \<and>
                         g_button_count b' = cfg_count cfg
            | None \<Rightarrow> ret = - EINVAL)"
proof -
  define k where "k = length (builtin_list cfg)"
  define b1 where "b1 = (if cfg_builtin cfg
    then b\<lparr>g_buttons := (g_buttons b)[0 := GPIO_BTN_BUILT_IN], g_button_count := 1\<rparr>
    else b\<lparr>g_button_count := 0\<rparr>)"
  have b1: "length (g_buttons b1) = cfg_count cfg" "g_button_count b1 = k" "k \<le> cfg_count cfg"
    "take k (g_buttons b1) = builtin_list cfg" "distinct (take k (g_buttons b1))"
    using len pos take_Suc_update [of 0 "g_buttons b" GPIO_BTN_BUILT_IN]
    by (auto simp: b1_def k_def builtin_list_def)
  have init: "init_button_configs cfg g b =
    (if cfg_count cfg - k = 0 then Some (OK, b1)
     else (case cfg_pins cfg of
        None \<Rightarrow> Some (- EINVAL, b1)
      | Some s \<Rightarrow>
          if strlen s = 0 then Some (- EINVAL, b1)
          else let pins_str = strncpy s 511 @ [NUL];
                   (pin, g) = strtok (Some pins_str) pin_delims g;
                   (provided_pins, g) = count_pins pin g 0
               in if provided_pins \<noteq> cfg_count cfg - k then Some (- EINVAL, b1)
               else let (pin, g) = strtok (Some pins_str) pin_delims g in parse_pins cfg pin g b1))"
    using len pos
    by (cases "cfg_builtin cfg"; cases "cfg_pins cfg")
      (simp_all add: init_button_configs_def b1_def k_def builtin_list_def Let_def split: prod.split)
  show ?thesis
  proof (cases "cfg_count cfg - k = 0 \<or> cfg_pins cfg = None \<or> (\<exists>s. cfg_pins cfg = Some s \<and> strlen s = 0)")
    case True
    then show ?thesis
      using b1 by (auto simp: init spec_buttons_def k_def [symmetric] config_tokens_def strlen_cstr Let_def
          split: option.splits)
  next
    case False
    then obtain s where s: "cfg_pins cfg = Some s" "strlen s \<noteq> 0" by auto
    define str where "str = strncpy s 511 @ [NUL]"
    have toks: "strtok (Some str) pin_delims g = (pin, g') \<Longrightarrow> rest_tokens pin g' = config_tokens cfg" for pin g g'
      using tokens_of_config [of str g pin g'] by (simp add: str_def cstr_strncpy config_tokens_def s)
    obtain p1 g1 where t1: "strtok (Some str) pin_delims g = (p1, g1)" by (rule prod.exhaust)
    obtain n g2 where cnt: "count_pins p1 g1 0 = (n, g2)" by (rule prod.exhaust)
    obtain p3 g3 where t3: "strtok (Some str) pin_delims g2 = (p3, g3)" by (rule prod.exhaust)
    have n: "n = length (config_tokens cfg)"
      using count_pins_eq [of p1 g1 0] cnt toks [OF t1] by simp
    have run: "init_button_configs cfg g b =
        (if n \<noteq> cfg_count cfg - k then Some (- EINVAL, b1) else parse_list cfg (config_tokens cfg) b1)"
      using False s by (simp add: init str_def [symmetric] t1 cnt t3 parse_pins_eq toks [OF t3] Let_def)
    show ?thesis
    proof (cases "n = cfg_count cfg - k")
      case True
      have spec: "spec_buttons cfg = spec_add (builtin_list cfg) (config_tokens cfg)"
        using True False n by (simp add: spec_buttons_def k_def [symmetric])
      have "g_button_count b1 + length (config_tokens cfg) = cfg_count cfg"
        using True n b1(2,3) by simp
      then obtain ret b' where "parse_list cfg (config_tokens cfg) b1 = Some (ret, b')"
          "length (g_buttons b') = cfg_count cfg" "g_button_count b' \<le> cfg_count cfg"
          "case spec_buttons cfg of
             Some ws \<Rightarrow> ret = OK \<and> g_buttons b' = ws \<and> g_button_count b' = cfg_count cfg
           | None \<Rightarrow> ret = - EINVAL"
        using parse_list_spec [of b1 cfg "config_tokens cfg"] b1 by (auto simp: spec)
      then show ?thesis using run True by (auto split: option.splits)
    next
      case unequal: False
      with run n b1 False show ?thesis
        by (auto simp: spec_buttons_def k_def [symmetric] Let_def)
    qed
  qed
qed

subsection \<open>The entry points\<close>

text \<open>Every entry of a specified table is a pin of an existing port, configured as BTN_FLAGS.\<close>

lemma built_in_word: "GPIO_BTN_BUILT_IN = pin_word BTN_FLAGS 2 13"
  by (simp add: GPIO_BTN_BUILT_IN_def pin_word_def BTN_FLAGS_def or.assoc)

lemma built_in_parses: "btn_parse_gpio_pin (Some (pin_name 2 13)) = (0, GPIO_BTN_BUILT_IN)"
  by (simp add: btn_parse_name built_in_word)

lemma spec_add_parsed:
  assumes "spec_add ws ts = Some ws'" "c \<in> set ws'" "c \<notin> set ws"
  shows "\<exists>t \<in> set ts. btn_parse_gpio_pin (Some t) = (0, c)"
  using assms by (auto simp: spec_add_def Let_def list_all_iff split: if_splits) (metis prod.collapse)

lemma spec_buttons_parsed:
  assumes "spec_buttons cfg = Some ws" "c \<in> set ws"
  shows "\<exists>t. btn_parse_gpio_pin (Some t) = (0, c)"
proof (cases "c = GPIO_BTN_BUILT_IN")
  case True
  then show ?thesis using built_in_parses by blast
next
  case False
  with assms spec_add_parsed [of "builtin_list cfg" "config_tokens cfg" ws c] show ?thesis
    by (auto simp: spec_buttons_def Let_def builtin_list_def split: if_splits)
qed

lemma spec_buttons_distinct: "spec_buttons cfg = Some ws \<Longrightarrow> distinct ws"
  by (auto simp: spec_buttons_def spec_add_def Let_def builtin_list_def split: if_splits)

lemma spec_buttons_length:
  "spec_buttons cfg = Some ws \<Longrightarrow> 0 < cfg_count cfg \<Longrightarrow> length ws = cfg_count cfg"
  by (auto simp: spec_buttons_def spec_add_def Let_def builtin_list_def split: if_splits)

lemma spec_buttons_pins:
  assumes "spec_buttons cfg = Some ws"
  shows "list_all gpio_valid ws" "distinct (map gpio_loc ws)" "c \<in> set ws \<Longrightarrow> cfg_of c = pin_reset"
    "c \<in> set ws \<Longrightarrow> bit c 8"
proof -
  note parsed = spec_buttons_parsed [OF assms]
  show "list_all gpio_valid ws"
    using parsed btn.parsed_word(1) by (fastforce simp: list_all_iff)
  have "inj_on gpio_loc (set ws)"
    by (rule inj_onI) (metis parsed btn.parsed_loc_inj)
  then show "distinct (map gpio_loc ws)"
    by (simp add: distinct_map spec_buttons_distinct [OF assms])
  have "cfg_of BTN_FLAGS = pin_reset" "bit BTN_FLAGS 8"
    by (simp_all add: cfg_of_def pin_reset_def BTN_FLAGS_def gpio_consts reg_field_def Let_def
        take_bit_eq_mod drop_bit_eq_div bit_iff_odd_drop_bit)
  then show "c \<in> set ws \<Longrightarrow> cfg_of c = pin_reset" "c \<in> set ws \<Longrightarrow> bit c 8"
    using parsed [of c] btn.parsed_word(3) [of _ c] btn.parsed_word(4) [of _ c 8] by auto
qed

lemma config_buttons_ok:
  "list_all gpio_valid cs \<Longrightarrow> config_buttons cs h = (0, fold (\<lambda>c h. snd (stm32_configgpio c h)) cs h)"
proof (induction cs arbitrary: h)
  case (Cons c cs)
  moreover obtain r h' where "stm32_configgpio c h = (r, h')" by (rule prod.exhaust)
  ultimately show ?case using gpio.cfg_ok [of c h] by simp
qed simp

text \<open>
  C13. Building the button table: with a table of the configured size, initialization never
  stores out of bounds; it succeeds exactly when the Kconfig strings meet the contract, and
  then the table holds exactly the built-in button, if enabled, followed by the pins of the
  list in order; otherwise it returns -EINVAL.
\<close>

theorem init_button_configs_correct:
  assumes "length (g_buttons b) = cfg_count cfg" and "0 < cfg_count cfg"
  shows "\<exists>ret b'. init_button_configs cfg g b = Some (ret, b') \<and>
           length (g_buttons b') = cfg_count cfg \<and> g_button_count b' \<le> cfg_count cfg \<and>
           (case spec_buttons cfg of
              Some ws \<Rightarrow> ret = OK \<and> take (g_button_count b') (g_buttons b') = ws \<and>
                         g_button_count b' = cfg_count cfg
            | None \<Rightarrow> ret = - EINVAL)"
  using assms by (rule init_button_configs_spec)

definition demo_cfg :: btn_config where
  "demo_cfg = \<lparr>cfg_count = 3, cfg_builtin = True, cfg_pins = Some ''PA0, PG14''\<rparr>"

definition demo_buttons :: buttons where
  "demo_buttons = \<lparr>g_buttons = [0, 0, 0], g_button_count = 0\<rparr>"

lemma demo_spec:
  "spec_buttons demo_cfg =
     Some [pin_word BTN_FLAGS 2 13, pin_word BTN_FLAGS 0 0, pin_word BTN_FLAGS 6 14]"
proof -
  have toks: "config_tokens demo_cfg = [pin_name 0 0, pin_name 6 14]"
    by (simp add: config_tokens_def demo_cfg_def pieces_def pin_delims_def pin_name_def port_char_def dec2_def)
  have "flag_word BTN_FLAGS" by (rule btn.flags_ok)
  then show ?thesis
    unfolding spec_buttons_def toks
    by (simp add: demo_cfg_def builtin_list_def spec_add_def btn_parse_name built_in_word
        pin_word_inj)
qed

theorem init_button_configs_correct_witness:
  "\<exists>b'. init_button_configs demo_cfg None demo_buttons = Some (OK, b') \<and>
     take 3 (g_buttons b') = [pin_word BTN_FLAGS 2 13, pin_word BTN_FLAGS 0 0, pin_word BTN_FLAGS 6 14]"
proof -
  have "length (g_buttons demo_buttons) = cfg_count demo_cfg" "0 < cfg_count demo_cfg" "cfg_count demo_cfg = 3"
    by (simp_all add: demo_buttons_def demo_cfg_def)
  then show ?thesis
    using init_button_configs_correct [of demo_buttons demo_cfg None] by (auto simp: demo_spec)
qed

lemma board_button_initialize_eq:
  assumes "length (g_buttons b) = cfg_count cfg" and "0 < cfg_count cfg"
  shows "\<exists>b'. case spec_buttons cfg of
      Some ws \<Rightarrow> board_button_initialize cfg g b h =
          Some (cfg_count cfg, b', fold (\<lambda>c h. snd (stm32_configgpio c h)) ws h) \<and>
        take (g_button_count b') (g_buttons b') = ws \<and> g_button_count b' = cfg_count cfg \<and>
        length (g_buttons b') = cfg_count cfg
    | None \<Rightarrow> board_button_initialize cfg g b h = Some (0, b', h)"
proof -
  obtain ret b' where init: "init_button_configs cfg g b = Some (ret, b')"
    and len: "length (g_buttons b') = cfg_count cfg"
    and res: "case spec_buttons cfg of
        Some ws \<Rightarrow> ret = OK \<and> take (g_button_count b') (g_buttons b') = ws \<and> g_button_count b' = cfg_count cfg
      | None \<Rightarrow> ret = - EINVAL"
    using init_button_configs_spec [OF assms, of g] by auto
  show ?thesis
  proof (cases "spec_buttons cfg")
    case None
    with init res show ?thesis by (simp add: board_button_initialize_def errno_defs)
  next
    case (Some ws)
    have r: "ret = 0" "take (g_button_count b') (g_buttons b') = ws" "g_button_count b' = cfg_count cfg"
      using res Some by auto
    have "board_button_initialize cfg g b h =
        Some (cfg_count cfg, b', fold (\<lambda>c h. snd (stm32_configgpio c h)) ws h)"
      unfolding board_button_initialize_def init
      by (simp add: r(1,2) config_buttons_ok [OF spec_buttons_pins(1) [OF Some]]) (rule r(3))
    with r len show ?thesis by (auto simp: Some)
  qed
qed

text \<open>
  C27. Bringing the buttons up: on a good configuration \<^verbatim>\<open>board_button_initialize\<close> returns the number
  of buttons and every button's pin is left as a floating input, no other pin is touched and no
  level is driven; on a bad one it returns 0 and touches no register.
\<close>

theorem board_button_initialize_correct:
  assumes "length (g_buttons b) = cfg_count cfg" and "0 < cfg_count cfg"
  shows "\<exists>n b' h'. board_button_initialize cfg g b h = Some (n, b', h') \<and>
           (case spec_buttons cfg of
              Some ws \<Rightarrow> n = cfg_count cfg \<and> take (g_button_count b') (g_buttons b') = ws \<and>
                (\<forall>p. gpio_abs h' p = (if p \<in> gpio_loc ` set ws then Some pin_reset else gpio_abs h p)) \<and>
                level_abs h' = level_abs h
            | None \<Rightarrow> n = 0 \<and> h' = h)"
proof (cases "spec_buttons cfg")
  case None
  then show ?thesis using board_button_initialize_eq [OF assms, of g h] by auto
next
  case (Some ws)
  note pins = spec_buttons_pins [OF Some]
  let ?h' = "fold (\<lambda>c h. snd (stm32_configgpio c h)) ws h"
  have "gpio_abs ?h' p = (if p \<in> gpio_loc ` set ws then Some pin_reset else gpio_abs h p)" for p
    using gpio.cfg_all_at(1) [OF pins(2,1)] gpio.cfg_all_other(1) [of p ws h] pins(3) by auto
  moreover have "level_abs ?h' = level_abs h"
  proof -
    have "\<not> gpio_is_output c" if "c \<in> set ws" for c
      using pins(3) [OF that] by (simp add: gpio_is_output_def pin_reset_def)
    with pins(1) show ?thesis by (induction ws arbitrary: h) (simp_all add: gpio.cfg_level)
  qed
  ultimately show ?thesis using board_button_initialize_eq [OF assms, of g h] by (auto simp: Some)
qed

theorem board_button_initialize_correct_witness:
  "\<exists>b' h'. board_button_initialize demo_cfg None demo_buttons bus0 = Some (3, b', h') \<and>
     gpio_abs h' (6, 14) = Some pin_reset"
proof -
  have "length (g_buttons demo_buttons) = cfg_count demo_cfg" "0 < cfg_count demo_cfg" "cfg_count demo_cfg = 3"
    by (simp_all add: demo_buttons_def demo_cfg_def)
  moreover have "gpio_loc (pin_word BTN_FLAGS 6 14) = (6, 14)"
    by (simp add: gpio_loc_def pin_word_parts btn.flags_ok)
  ultimately show ?thesis
    using board_button_initialize_correct [of demo_buttons demo_cfg None bus0]
    by (auto simp: demo_spec)
qed

lemma buttons_loop_bit:
  "bit (buttons_loop cs j h r) i \<longleftrightarrow>
     bit r i \<or> (i < 32 \<and> j \<le> i \<and> i - j < length cs \<and> stm32_gpioread (cs ! (i - j)) h)"
proof (induction cs arbitrary: j r)
  case (Cons c cs)
  consider "i < j" | "i = j" | "j < i" by linarith
  then show ?case
  proof cases
    case 3
    then have "i - j = Suc (i - Suc j)" by simp
    with 3 show ?thesis by (simp add: Cons bit_simps Let_def)
  next
    case 2
    have "bit (buttons_loop cs (Suc j) h r') i \<longleftrightarrow> bit r' i" for r'
      using Cons.IH [of "Suc j" r'] 2 by simp
    with 2 show ?thesis by (auto simp: bit_simps Let_def)
  qed (simp add: Cons bit_simps Let_def)
qed simp

text \<open>
  The button state has bit \<open>i\<close> set exactly when the input pin of button \<open>i\<close> reads high; no
  bit beyond the number of buttons is ever set. (The comments call a set bit a pressed button
  and say that a low level is a pressed button.)
\<close>

theorem board_buttons_bits:
  assumes "g_button_count b \<le> length (g_buttons b)"
  shows "bit (board_buttons b h) i \<longleftrightarrow>
           i < 32 \<and> i < g_button_count b \<and> stm32_gpioread (g_buttons b ! i) h"
  using assms by (auto simp: board_buttons_def buttons_loop_bit)

theorem board_buttons_bits_witness:
  "\<not> bit (board_buttons \<lparr>g_buttons = [GPIO_BTN_BUILT_IN], g_button_count = 1\<rparr> bus0) 1 \<and>
   bit (board_buttons \<lparr>g_buttons = [GPIO_BTN_BUILT_IN], g_button_count = 1\<rparr>
          \<lparr>regs = (\<lambda>_. 0x2000), wlog = []\<rparr>) 0"
proof -
  have "gpio_port GPIO_BTN_BUILT_IN = 2" "gpio_pin GPIO_BTN_BUILT_IN = 13"
    by (simp_all add: built_in_word pin_word_parts btn.flags_ok)
  then have "stm32_gpioread GPIO_BTN_BUILT_IN \<lparr>regs = (\<lambda>_. 0x2000), wlog = []\<rparr>"
    by (simp add: gpioread_iff getreg32_def bit_iff_odd_drop_bit drop_bit_eq_div)
  then show ?thesis
    using board_buttons_bits [of "\<lparr>g_buttons = [GPIO_BTN_BUILT_IN], g_button_count = 1\<rparr>" bus0 1]
      board_buttons_bits [of "\<lparr>g_buttons = [GPIO_BTN_BUILT_IN], g_button_count = 1\<rparr>"
        "\<lparr>regs = (\<lambda>_. 0x2000), wlog = []\<rparr>" 0]
    by simp
qed

subsection \<open>Button interrupts\<close>

lemma button_irq_callback:
  assumes "0 \<le> bid" "bid < int (g_button_count b)"
  shows "g_gpio_callbacks (snd (board_button_irq b bid f arg s)) =
           (g_gpio_callbacks s)[gpio_pin (g_buttons b ! nat bid) := \<lparr>callback = f, cbarg = arg\<rparr>]"
    and "env (snd (board_button_irq b bid f arg s)) = env s"
  using assms by (simp_all add: board_button_irq_def setevent_state)

lemma button_irq_reach: "exti_reach s \<Longrightarrow> exti_reach (snd (board_button_irq b bid f arg s))"
  by (simp add: board_button_irq_def exti_reach.setevent)

lemma served_self: "p < 16 \<Longrightarrow> (5 \<le> p \<Longrightarrow> bit pr p) \<Longrightarrow> p \<in> set (exti_served pr p)"
  by (auto simp: exti_served_def exti_first_def exti_num_def)

text \<open>
  C26. A registered button handler is called: after \<^verbatim>\<open>board_button_irq\<close> for a button, when the
  interrupt of the button's line is dispatched with the line pending, the line is acknowledged
  and the handler runs with the argument it was registered with; nothing panics. This holds in
  every reachable state of the interrupt tables, whatever other handlers there are.
\<close>

theorem button_irq_delivers:
  fixes s :: "('f, 'a, ('f \<times> int \<times> 'a option) list) irq_state"
  assumes "exti_reach s" "0 \<le> bid" "bid < int (g_button_count b)"
    and "p = gpio_pin (g_buttons b ! nat bid)" "s1 = snd (board_button_irq b bid (Some f) arg s)"
    and "bit (getreg32 STM32_EXTI_CPUPR1 (hw s1)) p"
  shows "\<exists>s2. irq_dispatch (log_call r) (exti_irq p) c s1 = Some s2 \<and>
           (f, exti_irq p, arg) \<in> set (env s2) \<and> ack p \<in> set (wlog (hw s2))"
proof -
  have p: "p < 16" by (simp add: assms(4))
  have reach: "exti_reach s1" using assms(1) by (simp add: assms(5) button_irq_reach)
  have len: "length (g_gpio_callbacks s) = 16"
    using exti_reach_inv [OF assms(1)] by (simp add: exti_inv_def)
  have cb: "g_gpio_callbacks s1 ! p = \<lparr>callback = Some f, cbarg = arg\<rparr>"
    using p len by (simp add: assms(4,5) button_irq_callback(1) [OF assms(2,3)])
  have served: "p \<in> set (exti_served (getreg32 STM32_EXTI_CPUPR1 (hw s1)) p)"
    by (rule served_self) (simp_all add: p assms(6))
  have "(f, exti_irq p, arg) \<in> set (exti_calls s1 (exti_irq p) p)"
    by (simp add: exti_calls_def cb)
  with served show ?thesis
    using dispatch_served [OF reach p, of r c] cb by auto
qed

theorem button_irq_delivers_witness:
  "\<exists>s2. irq_dispatch (log_call (\<lambda>_. 0)) 39 None
          (snd (board_button_irq \<lparr>g_buttons = [0x149], g_button_count = 1\<rparr> 0 (Some 7) (Some 3) demo1)) = Some s2 \<and>
     (7, 39, Some 3) \<in> set (env s2)"
proof -
  let ?b = "\<lparr>g_buttons = [0x149], g_button_count = 1\<rparr>"
  have p: "gpio_pin 0x149 = 9" by (simp add: gpio_pin_field reg_field_def take_bit_eq_mod)
  have irq: "exti_irq 9 = 39" by (simp add: exti_irq_def irq_numbers)
  have "getreg32 STM32_EXTI_CPUPR1 (hw (snd (board_button_irq ?b 0 (Some 7) (Some 3) demo1))) = 0x220"
    by (simp add: board_button_irq_def setevent_pending demo1_pending)
  then have "bit (getreg32 STM32_EXTI_CPUPR1 (hw (snd (board_button_irq ?b 0 (Some 7) (Some 3) demo1)))) 9"
    by (simp add: bit_iff_odd_drop_bit drop_bit_eq_div)
  then show ?thesis
    using button_irq_delivers [OF demo1_reach, of 0 ?b 9 _ 7 "Some 3" "\<lambda>_. 0" None]
    by (auto simp: p irq)
qed

text \<open>
  Two buttons whose pins have the same number on different ports cannot both have an
  interrupt: they share one line and one callback, so registering a handler for the second
  button replaces the handler of the first and routes the line away from the first button's
  port.
\<close>

theorem button_irq_same_line:
  assumes "0 \<le> i" "i < int (g_button_count b)" "0 \<le> j" "j < int (g_button_count b)"
    and "gpio_pin (g_buttons b ! nat i) = gpio_pin (g_buttons b ! nat j)"
    and "gpio_valid (g_buttons b ! nat j)" "\<not> gpio_is_output (g_buttons b ! nat j)"
    and "s' = snd (board_button_irq b j (Some f') arg' (snd (board_button_irq b i (Some f) arg s)))"
  shows "g_gpio_callbacks s' =
           (g_gpio_callbacks s)[gpio_pin (g_buttons b ! nat i) := \<lparr>callback = Some f', cbarg = arg'\<rparr>] \<and>
         exti_abs (hw s') (gpio_pin (g_buttons b ! nat i)) =
           Some (word_of_nat (gpio_port (g_buttons b ! nat j)))"
proof -
  have "exti_abs (hw s') (gpio_pin (g_buttons b ! nat j)) = Some (word_of_nat (gpio_port (g_buttons b ! nat j)))"
    using assms(3,4,6,7) setevent_pin(2) [of True "Some f'" "g_buttons b ! nat j" True True arg'
        "snd (board_button_irq b i (Some f) arg s)"]
    unfolding assms(8) board_button_irq_def [of b j]
    by (simp add: gpio_valid_def gpio_is_output_def del: word_of_gpio_port)
  then show ?thesis
    using assms(1-5) by (simp add: assms(8) button_irq_callback)
qed

theorem button_irq_same_line_witness:
  "exti_abs (hw (snd (board_button_irq \<lparr>g_buttons = [pin_word BTN_FLAGS 0 3, pin_word BTN_FLAGS 1 3],
       g_button_count = 2\<rparr> 1 (Some 8) None (snd (board_button_irq \<lparr>g_buttons = [pin_word BTN_FLAGS 0 3,
       pin_word BTN_FLAGS 1 3], g_button_count = 2\<rparr> 0 (Some 7) None demo0))))) 3 = Some 1"
proof -
  let ?w = "\<lambda>port. pin_word BTN_FLAGS port 3"
  have f: "gpio_pin (?w port) = 3" "gpio_port (?w port) = port" "\<not> gpio_is_output (?w port)"
    if "port < 8" for port
  proof -
    have "cfg_of BTN_FLAGS = pin_reset"
      by (simp add: cfg_of_def pin_reset_def BTN_FLAGS_def gpio_consts reg_field_def Let_def
          take_bit_eq_mod drop_bit_eq_div bit_iff_odd_drop_bit)
    then show "gpio_pin (?w port) = 3" "gpio_port (?w port) = port" "\<not> gpio_is_output (?w port)"
      using that by (simp_all add: pin_word_parts btn.flags_ok pin_word_flags gpio_is_output_def pin_reset_def)
  qed
  show ?thesis
    using button_irq_same_line [of 0 "\<lparr>g_buttons = [?w 0, ?w 1], g_button_count = 2\<rparr>" 1, OF _ _ _ _ _ _ _ refl,
        of 8 None 7 None demo0] f [of 0] f [of 1]
    by (simp add: gpio_valid_def STM32H7_NGPIO_def del: word_of_gpio_port)
qed

end
