(* ===== verification/Board_Gpio.thy ===== *)
theory Board_Gpio
  imports Gpio_Upper Board_Buttons Board_Leds Pin_Frame
begin

text \<open>
  The GPIO devices of the board, \<^verbatim>\<open>boards/arm/stm32h7/nucleo-h753zi/src/stm32_gpio.c\<close>: the lower half
  of the GPIO character driver over the pins of the chip and their external interrupt lines.

  The structures of the three device arrays lie at consecutive addresses, the one input first,
  then the three outputs, then the one interrupt pin; \<open>lower\<close> holds what the board adds to a
  device, the index into the array of pins and the callback (of interrupt pins). The operation
  tables are tags, looked up by \<open>board_ops\<close>. The board's handler for the interrupt lines is the
  only function the table of the line callbacks holds, with the address of the device as argument.
\<close>

definition GPIO_INT1 :: u32 where
  "GPIO_INT1 = GPIO_INPUT OR GPIO_FLOAT OR GPIO_PORT 4 OR GPIO_PIN 5"

definition BOARD_NGPIOIN :: nat where "BOARD_NGPIOIN = 1"
definition BOARD_NGPIOOUT :: nat where "BOARD_NGPIOOUT = 3"
definition BOARD_NGPIOINT :: nat where "BOARD_NGPIOINT = 1"

lemmas ngpio = BOARD_NGPIOIN_def BOARD_NGPIOOUT_def BOARD_NGPIOINT_def

subsection \<open>Data\<close>

datatype gpio_ops_tag = g_gpin_ops | g_gpout_ops | g_gpint_ops

record stm32gpint_dev_s =
  id :: nat
  gpcallback :: "pin_interrupt_t option"

definition g_gpioinputs :: "u32 list" where "g_gpioinputs = [GPIO_BTN_BUILT_IN]"
definition g_gpiooutputs :: "u32 list" where "g_gpiooutputs = [GPIO_LD1, GPIO_LD2, GPIO_LD3]"
definition g_gpiointinputs :: "u32 list" where "g_gpiointinputs = [GPIO_INT1]"

definition gpin_addr :: "nat \<Rightarrow> nat" where "gpin_addr i = i"
definition gpout_addr :: "nat \<Rightarrow> nat" where "gpout_addr i = BOARD_NGPIOIN + i"
definition gpint_addr :: "nat \<Rightarrow> nat" where "gpint_addr i = BOARD_NGPIOIN + BOARD_NGPIOOUT + i"

type_synonym 'e gpio_dev = "('e, gpio_ops_tag, stm32gpint_dev_s) gpio_dev_s"
type_synonym 'e genv = "('e, gpio_ops_tag, stm32gpint_dev_s) gpio_env"
type_synonym 'e gstate = "(board_isr, nat, 'e, gpio_ops_tag, stm32gpint_dev_s) gpio_state"

subsection \<open>The operations\<close>

definition gpio_interrupt_handler :: "board_isr \<Rightarrow> int \<Rightarrow> nat option \<Rightarrow> 'e genv \<Rightarrow> int \<times> 'e genv" where
  "gpio_interrupt_handler f irq arg e =
     (case arg of
        None \<Rightarrow> (OK, e\<lparr>fault := True\<rparr>)
      | Some a \<Rightarrow>
          (case gpcallback (lower (gpio_mem e a)) of
             None \<Rightarrow> (OK, e\<lparr>fault := True\<rparr>)
           | Some gpio_handler_p \<Rightarrow> (OK, gpio_handler a e)))"

definition stm32_gpin_read :: "nat \<Rightarrow> 'e gstate \<Rightarrow> int \<times> bool \<times> 'e gstate" where
  "stm32_gpin_read dev s = (OK, stm32_gpioread (g_gpioinputs ! id (lower (gdev dev s))) (hw s), s)"

definition stm32_gpout_read :: "nat \<Rightarrow> 'e gstate \<Rightarrow> int \<times> bool \<times> 'e gstate" where
  "stm32_gpout_read dev s = (OK, stm32_gpioread (g_gpiooutputs ! id (lower (gdev dev s))) (hw s), s)"

definition stm32_gpout_write :: "nat \<Rightarrow> bool \<Rightarrow> 'e gstate \<Rightarrow> int \<times> 'e gstate" where
  "stm32_gpout_write dev val s =
     (OK, on_hw (stm32_gpiowrite (g_gpiooutputs ! id (lower (gdev dev s))) val) s)"

definition stm32_gpint_read :: "nat \<Rightarrow> 'e gstate \<Rightarrow> int \<times> bool \<times> 'e gstate" where
  "stm32_gpint_read dev s = (OK, stm32_gpioread (g_gpiointinputs ! id (lower (gdev dev s))) (hw s), s)"

definition stm32_gpint_attach :: "nat \<Rightarrow> pin_interrupt_t option \<Rightarrow> 'e gstate \<Rightarrow> int \<times> 'e gstate" where
  "stm32_gpint_attach dev callbk s =
     (let (_, s) = stm32_gpiosetevent (g_gpiointinputs ! id (lower (gdev dev s)))
                     False False False None None s
      in (OK, upd_dev dev (\<lambda>d. d\<lparr>lower := (lower d)\<lparr>gpcallback := callbk\<rparr>\<rparr>) s))"

definition stm32_gpint_enable :: "nat \<Rightarrow> bool \<Rightarrow> 'e gstate \<Rightarrow> int \<times> 'e gstate" where
  "stm32_gpint_enable dev enable s =
     (let i = id (lower (gdev dev s)) in
      if enable then
        (if gpcallback (lower (gdev dev s)) = None then (- EINVAL, s)
         else
           let (_, s) = stm32_gpiosetevent (g_gpiointinputs ! i) True False False
                          (Some stm32_gpio_interrupt_handler) (Some (gpint_addr i)) s
           in (OK, s))
      else
        let (_, s) = stm32_gpiosetevent (g_gpiointinputs ! i) False False False None None s
        in (OK, s))"

fun board_ops :: "gpio_ops_tag \<Rightarrow> 'e gstate gpio_operations_s" where
  "board_ops g_gpin_ops =
     \<lparr>go_read = Some stm32_gpin_read, go_write = None, go_attach = None, go_enable = None,
      go_setpintype = None\<rparr>"
| "board_ops g_gpout_ops =
     \<lparr>go_read = Some stm32_gpout_read, go_write = Some stm32_gpout_write, go_attach = None,
      go_enable = None, go_setpintype = None\<rparr>"
| "board_ops g_gpint_ops =
     \<lparr>go_read = Some stm32_gpint_read, go_write = None, go_attach = Some stm32_gpint_attach,
      go_enable = Some stm32_gpint_enable, go_setpintype = None\<rparr>"

subsection \<open>Initialization\<close>

text \<open>
  The three loops, from index \<open>i\<close> on, for the pins still to visit. The counter of the pins done
  is carried in the result; the return value of \<^verbatim>\<open>gpio_pin_register\<close> is dropped, as in the source.
\<close>

fun init_input_loop ::
  "(string \<Rightarrow> (string \<times> nat) list \<Rightarrow> int) \<Rightarrow> u32 list \<Rightarrow> nat \<Rightarrow> nat \<Rightarrow> 'e gstate \<Rightarrow>
   (nat \<times> nat \<times> 'e gstate) option" where
  "init_input_loop reserve [] i pincount s = Some (0, pincount, s)"
| "init_input_loop reserve (c # cs) i pincount s =
     (let s = upd_dev (gpin_addr i)
                (\<lambda>d. d\<lparr>gp_pintype := GPIO_INPUT_PIN, gp_ops := g_gpin_ops, lower := (lower d)\<lparr>id := i\<rparr>\<rparr>) s
      in case gpio_pin_register board_ops reserve (gpin_addr i) pincount s of
           None \<Rightarrow> None
         | Some (_, s) \<Rightarrow>
             let s = on_hw (\<lambda>h. snd (stm32_configgpio c h)) s in
             map_option (\<lambda>(n, rest). (Suc n, rest)) (init_input_loop reserve cs (Suc i) (Suc pincount) s))"

definition stm32_gpio_init_input_pins ::
  "(string \<Rightarrow> (string \<times> nat) list \<Rightarrow> int) \<Rightarrow> nat \<Rightarrow> 'e gstate \<Rightarrow> (nat \<times> nat \<times> 'e gstate) option" where
  "stm32_gpio_init_input_pins reserve pincount s =
     init_input_loop reserve (take BOARD_NGPIOIN g_gpioinputs) 0 pincount s"

fun init_output_loop ::
  "(string \<Rightarrow> (string \<times> nat) list \<Rightarrow> int) \<Rightarrow> u32 list \<Rightarrow> nat \<Rightarrow> nat \<Rightarrow> 'e gstate \<Rightarrow>
   (nat \<times> nat \<times> 'e gstate) option" where
  "init_output_loop reserve [] i pincount s = Some (0, pincount, s)"
| "init_output_loop reserve (c # cs) i pincount s =
     (let s = upd_dev (gpout_addr i)
                (\<lambda>d. d\<lparr>gp_pintype := GPIO_OUTPUT_PIN, gp_ops := g_gpout_ops, lower := (lower d)\<lparr>id := i\<rparr>\<rparr>) s
      in case gpio_pin_register board_ops reserve (gpout_addr i) pincount s of
           None \<Rightarrow> None
         | Some (_, s) \<Rightarrow>
             let s = on_hw (stm32_gpiowrite c False) s;
                 s = on_hw (\<lambda>h. snd (stm32_configgpio c h)) s in
             map_option (\<lambda>(n, rest). (Suc n, rest)) (init_output_loop reserve cs (Suc i) (Suc pincount) s))"

definition stm32_gpio_init_output_pins ::
  "(string \<Rightarrow> (string \<times> nat) list \<Rightarrow> int) \<Rightarrow> nat \<Rightarrow> 'e gstate \<Rightarrow> (nat \<times> nat \<times> 'e gstate) option" where
  "stm32_gpio_init_output_pins reserve pincount s =
     init_output_loop reserve (take BOARD_NGPIOOUT g_gpiooutputs) 0 pincount s"

fun init_interrupt_loop ::
  "(string \<Rightarrow> (string \<times> nat) list \<Rightarrow> int) \<Rightarrow> u32 list \<Rightarrow> nat \<Rightarrow> nat \<Rightarrow> 'e gstate \<Rightarrow>
   (nat \<times> nat \<times> 'e gstate) option" where
  "init_interrupt_loop reserve [] i pincount s = Some (0, pincount, s)"
| "init_interrupt_loop reserve (c # cs) i pincount s =
     (let s = upd_dev (gpint_addr i)
                (\<lambda>d. d\<lparr>gp_pintype := GPIO_INTERRUPT_PIN, gp_ops := g_gpint_ops,
                       lower := (lower d)\<lparr>id := i, gpcallback := None\<rparr>\<rparr>) s
      in case gpio_pin_register board_ops reserve (gpint_addr i) pincount s of
           None \<Rightarrow> None
         | Some (_, s) \<Rightarrow>
             let s = on_hw (\<lambda>h. snd (stm32_configgpio c h)) s in
             map_option (\<lambda>(n, rest). (Suc n, rest)) (init_interrupt_loop reserve cs (Suc i) (Suc pincount) s))"

definition stm32_gpio_init_interrupt_pins ::
  "(string \<Rightarrow> (string \<times> nat) list \<Rightarrow> int) \<Rightarrow> nat \<Rightarrow> 'e gstate \<Rightarrow> (nat \<times> nat \<times> 'e gstate) option" where
  "stm32_gpio_init_interrupt_pins reserve pincount s =
     init_interrupt_loop reserve (take BOARD_NGPIOINT g_gpiointinputs) 0 pincount s"

definition stm32_gpio_initialize ::
  "(string \<Rightarrow> (string \<times> nat) list \<Rightarrow> int) \<Rightarrow> 'e gstate \<Rightarrow> (int \<times> 'e gstate) option" where
  "stm32_gpio_initialize reserve s =
     (case stm32_gpio_init_input_pins reserve 0 s of
        None \<Rightarrow> None
      | Some (_, pincount, s) \<Rightarrow>
     (case stm32_gpio_init_output_pins reserve pincount s of
        None \<Rightarrow> None
      | Some (_, pincount, s) \<Rightarrow>
     (case stm32_gpio_init_interrupt_pins reserve pincount s of
        None \<Rightarrow> None
      | Some (_, _, s) \<Rightarrow> Some (OK, s))))"

subsection \<open>How the parts of the state move\<close>

lemma dev_simps [simp]:
  "gdev a (on_hw f s) = gdev a s" "env (on_hw f s) = env s"
  "gdev a (upd_dev b g s) = (if a = b then g (gdev a s) else gdev a s)"
  "hw (upd_dev b g s) = hw s" "g_gpio_callbacks (upd_dev b g s) = g_gpio_callbacks s"
  "g_irqvector (upd_dev b g s) = g_irqvector s"
  "inodes (env (upd_dev b g s)) = inodes (env s)" "fault (env (upd_dev b g s)) = fault (env s)"
  "pw (env (upd_dev b g s)) = pw (env s)" "siglog (env (upd_dev b g s)) = siglog (env s)"
  by (simp_all add: gdev_def upd_dev_def on_hw_def)

lemma setevent_env [simp]:
  "env (snd (stm32_gpiosetevent c re fe ev f a s)) = env s"
  "gdev d (snd (stm32_gpiosetevent c re fe ev f a s)) = gdev d s"
  by (simp_all add: setevent_state gdev_def)

lemma setevent_cbs [simp]:
  "g_gpio_callbacks (snd (stm32_gpiosetevent c re fe ev f a s)) =
     (g_gpio_callbacks s)[gpio_pin c := \<lparr>callback = f, cbarg = a\<rparr>]"
  by (simp add: setevent_state)

definition INT_FLAGS :: u32 where "INT_FLAGS = 0"

lemma int1_word: "GPIO_INT1 = pin_word INT_FLAGS 4 5"
  by (simp add: GPIO_INT1_def pin_word_def INT_FLAGS_def gpio_consts)

lemma int1 [simp]:
  "gpio_valid GPIO_INT1" "\<not> gpio_is_output GPIO_INT1" "gpio_loc GPIO_INT1 = (4, 5)" "gpio_pin GPIO_INT1 = 5"
  "cfg_of GPIO_INT1 = pin_reset"
proof -
  have f: "flag_word INT_FLAGS" by (simp add: flag_word_def INT_FLAGS_def)
  then show "gpio_valid GPIO_INT1" "gpio_loc GPIO_INT1 = (4, 5)" "gpio_pin GPIO_INT1 = 5"
    by (simp_all add: int1_word gpio_valid_def gpio_loc_def pin_word_parts STM32H7_NGPIO_def)
  show cfg: "cfg_of GPIO_INT1 = pin_reset"
    by (simp add: int1_word pin_word_flags) (simp add: INT_FLAGS_def cfg_of_def pin_reset_def Let_def reg_field_def)
  show "\<not> gpio_is_output GPIO_INT1" by (simp add: gpio_is_output_def cfg pin_reset_def)
qed

lemma exti_inv_parts:
  "hw s' = hw s \<Longrightarrow> g_gpio_callbacks s' = g_gpio_callbacks s \<Longrightarrow> g_irqvector s' = g_irqvector s \<Longrightarrow>
   exti_inv s' \<longleftrightarrow> exti_inv s"
  by (simp add: exti_inv_def)

lemma exti_inv_upd_dev [simp]: "exti_inv (upd_dev a f s) \<longleftrightarrow> exti_inv s"
  by (rule exti_inv_parts) simp_all

subsection \<open>The devices of the board\<close>

definition is_dev :: "gpio_pintype_e \<Rightarrow> gpio_ops_tag \<Rightarrow> nat \<Rightarrow> 'e gpio_dev \<Rightarrow> bool" where
  "is_dev t ops i d \<longleftrightarrow> gp_pintype d = t \<and> gp_ops d = ops \<and> id (lower d) = i"

definition gpio_ready :: "'e gstate \<Rightarrow> bool" where
  "gpio_ready s \<longleftrightarrow>
     is_dev GPIO_INPUT_PIN g_gpin_ops 0 (gdev 0 s) \<and>
     is_dev GPIO_OUTPUT_PIN g_gpout_ops 0 (gdev 1 s) \<and>
     is_dev GPIO_OUTPUT_PIN g_gpout_ops 1 (gdev 2 s) \<and>
     is_dev GPIO_OUTPUT_PIN g_gpout_ops 2 (gdev 3 s) \<and>
     is_dev GPIO_INTERRUPT_PIN g_gpint_ops 0 (gdev 4 s)"

text \<open>
  The invariant of the interrupt pin: its line has the board's handler exactly if somebody is
  registered, then with the device as its argument and with a callback for it to call; no other
  line has a handler, except those of \<open>K\<close>, which belong to other drivers and have the callbacks that
  \<open>K\<close> says; and no NULL pointer has been called.
\<close>

definition gpint_inv :: "(nat \<rightharpoonup> (board_isr, nat) gpio_callback_s) \<Rightarrow> 'e gstate \<Rightarrow> bool" where
  "gpint_inv K s \<longleftrightarrow>
     gpio_ready s \<and> exti_inv s \<and> sig_inv (gp_signals (gdev 4 s)) \<and> \<not> fault (env s) \<and>
     (\<forall>q < 16. q \<noteq> 5 \<longrightarrow> K q = None \<longrightarrow> callback (g_gpio_callbacks s ! q) = None) \<and>
     (\<forall>q < 16. \<forall>x. q \<noteq> 5 \<longrightarrow> K q = Some x \<longrightarrow> g_gpio_callbacks s ! q = x) \<and>
     g_gpio_callbacks s ! 5 =
       (if register_count (gdev 4 s) = 0 then \<lparr>callback = None, cbarg = None\<rparr>
        else \<lparr>callback = Some stm32_gpio_interrupt_handler, cbarg = Some 4\<rparr>) \<and>
     (register_count (gdev 4 s) \<noteq> 0 \<longrightarrow> gpcallback (lower (gdev 4 s)) = Some gpio_handler_p)"

lemma pintype_order [simp]:
  "\<not> GPIO_INTERRUPT_PIN \<le> GPIO_INPUT_PIN" "\<not> GPIO_INTERRUPT_PIN \<le> GPIO_OUTPUT_PIN"
  by (simp_all add: less_eq_gpio_pintype_e_def pintype_num_def pintypes_def)

lemma gpint_inv_len: "gpint_inv K s \<Longrightarrow> length (g_gpio_callbacks s) = 16"
  by (simp add: gpint_inv_def exti_inv_def)

lemma gpint_no_fault: "gpint_inv K s \<Longrightarrow> \<not> fault (env s)"
  by (simp add: gpint_inv_def)

lemma gpint_addr_0 [simp]: "gpint_addr 0 = 4" by (simp add: gpint_addr_def ngpio)

lemma pin_irq_nth [simp]: "g_gpiointinputs ! 0 = GPIO_INT1" by (simp add: g_gpiointinputs_def)

text \<open>What the two operations on the interrupt pin do, when the device is the one.\<close>

lemma attach_eq:
  "is_dev GPIO_INTERRUPT_PIN g_gpint_ops 0 (gdev a s) \<Longrightarrow>
   stm32_gpint_attach a cbk s =
     (OK, upd_dev a (\<lambda>d. d\<lparr>lower := (lower d)\<lparr>gpcallback := cbk\<rparr>\<rparr>)
            (snd (stm32_gpiosetevent GPIO_INT1 False False False None None s)))"
  by (simp add: stm32_gpint_attach_def is_dev_def split_beta)

lemma enable_eq:
  "is_dev GPIO_INTERRUPT_PIN g_gpint_ops 0 (gdev a s) \<Longrightarrow>
   stm32_gpint_enable a False s = (OK, snd (stm32_gpiosetevent GPIO_INT1 False False False None None s))"
  "is_dev GPIO_INTERRUPT_PIN g_gpint_ops 0 (gdev a s) \<Longrightarrow> gpcallback (lower (gdev a s)) \<noteq> None \<Longrightarrow>
   stm32_gpint_enable a True s =
     (OK, snd (stm32_gpiosetevent GPIO_INT1 True False False (Some stm32_gpio_interrupt_handler) (Some 4) s))"
  by (simp_all add: stm32_gpint_enable_def is_dev_def split_beta Let_def)

lemma is_dev_upd [simp]:
  "is_dev t ops i (d\<lparr>gp_signals := x\<rparr>) \<longleftrightarrow> is_dev t ops i d"
  "is_dev t ops i (d\<lparr>register_count := n\<rparr>) \<longleftrightarrow> is_dev t ops i d"
  "is_dev t ops i (d\<lparr>int_count := m\<rparr>) \<longleftrightarrow> is_dev t ops i d"
  "is_dev t ops i (d\<lparr>fds := fs\<rparr>) \<longleftrightarrow> is_dev t ops i d"
  "is_dev t ops i (d\<lparr>lower := (lower d)\<lparr>gpcallback := cbk\<rparr>\<rparr>) \<longleftrightarrow> is_dev t ops i d"
  by (simp_all add: is_dev_def)

text \<open>
  Registering: with nobody registered the handler is attached and the line enabled; otherwise
  only the count and the table change.
\<close>

definition gpint_regd :: "'e gpio_signal_s list \<Rightarrow> 'e gstate \<Rightarrow> 'e gstate" where
  "gpint_regd sigs s =
     (let s1 = upd_dev 4 (\<lambda>d. d\<lparr>gp_signals := sigs, register_count := register_count d + 1\<rparr>) s in
      if register_count (gdev 4 s) > 0 then s1
      else snd (stm32_gpiosetevent GPIO_INT1 True False False (Some stm32_gpio_interrupt_handler) (Some 4)
             (upd_dev 4 (\<lambda>d. d\<lparr>lower := (lower d)\<lparr>gpcallback := Some gpio_handler_p\<rparr>\<rparr>)
               (snd (stm32_gpiosetevent GPIO_INT1 False False False None None s1)))))"

definition new_sigs :: "int \<Rightarrow> 'e option \<Rightarrow> 'e gpio_signal_s list \<Rightarrow> 'e gpio_signal_s list option" where
  "new_sigs pid arg sigs =
     (case arg of
        None \<Rightarrow> Some sigs
      | Some ev \<Rightarrow> if sigs = [] then Some [] else sig_register pid ev sigs)"

lemma new_sigs_inv: "sig_inv sigs \<Longrightarrow> pid \<noteq> 0 \<Longrightarrow> new_sigs pid arg sigs = Some sigs' \<Longrightarrow> sig_inv sigs'"
  using sigs.sub_ok [of sigs pid] by (auto simp: new_sigs_def split: option.splits if_splits)

lemma gpioc_register_eq:
  assumes "gpio_ready s"
  shows "gpioc_register board_ops pid 4 arg s =
    Some (case new_sigs pid arg (gp_signals (gdev 4 s)) of
            None \<Rightarrow> (- EBUSY, s) | Some sigs \<Rightarrow> (OK, gpint_regd sigs s))"
proof -
  have "is_dev GPIO_INTERRUPT_PIN g_gpint_ops 0 (gdev 4 s)" using assms by (simp add: gpio_ready_def)
  then show ?thesis
    by (simp add: is_dev_def gpioc_register_def gpint_regd_def new_sigs_def [symmetric] attach_eq enable_eq Let_def
        split: option.split)
qed

text \<open>Removal: when the count gets to zero, the line is disabled and the callback removed.\<close>

definition gpint_unregd :: "'e gpio_signal_s list \<Rightarrow> 'e gstate \<Rightarrow> 'e gstate" where
  "gpint_unregd sigs s =
     (let s1 = upd_dev 4 (\<lambda>d. d\<lparr>gp_signals := sigs, register_count := register_count d - 1\<rparr>) s;
          clear = (\<lambda>s. snd (stm32_gpiosetevent GPIO_INT1 False False False None None s)) in
      if register_count (gdev 4 s1) > 0 then s1
      else upd_dev 4 (\<lambda>d. d\<lparr>lower := (lower d)\<lparr>gpcallback := None\<rparr>\<rparr>) (clear (clear s1)))"

lemma gpioc_unregister_eq:
  assumes "gpio_ready s"
  shows "gpioc_unregister board_ops pid 4 s =
    Some (OK, gpint_unregd (sig_unregister pid (gp_signals (gdev 4 s))) s)"
proof -
  have "is_dev GPIO_INTERRUPT_PIN g_gpint_ops 0 (gdev 4 s)" using assms by (simp add: gpio_ready_def)
  moreover have "upd_dev 4 (\<lambda>d. d\<lparr>gp_signals := sig_unregister pid (gp_signals d), register_count := register_count d - 1\<rparr>) s =
      upd_dev 4 (\<lambda>d. d\<lparr>gp_signals := sig_unregister pid (gp_signals (gdev 4 s)), register_count := register_count d - 1\<rparr>) s"
    by (simp add: upd_dev_def gdev_def)
  ultimately show ?thesis
    by (simp add: is_dev_def gpioc_unregister_def gpint_unregd_def attach_eq enable_eq Let_def)
qed

lemma gpio_ready_cong:
  "(\<And>a. gp_pintype (gdev a s') = gp_pintype (gdev a s) \<and> gp_ops (gdev a s') = gp_ops (gdev a s) \<and>
        id (lower (gdev a s')) = id (lower (gdev a s))) \<Longrightarrow> gpio_ready s' \<longleftrightarrow> gpio_ready s"
  by (simp add: gpio_ready_def is_dev_def)

lemma gpint_inv_regd:
  assumes "gpint_inv K s" "sig_inv sigs" "register_count (gdev 4 s) \<noteq> - 1"
  shows "gpint_inv K (gpint_regd sigs s)"
proof -
  have r: "gpio_ready (gpint_regd sigs s)"
    using assms(1) by (subst gpio_ready_cong [of _ s]) (simp_all add: gpint_regd_def gpint_inv_def Let_def)
  have n: "register_count (gdev 4 s) + 1 \<noteq> 0" using assms(3) by (metis add_eq_0_iff2)
  show ?thesis
    using assms n r gpint_inv_len [OF assms(1)]
    by (auto simp: gpint_inv_def gpint_regd_def Let_def exti_inv_setevent word_greater_zero_iff split: if_splits)
qed

lemma gpint_inv_unregd:
  assumes "gpint_inv K s" "sig_inv sigs" "register_count (gdev 4 s) \<noteq> 0"
  shows "gpint_inv K (gpint_unregd sigs s)"
proof -
  have r: "gpio_ready (gpint_unregd sigs s)"
    using assms(1) by (subst gpio_ready_cong [of _ s]) (simp_all add: gpint_unregd_def gpint_inv_def Let_def)
  show ?thesis
    using assms r gpint_inv_len [OF assms(1)]
    by (auto simp: gpint_inv_def gpint_unregd_def Let_def exti_inv_setevent word_greater_zero_iff split: if_splits)
qed

subsection \<open>Start-up\<close>

definition gpio_path :: "nat \<Rightarrow> string" where "gpio_path n = ''/dev/gpio'' @ dec_str n"

lemma gpio_path_eq:
  "n < 10 \<Longrightarrow> gpio_path n = ''/dev/gpio'' @ [''0123456789'' ! n]"
  "n < 10 \<Longrightarrow> 0 < k \<Longrightarrow> take k (dec_str n) = dec_str n"
  by (simp_all add: gpio_path_def dec_str.simps)

lemma register_driver_simps [simp]:
  "gdev b (snd (gpio_register_driver reserve path a s)) = gdev b s"
  "hw (snd (gpio_register_driver reserve path a s)) = hw s"
  "g_gpio_callbacks (snd (gpio_register_driver reserve path a s)) = g_gpio_callbacks s"
  "g_irqvector (snd (gpio_register_driver reserve path a s)) = g_irqvector s"
  "fault (env (snd (gpio_register_driver reserve path a s))) = fault (env s)"
  "inodes (env (snd (gpio_register_driver reserve path a s))) =
     inodes (env s) @ (if 0 \<le> reserve path (inodes (env s)) then [(path, a)] else [])"
  by (simp_all add: gpio_register_driver_def register_driver_def split_beta gdev_def Let_def)

lemma exti_inv_register [simp]: "exti_inv (snd (gpio_register_driver reserve path a s)) \<longleftrightarrow> exti_inv s"
  by (rule exti_inv_parts) simp_all

text \<open>The states the three kinds of pin leave behind, for device \<open>a\<close> with pin word \<open>c\<close>.\<close>

definition set_pin :: "nat \<Rightarrow> gpio_pintype_e \<Rightarrow> gpio_ops_tag \<Rightarrow> nat \<Rightarrow> 'e gstate \<Rightarrow> 'e gstate" where
  "set_pin a t ops i s = upd_dev a (\<lambda>d. d\<lparr>gp_pintype := t, gp_ops := ops, lower := (lower d)\<lparr>id := i\<rparr>\<rparr>) s"

definition reg_pin :: "(string \<Rightarrow> (string \<times> nat) list \<Rightarrow> int) \<Rightarrow> nat \<Rightarrow> 'e gstate \<Rightarrow> 'e gstate" where
  "reg_pin reserve a s = snd (gpio_register_driver reserve (gpio_path a) a s)"

definition input_done where
  "input_done reserve s =
     on_hw (\<lambda>h. snd (stm32_configgpio GPIO_BTN_BUILT_IN h)) (reg_pin reserve 0 (set_pin 0 GPIO_INPUT_PIN g_gpin_ops 0 s))"

definition output_done where
  "output_done reserve c i s =
     on_hw (\<lambda>h. snd (stm32_configgpio c h)) (on_hw (stm32_gpiowrite c False)
       (reg_pin reserve (Suc i) (set_pin (Suc i) GPIO_OUTPUT_PIN g_gpout_ops i s)))"

definition interrupt_done where
  "interrupt_done reserve s =
     on_hw (\<lambda>h. snd (stm32_configgpio GPIO_INT1 h)) (reg_pin reserve 4
       (snd (stm32_gpiosetevent GPIO_INT1 False False False None None
         (upd_dev 4 (\<lambda>d. d\<lparr>gp_pintype := GPIO_INTERRUPT_PIN, gp_ops := g_gpint_ops,
            lower := (lower d)\<lparr>id := 0, gpcallback := None\<rparr>\<rparr>) s))))"

lemma pin_register_io:
  "gp_pintype (gdev a s) = GPIO_INPUT_PIN \<or> gp_pintype (gdev a s) = GPIO_OUTPUT_PIN \<Longrightarrow> a < 10 \<Longrightarrow>
   gpio_pin_register board_ops reserve a a s = Some (gpio_register_driver reserve (gpio_path a) a s)"
  by (auto simp: gpio_pin_register_def gpio_pin_register_byname_def gpio_path_eq(2) gpio_path_def)

lemma pin_register_int:
  "is_dev GPIO_INTERRUPT_PIN g_gpint_ops 0 (gdev a s) \<Longrightarrow> a < 10 \<Longrightarrow>
   gpio_pin_register board_ops reserve a a s =
     Some (gpio_register_driver reserve (gpio_path a) a (snd (stm32_gpiosetevent GPIO_INT1 False False False None None s)))"
  using enable_eq(1) [of a s]
  by (simp add: gpio_pin_register_def gpio_pin_register_byname_def gpio_path_eq(2) gpio_path_def is_dev_def)

lemma init_inputs_eq:
  "stm32_gpio_init_input_pins reserve 0 s = Some (1, 1, input_done reserve s)"
  by (simp add: stm32_gpio_init_input_pins_def ngpio g_gpioinputs_def gpin_addr_def pin_register_io Let_def
      input_done_def reg_pin_def set_pin_def split_beta)

lemma init_outputs_eq:
  "stm32_gpio_init_output_pins reserve 1 s =
     Some (3, 4, output_done reserve GPIO_LD3 2 (output_done reserve GPIO_LD2 1 (output_done reserve GPIO_LD1 0 s)))"
  by (simp add: stm32_gpio_init_output_pins_def ngpio g_gpiooutputs_def gpout_addr_def Let_def
      output_done_def reg_pin_def set_pin_def split_beta pin_register_io eval_nat_numeral)

lemma init_interrupts_eq:
  "stm32_gpio_init_interrupt_pins reserve 4 s = Some (1, 5, interrupt_done reserve s)"
  by (simp add: stm32_gpio_init_interrupt_pins_def ngpio g_gpiointinputs_def gpint_addr_def Let_def
      interrupt_done_def reg_pin_def split_beta is_dev_def pin_register_int)


lemma builtin [simp]: "gpio_valid GPIO_BTN_BUILT_IN" "\<not> gpio_is_output GPIO_BTN_BUILT_IN" "gpio_loc GPIO_BTN_BUILT_IN = (2, 13)"
proof -
  have f: "flag_word BTN_FLAGS" "pc_mode (cfg_of BTN_FLAGS) = 0"
    by (simp_all add: flag_word_def BTN_FLAGS_def gpio_consts take_bit_eq_mod cfg_of_def Let_def reg_field_def)
  then show "gpio_valid GPIO_BTN_BUILT_IN" "gpio_loc GPIO_BTN_BUILT_IN = (2, 13)" "\<not> gpio_is_output GPIO_BTN_BUILT_IN"
    by (simp_all add: built_in_word gpio_valid_def gpio_loc_def pin_word_parts STM32H7_NGPIO_def gpio_is_output_def
        pin_word_flags)
qed

lemma pin_step_simps [simp]:
  "hw (reg_pin reserve a s) = hw s" "hw (set_pin a t ops i s) = hw s"
  "gdev b (reg_pin reserve a s) = gdev b s"
  "g_gpio_callbacks (reg_pin reserve a s) = g_gpio_callbacks s"
  "g_gpio_callbacks (set_pin a t ops i s) = g_gpio_callbacks s"
  "fault (env (reg_pin reserve a s)) = fault (env s)" "fault (env (set_pin a t ops i s)) = fault (env s)"
  "exti_inv (reg_pin reserve a s) \<longleftrightarrow> exti_inv s" "exti_inv (set_pin a t ops i s) \<longleftrightarrow> exti_inv s"
  "inodes (env (set_pin a t ops i s)) = inodes (env s)"
  by (simp_all add: reg_pin_def set_pin_def)

lemma gdev_set_pin [simp]:
  "gdev b (set_pin a t ops i s) =
     (if b = a then (gdev b s)\<lparr>gp_pintype := t, gp_ops := ops, lower := (lower (gdev b s))\<lparr>id := i\<rparr>\<rparr> else gdev b s)"
  by (simp add: set_pin_def)

lemmas pins_done = input_done_def output_done_def interrupt_done_def

lemma done_gdev [simp]:
  "gdev b (input_done reserve s) = gdev b (set_pin 0 GPIO_INPUT_PIN g_gpin_ops 0 s)"
  "gdev b (output_done reserve c i s) = gdev b (set_pin (Suc i) GPIO_OUTPUT_PIN g_gpout_ops i s)"
  "gdev b (interrupt_done reserve s) =
     (if b = 4 then (gdev b s)\<lparr>gp_pintype := GPIO_INTERRUPT_PIN, gp_ops := g_gpint_ops,
        lower := (lower (gdev b s))\<lparr>id := 0, gpcallback := None\<rparr>\<rparr> else gdev b s)"
  by (simp_all add: pins_done)

lemma done_tables [simp]:
  "g_gpio_callbacks (input_done reserve s) = g_gpio_callbacks s"
  "g_gpio_callbacks (output_done reserve c i s) = g_gpio_callbacks s"
  "g_gpio_callbacks (interrupt_done reserve s) = (g_gpio_callbacks s)[5 := \<lparr>callback = None, cbarg = None\<rparr>]"
  "fault (env (input_done reserve s)) = fault (env s)" "fault (env (output_done reserve c i s)) = fault (env s)"
  "fault (env (interrupt_done reserve s)) = fault (env s)"
  by (simp_all add: pins_done)

lemma done_inv [simp]:
  "exti_inv s \<Longrightarrow> exti_inv (input_done reserve s)"
  "exti_inv s \<Longrightarrow> exti_inv (output_done reserve c i s)"
  "exti_inv s \<Longrightarrow> exti_inv (interrupt_done reserve s)"
  by (simp_all add: pins_done exti_inv_hw configgpio_writes_in gpiowrite_writes_in exti_inv_setevent)

lemma done_hw [simp]:
  "gpio_abs (hw (input_done reserve s)) = (gpio_abs (hw s))((2, 13) \<mapsto> cfg_of GPIO_BTN_BUILT_IN)"
  "level_abs (hw (input_done reserve s)) = level_abs (hw s)"
  "gpio_abs (hw (interrupt_done reserve s)) = (gpio_abs (hw s))((4, 5) \<mapsto> pin_reset)"
  "level_abs (hw (interrupt_done reserve s)) = level_abs (hw s)"
  "c \<in> {GPIO_LD1, GPIO_LD2, GPIO_LD3} \<Longrightarrow>
     gpio_abs (hw (output_done reserve c i s)) = (gpio_abs (hw s))(gpio_loc c \<mapsto> cfg_of LED_FLAGS)"
  "c \<in> {GPIO_LD1, GPIO_LD2, GPIO_LD3} \<Longrightarrow>
     level_abs (hw (output_done reserve c i s)) = (level_abs (hw s))(gpio_loc c \<mapsto> False)"
  using led_config [of c] by (simp_all add: pins_done gpio.cfg_pins gpio.cfg_level gpio.wr_pins gpio.wr_level setevent_input
      del: insert_iff)

definition add_node :: "(string \<Rightarrow> (string \<times> nat) list \<Rightarrow> int) \<Rightarrow> nat \<Rightarrow> (string \<times> nat) list \<Rightarrow> (string \<times> nat) list" where
  "add_node reserve a ns = ns @ (if 0 \<le> reserve (gpio_path a) ns then [(gpio_path a, a)] else [])"

lemma done_nodes [simp]:
  "inodes (env (input_done reserve s)) = add_node reserve 0 (inodes (env s))"
  "inodes (env (output_done reserve c i s)) = add_node reserve (Suc i) (inodes (env s))"
  "inodes (env (interrupt_done reserve s)) = add_node reserve 4 (inodes (env s))"
  by (simp_all add: pins_done reg_pin_def add_node_def)

lemma gpio_path_inj: "a < 10 \<Longrightarrow> b < 10 \<Longrightarrow> gpio_path a = gpio_path b \<longleftrightarrow> a = b"
proof -
  have "distinct ''0123456789''" by simp
  then show "a < 10 \<Longrightarrow> b < 10 \<Longrightarrow> ?thesis" by (simp add: gpio_path_eq(1) nth_eq_iff_index_eq)
qed

lemma add_nodes:
  assumes "\<forall>path ns. path \<notin> fst ` set ns \<longrightarrow> 0 \<le> reserve path ns" "\<forall>i < 5. gpio_path i \<notin> fst ` set ns" "n \<le> 5"
  shows "fold (add_node reserve) [0..<n] ns = ns @ map (\<lambda>i. (gpio_path i, i)) [0..<n]"
  using assms(3)
proof (induction n)
  case (Suc n)
  then have "gpio_path n \<notin> fst ` set ns" "gpio_path n \<notin> gpio_path ` {0..<n}"
    using assms(2) by (auto simp: gpio_path_inj)
  then have "gpio_path n \<notin> fst ` set (ns @ map (\<lambda>i. (gpio_path i, i)) [0..<n])"
    by (simp add: image_Un image_image)
  then have "0 \<le> reserve (gpio_path n) (ns @ map (\<lambda>i. (gpio_path i, i)) [0..<n])" using assms(1) by blast
  with Suc show ?case by (simp add: add_node_def)
qed simp

definition gpio_boot :: "'e gstate \<Rightarrow> bool" where
  "gpio_boot s \<longleftrightarrow>
     exti_start s \<and> register_count (gdev 4 s) = 0 \<and>
     list_all (\<lambda>x. gp_pid x = 0) (gp_signals (gdev 4 s)) \<and> \<not> fault (env s)"

definition gpio_ready_state :: "(string \<Rightarrow> (string \<times> nat) list \<Rightarrow> int) \<Rightarrow> 'e gstate \<Rightarrow> 'e gstate" where
  "gpio_ready_state reserve s =
     interrupt_done reserve (output_done reserve GPIO_LD3 2 (output_done reserve GPIO_LD2 1
       (output_done reserve GPIO_LD1 0 (input_done reserve s))))"

lemma gpio_initialize_eq: "stm32_gpio_initialize reserve s = Some (OK, gpio_ready_state reserve s)"
  by (simp add: stm32_gpio_initialize_def init_inputs_eq init_outputs_eq [simplified] init_interrupts_eq gpio_ready_state_def)

lemma gpio_initialize_inv:
  assumes "gpio_boot s"
  shows "gpint_inv Map.empty (gpio_ready_state reserve s)" "register_count (gdev 4 (gpio_ready_state reserve s)) = 0"
proof -
  have ei: "exti_inv s" using assms by (simp add: gpio_boot_def exti_inv_start)
  have cbs: "length (g_gpio_callbacks s) = 16" "\<forall>q < 16. callback (g_gpio_callbacks s ! q) = None"
    using assms by (simp_all add: gpio_boot_def exti_start_def list_all_length)
  have sg: "sig_inv (gp_signals (gdev 4 s))"
    using assms sig_app(1) [of "[]" "gp_signals (gdev 4 s)"] by (simp add: gpio_boot_def)
  show "register_count (gdev 4 (gpio_ready_state reserve s)) = 0"
    using assms by (simp add: gpio_ready_state_def gpio_boot_def)
  moreover have "gpio_ready (gpio_ready_state reserve s)"
    by (simp add: gpio_ready_def is_dev_def gpio_ready_state_def)
  ultimately show "gpint_inv Map.empty (gpio_ready_state reserve s)"
    using assms ei cbs sg by (simp add: gpint_inv_def gpio_ready_state_def gpio_boot_def)
qed

text \<open>
  C29. From the zeroed memory of start-up, initialization succeeds and leaves five devices: the user
  button as an input, the three LEDs as outputs that are low, and the pin PE5 as an interrupt
  pin, each with the operations of its kind and its index, under the names \<open>/dev/gpio0\<close> to
  \<open>/dev/gpio4\<close> in this order. Exactly these five pins are configured, no level but the LEDs' is
  driven, nobody is registered for the interrupt and its line is off.
\<close>

theorem gpio_initialize_correct:
  assumes "gpio_boot s" "\<forall>path ns. path \<notin> fst ` set ns \<longrightarrow> 0 \<le> reserve path ns"
    "\<forall>i < 5. gpio_path i \<notin> fst ` set (inodes (env s))"
  shows "\<exists>s'. stm32_gpio_initialize reserve s = Some (OK, s') \<and> gpint_inv Map.empty s' \<and>
     register_count (gdev 4 s') = 0 \<and> \<not> int_enabled (exti_lines (hw s') 5) \<and>
     inodes (env s') = inodes (env s) @ map (\<lambda>i. (gpio_path i, i)) [0..<5] \<and>
     gpio_abs (hw s') = (gpio_abs (hw s))((2, 13) \<mapsto> cfg_of GPIO_BTN_BUILT_IN, (1, 0) \<mapsto> cfg_of LED_FLAGS,
       (4, 1) \<mapsto> cfg_of LED_FLAGS, (1, 14) \<mapsto> cfg_of LED_FLAGS, (4, 5) \<mapsto> pin_reset) \<and>
     level_abs (hw s') = (level_abs (hw s))((1, 0) \<mapsto> False, (4, 1) \<mapsto> False, (1, 14) \<mapsto> False)"
proof -
  let ?s' = "gpio_ready_state reserve s"
  have inv: "gpint_inv Map.empty ?s'" "register_count (gdev 4 ?s') = 0" using gpio_initialize_inv [OF assms(1)] by auto
  have "\<not> int_enabled (exti_lines (hw ?s') 5)" using inv by (simp add: gpint_inv_def exti_inv_def)
  moreover have "inodes (env ?s') = inodes (env s) @ map (\<lambda>i. (gpio_path i, i)) [0..<5]"
    using add_nodes [OF assms(2,3), of 5] by (simp add: gpio_ready_state_def upt_rec eval_nat_numeral)
  moreover have "gpio_abs (hw ?s') = (gpio_abs (hw s))((2, 13) \<mapsto> cfg_of GPIO_BTN_BUILT_IN, (1, 0) \<mapsto> cfg_of LED_FLAGS,
       (4, 1) \<mapsto> cfg_of LED_FLAGS, (1, 14) \<mapsto> cfg_of LED_FLAGS, (4, 5) \<mapsto> pin_reset)"
    by (simp add: gpio_ready_state_def)
  moreover have "level_abs (hw ?s') = (level_abs (hw s))((1, 0) \<mapsto> False, (4, 1) \<mapsto> False, (1, 14) \<mapsto> False)"
    by (simp add: gpio_ready_state_def)
  ultimately show ?thesis using inv gpio_initialize_eq by blast
qed

definition eexist_reserve :: "string \<Rightarrow> (string \<times> nat) list \<Rightarrow> int" where
  "eexist_reserve path ns = (if path \<in> fst ` set ns then - 17 else 0)"

definition gpio_start :: "nat gstate" where
  "gpio_start =
     \<lparr>hw = \<lparr>regs = (\<lambda>a. if a = STM32_EXTI_CPUPR1 then 0x20 else 0), wlog = []\<rparr>,
      g_gpio_callbacks = replicate 16 \<lparr>callback = None, cbarg = None\<rparr>,
      g_irqvector = replicate 166 \<lparr>handler = Some irq_unexpected_isr, vecarg = None\<rparr>,
      env = \<lparr>gpio_mem = (\<lambda>_. \<lparr>gp_pintype = GPIO_INPUT_PIN, register_count = 0, int_count = 0,
                              gp_signals = replicate 2 \<lparr>gp_event = 0, gp_pid = 0\<rparr>, gp_ops = g_gpin_ops,
                              fds = [None, None], lower = \<lparr>id = 0, gpcallback = None\<rparr>\<rparr>),
             pw = \<lparr>pollfds = (\<lambda>_. \<lparr>events = 0, revents = 0, cb = False, priv = None\<rparr>), cblog = []\<rparr>,
             siglog = [], inodes = [(''/dev/null'', 9)], fault = False\<rparr>\<rparr>"

lemma gpio_start_boot: "gpio_boot gpio_start"
proof -
  have "\<not> int_enabled (exti_lines (hw gpio_start) p) \<and> \<not> nvic_enabled (exti_irq p) (wlog (hw gpio_start))" for p
    by (simp add: gpio_start_def exti_lines_def exti_regs getreg32_def)
  then show ?thesis
    by (simp add: gpio_boot_def exti_start_def list_all_iff)
      (simp add: gpio_start_def irq_numbers gdev_def)
qed

lemma gpio_start_nodes: "\<forall>i < 5. gpio_path i \<notin> fst ` set (inodes (env gpio_start))"
  by (simp add: gpio_start_def gpio_path_def)

theorem gpio_initialize_correct_witness:
  "inodes (env (snd (the (stm32_gpio_initialize eexist_reserve gpio_start)))) =
     (''/dev/null'', 9) # map (\<lambda>i. (gpio_path i, i)) [0..<5]"
  using gpio_initialize_correct [of gpio_start eexist_reserve] gpio_start_boot gpio_start_nodes
  by (auto simp: eexist_reserve_def) (simp add: gpio_start_def)

subsection \<open>Operation\<close>

text \<open>
  What can happen to the devices after start-up: requests of tasks, edges that set pending bits,
  and interrupts of lines that are unmasked. The one restriction is on the number of
  registrations, an eight bit counter: registering does not go beyond 255, and nobody takes
  back more registrations than were made.
\<close>

fun gpio_disciplined :: "'e gpio_cmd \<Rightarrow> 8 word \<Rightarrow> bool" where
  "gpio_disciplined (GPIOC_REGISTER arg) n \<longleftrightarrow> n \<noteq> - 1"
| "gpio_disciplined GPIOC_UNREGISTER n \<longleftrightarrow> n \<noteq> 0"
| "gpio_disciplined _ n \<longleftrightarrow> True"

definition set_pending :: "u32 \<Rightarrow> bus \<Rightarrow> bus" where
  "set_pending v h = h\<lparr>regs := (regs h)(STM32_EXTI_CPUPR1 := v)\<rparr>"

text \<open>An operation on one of the devices, by a task.\<close>

inductive gpio_op :: "'e gstate \<Rightarrow> 'e gstate \<Rightarrow> bool" for s where
  ioctl: "pid \<noteq> 0 \<Longrightarrow> f_dev filep < 5 \<Longrightarrow> gpio_disciplined cmd (register_count (gdev (f_dev filep) s)) \<Longrightarrow>
    gpio_ioctl board_ops pid filep cmd s = Some (r, out, filep', s') \<Longrightarrow> gpio_op s s'"
| put: "f_dev filep < 5 \<Longrightarrow> gpio_write board_ops filep buf s = Some (r, s') \<Longrightarrow> gpio_op s s'"
| poll: "gpio_poll filep p setup s = (r, s') \<Longrightarrow> gpio_op s s'"

inductive gpio_reach :: "'e gstate \<Rightarrow> bool" where
  init: "gpio_boot s \<Longrightarrow> stm32_gpio_initialize reserve s = Some (r, s') \<Longrightarrow> gpio_reach s'"
| op: "gpio_reach s \<Longrightarrow> gpio_op s s' \<Longrightarrow> gpio_reach s'"
| edge: "gpio_reach s \<Longrightarrow> gpio_reach (on_hw (set_pending v) s)"
| interrupt: "gpio_reach s \<Longrightarrow> p < 16 \<Longrightarrow> int_enabled (exti_lines (hw s) p) \<Longrightarrow>
    irq_dispatch (env_call gpio_interrupt_handler) (exti_irq p) c s = Some s' \<Longrightarrow> gpio_reach s'"

lemma below_5: "(n :: nat) < 5 \<Longrightarrow> n = 0 \<or> n = 1 \<or> n = 2 \<or> n = 3 \<or> n = 4" by linarith

text \<open>Steps that keep the devices up to signals, counters and polls, and keep the tables of the lines.\<close>

definition same_dev :: "'e gpio_dev \<Rightarrow> 'e gpio_dev \<Rightarrow> bool" where
  "same_dev d d' \<longleftrightarrow>
     gp_pintype d' = gp_pintype d \<and> gp_ops d' = gp_ops d \<and> lower d' = lower d \<and>
     gp_signals d' = gp_signals d \<and> register_count d' = register_count d"

lemma gpint_inv_keep:
  assumes "gpint_inv K s" "exti_inv s'" "g_gpio_callbacks s' = g_gpio_callbacks s" "\<not> fault (env s')"
    "\<And>a. same_dev (gdev a s) (gdev a s')"
  shows "gpint_inv K s'"
proof -
  have "gpio_ready s' \<longleftrightarrow> gpio_ready s" using assms(5) by (simp add: gpio_ready_def is_dev_def same_dev_def)
  then show ?thesis using assms by (simp add: gpint_inv_def same_dev_def)
qed

lemma write_inv:
  assumes "gpint_inv K s" "i < 3" "is_dev GPIO_OUTPUT_PIN g_gpout_ops i (gdev a s)"
  shows "gpint_inv K (snd (stm32_gpout_write a v s))"
proof -
  let ?s' = "snd (stm32_gpout_write a v s)"
  have s': "?s' = on_hw (stm32_gpiowrite (g_gpiooutputs ! i) v) s"
    using assms(3) by (simp add: stm32_gpout_write_def is_dev_def)
  have "exti_inv ?s'" unfolding s' using assms(1) by (simp add: exti_inv_hw gpiowrite_writes_in gpint_inv_def)
  moreover have "same_dev (gdev b s) (gdev b ?s')" for b by (simp add: s' same_dev_def)
  moreover have "g_gpio_callbacks ?s' = g_gpio_callbacks s" "\<not> fault (env ?s')"
    using assms(1) by (simp_all add: s' gpint_inv_def)
  ultimately show ?thesis using assms(1) by (blast intro: gpint_inv_keep)
qed

lemma gpio_write_inv:
  assumes "gpint_inv K s" "f_dev filep < 5" "gpio_write board_ops filep buf s = Some (r, s')"
  shows "gpint_inv K s'"
proof -
  have "gpio_ready s" using assms(1) by (simp add: gpint_inv_def)
  with below_5 [OF assms(2)] assms(1,3) write_inv [OF assms(1), of 0 1] write_inv [OF assms(1), of 1 2]
    write_inv [OF assms(1), of 2 3]
  show ?thesis
    by (elim disjE) (auto simp: gpio_write_def Let_def gpio_ready_def is_dev_def split_beta split: if_splits)
qed

lemma not_int_order:
  "is_dev t ops i d \<Longrightarrow> t = GPIO_INPUT_PIN \<or> t = GPIO_OUTPUT_PIN \<Longrightarrow> \<not> GPIO_INTERRUPT_PIN \<le> gp_pintype d"
  by (auto simp: is_dev_def)

lemma setpintype_eq:
  assumes "gpio_ready s" "a < 5"
  shows "gpioc_setpintype board_ops a n s =
    (case pintype_of n of
       None \<Rightarrow> Some (- EINVAL, s) | Some t \<Rightarrow> if gp_pintype (gdev a s) = t then Some (OK, s) else None)"
proof -
  have "stm32_gpint_enable 4 False s = (OK, snd (stm32_gpiosetevent GPIO_INT1 False False False None None s))"
    using assms(1) by (simp add: enable_eq gpio_ready_def)
  with below_5 [OF assms(2)] assms(1) show ?thesis
    by (elim disjE) (simp_all add: gpioc_setpintype_def gpio_ready_def is_dev_def split: option.splits)
qed

lemma other_register:
  assumes "gpio_ready s" "a < 4"
  shows "gpioc_register board_ops pid a arg s = Some (- EACCES, s)" "gpioc_unregister board_ops pid a s = Some (- EACCES, s)"
proof -
  have "\<not> GPIO_INTERRUPT_PIN \<le> gp_pintype (gdev a s)"
    using below_5 [of a] assms by (auto simp: gpio_ready_def dest!: not_int_order)
  then show "gpioc_register board_ops pid a arg s = Some (- EACCES, s)"
    "gpioc_unregister board_ops pid a s = Some (- EACCES, s)"
    by (simp_all add: gpioc_register_def gpioc_unregister_def)
qed

lemma gpio_register_inv:
  assumes "gpint_inv K s" "pid \<noteq> 0" "a < 5" "register_count (gdev a s) \<noteq> - 1"
    "gpioc_register board_ops pid a arg s = Some (r, s')"
  shows "gpint_inv K s'"
proof (cases "a = 4")
  case True
  have "gpio_ready s" "sig_inv (gp_signals (gdev 4 s))" using assms(1) by (simp_all add: gpint_inv_def)
  then show ?thesis
    using assms True gpint_inv_regd [OF assms(1)] new_sigs_inv [OF _ assms(2)]
    by (auto simp: gpioc_register_eq split: option.splits)
next
  case False
  then show ?thesis using assms other_register(1) [of s a] by (simp add: gpint_inv_def)
qed

lemma gpio_unregister_inv:
  assumes "gpint_inv K s" "pid \<noteq> 0" "a < 5" "register_count (gdev a s) \<noteq> 0"
    "gpioc_unregister board_ops pid a s = Some (r, s')"
  shows "gpint_inv K s'"
proof (cases "a = 4")
  case True
  have "gpio_ready s" "sig_inv (gp_signals (gdev 4 s))" using assms(1) by (simp_all add: gpint_inv_def)
  then show ?thesis
    using assms True gpint_inv_unregd [OF assms(1)] sigs.unsub_ok [OF _ assms(2)]
    by (auto simp: gpioc_unregister_eq)
next
  case False
  then show ?thesis using assms other_register(2) [of s a] by (simp add: gpint_inv_def)
qed

lemma gpio_ioctl_write_inv:
  assumes "gpint_inv K s" "f_dev filep < 5" "gpio_ioctl board_ops pid filep (GPIOC_WRITE v) s = Some (r, out, filep', s')"
  shows "gpint_inv K s'"
proof -
  have "gpio_ready s" using assms(1) by (simp add: gpint_inv_def)
  with below_5 [OF assms(2)] assms(1,3) write_inv [OF assms(1), of 0 1] write_inv [OF assms(1), of 1 2]
    write_inv [OF assms(1), of 2 3]
  show ?thesis
    by (elim disjE) (auto simp: gpio_ioctl_def no_out_def Let_def gpio_ready_def is_dev_def split_beta split: if_splits)
qed

lemma gpio_ioctl_read_inv:
  assumes "gpio_ready s" "f_dev filep < 5" "gpio_ioctl board_ops pid filep GPIOC_READ s = Some (r, out, filep', s')"
  shows "s' = s"
  using below_5 [OF assms(2)] assms(1,3)
  by (elim disjE) (auto simp: gpio_ioctl_def gpio_ready_def is_dev_def stm32_gpin_read_def stm32_gpout_read_def
      stm32_gpint_read_def)

lemma gpio_ioctl_inv:
  assumes "gpint_inv K s" "pid \<noteq> 0" "f_dev filep < 5"
    "gpio_disciplined cmd (register_count (gdev (f_dev filep) s))"
    "gpio_ioctl board_ops pid filep cmd s = Some (r, out, filep', s')"
  shows "gpint_inv K s'"
proof -
  have r: "gpio_ready s" using assms(1) by (simp add: gpint_inv_def)
  show ?thesis
  proof (cases cmd)
    case (GPIOC_WRITE v)
    with assms gpio_ioctl_write_inv show ?thesis by blast
  next
    case GPIOC_READ
    with assms r gpio_ioctl_read_inv show ?thesis by blast
  next
    case (GPIOC_SETPINTYPE n)
    with assms show ?thesis by (auto simp: gpio_ioctl_def no_out_def setpintype_eq [OF r] split: option.splits if_splits)
  next
    case (GPIOC_REGISTER arg)
    with assms gpio_register_inv [OF assms(1,2,3)] show ?thesis by (auto simp: gpio_ioctl_def no_out_def)
  next
    case GPIOC_UNREGISTER
    with assms gpio_unregister_inv [OF assms(1,2,3)] show ?thesis by (auto simp: gpio_ioctl_def no_out_def)
  qed (use assms in \<open>auto simp: gpio_ioctl_def no_out_def\<close>)
qed

lemma on_pw_simps [simp]:
  "gdev a (on_pw g s) = gdev a s" "hw (on_pw g s) = hw s" "g_gpio_callbacks (on_pw g s) = g_gpio_callbacks s"
  "g_irqvector (on_pw g s) = g_irqvector s" "fault (env (on_pw g s)) = fault (env s)"
  "exti_inv (on_pw g s) \<longleftrightarrow> exti_inv s"
  by (simp_all add: on_pw_def gdev_def exti_inv_def)

lemma gpint_inv_on_pw: "gpint_inv K s \<Longrightarrow> gpint_inv K (on_pw g s)"
  by (auto simp: gpint_inv_def gpio_ready_def)

lemma gpint_inv_fds:
  assumes "gpint_inv K s" shows "gpint_inv K (upd_dev a (\<lambda>d. d\<lparr>fds := (fds d)[i := v]\<rparr>) s)"
  by (rule gpint_inv_keep [OF assms])
    (use assms in \<open>simp_all add: gpint_inv_def same_dev_def\<close>)

lemma gpio_poll_inv: "gpint_inv K s \<Longrightarrow> gpint_inv K (snd (gpio_poll filep p setup s))"
  by (auto simp: gpio_poll_def Let_def gpint_inv_on_pw gpint_inv_fds split: option.split)

lemma gpint_inv_edge: "gpint_inv K s \<Longrightarrow> gpint_inv K (on_hw (set_pending v) s)"
proof -
  assume inv: "gpint_inv K s"
  have "exti_lines (set_pending v h) = exti_lines h" "wlog (set_pending v h) = wlog h" for h
    by (simp_all add: set_pending_def exti_lines_def getreg32_def exti_regs fun_eq_iff)
  then show ?thesis using inv by (simp add: gpint_inv_def exti_inv_def gpio_ready_def)
qed

lemma gpio_op_inv: "gpio_op s s' \<Longrightarrow> gpint_inv K s \<Longrightarrow> gpint_inv K s'"
proof (induction rule: gpio_op.induct)
  case (poll filep p on r s')
  then show ?case using gpio_poll_inv [of K s filep p on] by simp
qed (blast intro: gpio_ioctl_inv gpio_write_inv)+

text \<open>No operation touches other pins than the LEDs and the interrupt pin.\<close>

lemma int1_loc: "gpio_loc GPIO_INT1 = (4, 5)"
  using int1 by (simp add: gpio_loc_def)

lemma out_write_view:
  assumes "gpio_ready s" "p \<notin> led_pins" "a = 1 \<or> a = 2 \<or> a = 3"
  shows "pin_view (hw (snd (stm32_gpout_write a v s))) p = pin_view (hw s) p"
proof -
  have "pin_view (stm32_gpiowrite c v h) p = pin_view h p" if "gpio_loc c \<in> led_pins" for c h
    using pin_steps_other [OF pin_steps.drive [OF pin_steps.refl that] assms(2)] .
  moreover have "gpio_loc (g_gpiooutputs ! i) \<in> led_pins" if "i = 0 \<or> i = 1 \<or> i = 2" for i
    using that by (auto simp: g_gpiooutputs_def led_pins_def)
  ultimately show ?thesis
    using assms(1,3) by (auto simp: stm32_gpout_write_def gpio_ready_def is_dev_def)
qed

lemma reg_view:
  assumes "gpio_ready s" "p \<noteq> (4, 5)" "a < 5"
  shows "gpioc_register board_ops pid a arg s = Some (r, s') \<Longrightarrow> pin_view (hw s') p = pin_view (hw s) p"
    "gpioc_unregister board_ops pid a s = Some (r, s') \<Longrightarrow> pin_view (hw s') p = pin_view (hw s) p"
proof -
  have set: "pin_view (hw (snd (stm32_gpiosetevent GPIO_INT1 re fe ev f x t))) p = pin_view (hw t) p" for re fe ev f x t
    using assms(2) by (simp add: setevent_view int1_loc)
  have regd: "pin_view (hw (gpint_regd sigs s)) p = pin_view (hw s) p" "pin_view (hw (gpint_unregd sigs s)) p = pin_view (hw s) p" for sigs
    by (simp_all add: gpint_regd_def gpint_unregd_def Let_def set)
  show "gpioc_register board_ops pid a arg s = Some (r, s') \<Longrightarrow> pin_view (hw s') p = pin_view (hw s) p"
    "gpioc_unregister board_ops pid a s = Some (r, s') \<Longrightarrow> pin_view (hw s') p = pin_view (hw s) p"
    using assms(1,3) other_register [OF assms(1), of a] regd
    by (cases "a = 4"; auto simp: gpioc_register_eq gpioc_unregister_eq split: option.splits)+
qed

lemma gpio_op_view:
  assumes "gpio_op s s'" "gpio_ready s" "p \<notin> led_pins" "p \<noteq> (4, 5)"
  shows "pin_view (hw s') p = pin_view (hw s) p"
  using assms(1)
proof cases
  case (poll filep q on r)
  then show ?thesis by (auto simp: gpio_poll_def Let_def split: option.splits if_splits)
next
  case (put filep buf r)
  then show ?thesis
    using below_5 [OF put(1)] assms(2) out_write_view [OF assms(2,3)]
    by (elim disjE) (auto simp: gpio_write_def Let_def gpio_ready_def is_dev_def split_beta split: if_splits)
next
  case (ioctl pid filep cmd r out filep')
  show ?thesis
  proof (cases cmd)
    case (GPIOC_WRITE v)
    then show ?thesis
      using below_5 [OF ioctl(2)] ioctl(4) assms(2) out_write_view [OF assms(2,3)]
      by (elim disjE) (auto simp: gpio_ioctl_def no_out_def Let_def gpio_ready_def is_dev_def split_beta split: if_splits)
  next
    case GPIOC_READ
    then have "s' = s" using gpio_ioctl_read_inv [OF assms(2) ioctl(2)] ioctl(4) by blast
    then show ?thesis by simp
  next
    case (GPIOC_SETPINTYPE n)
    then show ?thesis
      using ioctl(4) by (auto simp: gpio_ioctl_def no_out_def setpintype_eq [OF assms(2) ioctl(2)] split: option.splits if_splits)
  qed (use ioctl(4) reg_view [OF assms(2,4) ioctl(2)] in \<open>auto simp: gpio_ioctl_def no_out_def\<close>)
qed

text \<open>
  What the invariant depends on: the devices, the tables being in order and the callback of the line;
  the lines of others may change, as long as the new callbacks are said.
\<close>

lemma gpint_frame:
  assumes "gpint_inv K s" "gpio_mem (env s') = gpio_mem (env s)" "fault (env s') = fault (env s)" "exti_inv s'"
    "g_gpio_callbacks s' ! 5 = g_gpio_callbacks s ! 5"
    "\<And>q. q < 16 \<Longrightarrow> q \<noteq> 5 \<Longrightarrow> K' q = None \<Longrightarrow> callback (g_gpio_callbacks s' ! q) = None"
    "\<And>q x. q < 16 \<Longrightarrow> q \<noteq> 5 \<Longrightarrow> K' q = Some x \<Longrightarrow> g_gpio_callbacks s' ! q = x"
  shows "gpint_inv K' s'"
  using assms by (simp add: gpint_inv_def gpio_ready_def gdev_def)

text \<open>The interrupt of the pin calls the handler of the driver, if the line is pending, and nothing else.\<close>

lemma gpint_dispatch:
  assumes "gpint_inv Map.empty s" "register_count (gdev 4 s) \<noteq> 0"
  shows "\<exists>s'. irq_dispatch (env_call gpio_interrupt_handler) (exti_irq 5) c s = Some s' \<and>
    env s' = (if bit (getreg32 STM32_EXTI_CPUPR1 (hw s)) 5 then gpio_handler 4 (env s) else env s) \<and>
    wlog (hw s') = rev (map ack (exti_served (getreg32 STM32_EXTI_CPUPR1 (hw s)) 5)) @ wlog (hw s)"
proof -
  let ?pr = "getreg32 STM32_EXTI_CPUPR1 (hw s)"
  have cb: "g_gpio_callbacks s ! 5 = \<lparr>callback = Some stm32_gpio_interrupt_handler, cbarg = Some 4\<rparr>"
    "gpcallback (lower (gpio_mem (env s) 4)) = Some gpio_handler_p" "exti_inv s"
    using assms by (simp_all add: gpint_inv_def gdev_def)
  have none: "exti_calls s (exti_irq 5) q = []" if "q \<in> set [6..<10]" for q
  proof -
    have "q < 16" "q \<noteq> 5" using that by auto
    then show ?thesis using assms(1) by (simp add: exti_calls_def gpint_inv_def)
  qed
  have "exti_served ?pr 5 = (if bit ?pr 5 then [5] else []) @ filter (bit ?pr) [6..<10]"
    by (simp add: exti_served_def exti_first_def exti_num_def upt_rec)
  moreover have "concat (map (exti_calls s (exti_irq 5)) (filter (bit ?pr) [6..<10])) = []"
    unfolding concat_eq_Nil_conv set_map set_filter using none by blast
  ultimately have "concat (map (exti_calls s (exti_irq 5)) (exti_served ?pr 5)) =
      (if bit ?pr 5 then [(stm32_gpio_interrupt_handler, exti_irq 5, Some 4)] else [])"
    by (simp only: map_append concat_append) (simp add: exti_calls_def cb(1))
  moreover have "snd (gpio_interrupt_handler stm32_gpio_interrupt_handler (exti_irq 5) (Some 4) (env s)) = gpio_handler 4 (env s)"
    by (simp add: gpio_interrupt_handler_def cb(2))
  ultimately show ?thesis
    using dispatch_env [OF cb(3), of 5 gpio_interrupt_handler c] cb(1) by (auto split: if_splits)
qed

lemma gpio_handler_same:
  "same_dev (gpio_mem e b) (gpio_mem (gpio_handler a e) b)" "fault (gpio_handler a e) = fault e"
  by (simp_all add: gpio_handler_def Let_def same_dev_def)

lemma gpio_interrupt_inv:
  assumes "gpint_inv Map.empty s" "p < 16" "int_enabled (exti_lines (hw s) p)"
    "irq_dispatch (env_call gpio_interrupt_handler) (exti_irq p) c s = Some s'"
  shows "gpint_inv Map.empty s'"
proof -
  have "callback (g_gpio_callbacks s ! p) \<noteq> None" using assms(1-3) by (simp add: gpint_inv_def exti_inv_def)
  then have p: "p = 5" "register_count (gdev 4 s) \<noteq> 0" using assms(1,2) by (auto simp: gpint_inv_def)
  have k: "keeps_tables s s'" using keeps_tables_dispatch [OF env_call_only assms(4)] .
  have e: "env s' = gpio_handler 4 (env s) \<or> env s' = env s"
    using gpint_dispatch [OF assms(1) p(2), of c] assms(4) p(1) by (auto split: if_splits)
  show ?thesis
  proof (rule gpint_inv_keep [OF assms(1)])
    show "exti_inv s'" using keeps_tables_inv [OF k] assms(1) by (simp add: gpint_inv_def)
    show "g_gpio_callbacks s' = g_gpio_callbacks s" using k by (simp add: keeps_tables_def)
    show "\<not> fault (env s')" using e assms(1) by (auto simp: gpint_inv_def gpio_handler_same)
    show "same_dev (gdev a s) (gdev a s')" for a
      using e by (auto simp: gdev_def gpio_handler_same) (simp add: same_dev_def)
  qed
qed

lemma gpio_reach_inv: "gpio_reach s \<Longrightarrow> gpint_inv Map.empty s"
proof (induction rule: gpio_reach.induct)
  case (init s reserve r s')
  then show ?case using gpio_initialize_inv(1) [OF init(1)] by (auto simp: gpio_initialize_eq)
qed (blast intro: gpio_op_inv gpint_inv_edge gpio_interrupt_inv)+

text \<open>
  C6. The interrupt line follows the registrations: in every state the driver can get into by tasks that
  take back only registrations that were made, and make fewer than 256 of them at a time, line 5
  is unmasked exactly if somebody is registered, and then its callback is the board's handler
  with the interrupt device; every other line is masked. No task is in the table twice, and no
  interrupt ever calls through a NULL pointer.
\<close>

theorem gpio_line_follows:
  assumes "gpio_reach s"
  shows "(\<forall>q < 16. int_enabled (exti_lines (hw s) q) \<longleftrightarrow> q = 5 \<and> register_count (gdev 4 s) \<noteq> 0) \<and>
     (register_count (gdev 4 s) \<noteq> 0 \<longrightarrow>
        g_gpio_callbacks s ! 5 = \<lparr>callback = Some stm32_gpio_interrupt_handler, cbarg = Some 4\<rparr> \<and>
        gpcallback (lower (gdev 4 s)) = Some gpio_handler_p) \<and>
     sig_inv (gp_signals (gdev 4 s)) \<and> \<not> fault (env s)"
  using gpio_reach_inv [OF assms] by (auto simp: gpint_inv_def exti_inv_def)

text \<open>
  C7. From the edge to the task: in every state the driver can get into, with somebody registered and
  line 5 pending, dispatching its interrupt does not panic; it acknowledges the line, counts the
  interrupt and notifies every registered task once, with its event, and no other.
\<close>

theorem gpio_interrupt_delivers:
  assumes "gpio_reach s" "register_count (gdev 4 s) \<noteq> 0" "bit (getreg32 STM32_EXTI_CPUPR1 (hw s)) 5"
  shows "\<exists>s' new. irq_dispatch (env_call gpio_interrupt_handler) (exti_irq 5) c s = Some s' \<and>
     ack 5 \<in> set (wlog (hw s')) \<and> int_count (gdev 4 s') = int_count (gdev 4 s) + 1 \<and>
     siglog (env s') = new @ siglog (env s) \<and> distinct (map fst new) \<and>
     set new = {(pid, ev). sig_abs (gp_signals (gdev 4 s)) pid = Some ev}"
proof -
  have inv: "gpint_inv Map.empty s" using assms(1) by (rule gpio_reach_inv)
  then have sg: "sig_inv (gp_signals (gpio_mem (env s) 4))" by (simp add: gpint_inv_def gdev_def)
  obtain s' where s': "irq_dispatch (env_call gpio_interrupt_handler) (exti_irq 5) c s = Some s'"
    "env s' = gpio_handler 4 (env s)"
    "wlog (hw s') = rev (map ack (exti_served (getreg32 STM32_EXTI_CPUPR1 (hw s)) 5)) @ wlog (hw s)"
    using gpint_dispatch [OF inv assms(2), of c] assms(3) by auto
  have "5 \<in> set (exti_served (getreg32 STM32_EXTI_CPUPR1 (hw s)) 5)"
    using assms(3) by (simp add: exti_served_def exti_first_def exti_num_def)
  then have "ack 5 \<in> set (wlog (hw s'))" by (simp add: s'(3))
  with s'(1,2) gpio_handler_log [OF sg] show ?thesis by (auto simp: gdev_def)
qed

lemma gpout_device:
  assumes "gpio_ready s" "1 \<le> a" "a < 4"
  shows "is_dev GPIO_OUTPUT_PIN g_gpout_ops (a - 1) (gdev a s)"
  using assms below_5 [of a] by (auto simp: gpio_ready_def)

text \<open>
  C32. Writing to a device: writing a digit to one of the three output devices drives exactly the pin
  of its LED to that digit, leaves everything but the bus alone and takes one character; any
  other character is refused, as is writing to the input or the interrupt device, and then
  nothing changes.
\<close>

theorem gpio_write_drives:
  assumes "gpio_reach s" "f_dev filep < 5"
  shows "gpio_write board_ops filep buf s =
     (if f_dev filep = 0 \<or> f_dev filep = 4 then Some (- EACCES, s)
      else if buf = [] then Some (0, s)
      else if hd buf \<noteq> CHR ''0'' \<and> hd buf \<noteq> CHR ''1'' then Some (- EINVAL, s)
      else Some (1, on_hw (stm32_gpiowrite (g_gpiooutputs ! (f_dev filep - 1)) (hd buf = CHR ''1'')) s)) \<and>
     (1 \<le> f_dev filep \<and> f_dev filep < 4 \<longrightarrow>
        level_abs (stm32_gpiowrite (g_gpiooutputs ! (f_dev filep - 1)) v h) =
          (level_abs h)(gpio_loc (g_gpiooutputs ! (f_dev filep - 1)) \<mapsto> v))"
proof -
  have r: "gpio_ready s" using gpio_reach_inv [OF assms(1)] by (simp add: gpint_inv_def)
  have "gpio_valid (g_gpiooutputs ! (f_dev filep - 1))" if "1 \<le> f_dev filep" "f_dev filep < 4"
    using that below_5 [OF assms(2)] by (auto simp: g_gpiooutputs_def)
  then have "1 \<le> f_dev filep \<and> f_dev filep < 4 \<longrightarrow>
      level_abs (stm32_gpiowrite (g_gpiooutputs ! (f_dev filep - 1)) v h) =
        (level_abs h)(gpio_loc (g_gpiooutputs ! (f_dev filep - 1)) \<mapsto> v)"
    by (simp add: gpio.wr_level)
  moreover have "gpio_write board_ops filep buf s = Some (- EACCES, s)" if "f_dev filep = 0 \<or> f_dev filep = 4"
    using r that by (auto simp: gpio_write_def gpio_ready_def is_dev_def)
  moreover have "is_dev GPIO_OUTPUT_PIN g_gpout_ops (f_dev filep - 1) (gdev (f_dev filep) s)"
    if "\<not> (f_dev filep = 0 \<or> f_dev filep = 4)"
    using gpout_device [OF r] that assms(2) by simp
  ultimately show ?thesis
    by (cases "f_dev filep = 0 \<or> f_dev filep = 4")
      (simp_all add: gpio_write_def is_dev_def stm32_gpout_write_def del: de_Morgan_disj cong: if_cong)
qed

text \<open>
  C39. Asking for another pin type never succeeds: a number that is no pin type is refused, the type
  the device has already is accepted without effect, and every other one calls the operation
  the board leaves NULL, so there is no result.
\<close>

theorem gpio_setpintype_null:
  assumes "gpio_reach s" "f_dev filep < 5"
  shows "gpio_ioctl board_ops pid filep (GPIOC_SETPINTYPE n) s =
     (if n \<ge> 17 then Some (- EINVAL, Out_none, filep, s)
      else if pintypes ! n = gp_pintype (gdev (f_dev filep) s) then Some (OK, Out_none, filep, s)
      else None)"
proof -
  have r: "gpio_ready s" using gpio_reach_inv [OF assms(1)] by (simp add: gpint_inv_def)
  have "length pintypes = 17" by (simp add: pintypes_def)
  then show ?thesis
    using setpintype_eq [OF r assms(2), of n] by (auto simp: gpio_ioctl_def no_out_def pintype_of_def)
qed

text \<open>
  C38. Taking back a registration that was never made: with nobody registered, an UNREGISTER is
  accepted and turns the count to 255; the next task that registers is accepted and entered in
  the table, but the count is back at zero, the line stays masked and the task is never told.
\<close>

theorem gpio_unregister_underflow:
  assumes "gpio_reach s" "register_count (gdev 4 s) = 0" "pid \<noteq> 0" "pid' \<noteq> 0" "f_dev filep = 4"
    "gp_signals (gdev 4 s) \<noteq> []" "sig_abs (gp_signals (gdev 4 s)) = Map.empty"
  shows "\<exists>s1 s2. gpio_ioctl board_ops pid filep GPIOC_UNREGISTER s = Some (OK, Out_none, filep, s1) \<and>
     register_count (gdev 4 s1) = 255 \<and>
     gpio_ioctl board_ops pid' filep (GPIOC_REGISTER (Some ev)) s1 = Some (OK, Out_none, filep, s2) \<and>
     sig_abs (gp_signals (gdev 4 s2)) = [pid' \<mapsto> ev] \<and> register_count (gdev 4 s2) = 0 \<and>
     \<not> int_enabled (exti_lines (hw s2) 5)"
proof -
  have inv: "gpint_inv Map.empty s" using assms(1) by (rule gpio_reach_inv)
  then have r: "gpio_ready s" and sg: "sig_inv (gp_signals (gdev 4 s))" by (simp_all add: gpint_inv_def)
  let ?sigs = "sig_unregister pid (gp_signals (gdev 4 s))"
  let ?s1 = "upd_dev 4 (\<lambda>d. d\<lparr>gp_signals := ?sigs, register_count := register_count d - 1\<rparr>) s"
  have un: "sig_inv ?sigs" "sig_abs ?sigs = Map.empty" "length ?sigs = length (gp_signals (gdev 4 s))"
    using sigs.unsub_ok [OF sg assms(3)] assms(7) by auto
  have "card (dom (sig_abs ?sigs)) \<noteq> length ?sigs" using un assms(6) by auto
  then obtain sigs where sigs: "sig_register pid' ev ?sigs = Some sigs"
    using sigs.sub_full [OF un(1) assms(4), of ev] by (cases "sig_register pid' ev ?sigs") auto
  have new: "sig_abs sigs = [pid' \<mapsto> ev]" using sigs.sub_ok [OF un(1) assms(4) sigs] un(2) by simp
  have s1: "gpint_unregd ?sigs s = ?s1" "gpio_ready ?s1"
    using r assms(2) by (simp_all add: gpint_unregd_def Let_def gpio_ready_def is_dev_def word_greater_zero_iff)
  have "new_sigs pid' (Some ev) (gp_signals (gdev 4 ?s1)) = Some sigs"
    using sigs un(3) assms(6) by (auto simp: new_sigs_def)
  then have reg: "gpioc_register board_ops pid' 4 (Some ev) ?s1 = Some (OK, gpint_regd sigs ?s1)"
    using gpioc_register_eq [OF s1(2), of pid' "Some ev"] by simp
  have "\<not> int_enabled (exti_lines (hw s) 5)" using inv assms(2) by (simp add: gpint_inv_def exti_inv_def)
  then show ?thesis
    using assms(2,5) gpioc_unregister_eq [OF r, of pid] s1(1) reg new
    by (auto simp: gpio_ioctl_def no_out_def gpint_regd_def Let_def word_greater_zero_iff)
qed

subsection \<open>A run of the driver\<close>

text \<open>Start-up, then task 7 registers for the interrupt pin with event 3, then an edge on line 5.\<close>

definition int_file :: gfile where "int_file = \<lparr>f_dev = 4, f_pos = 0, f_priv = 0\<rparr>"

definition run0 :: "nat gstate" where "run0 = gpio_ready_state eexist_reserve gpio_start"

definition run1 :: "nat gstate" where
  "run1 = gpint_regd [\<lparr>gp_event = 3, gp_pid = 7\<rparr>, \<lparr>gp_event = 0, gp_pid = 0\<rparr>] run0"

definition run2 :: "nat gstate" where "run2 = on_hw (set_pending 0x20) run1"

lemma run0_reach: "gpio_reach run0"
  using gpio_reach.init [OF gpio_start_boot gpio_initialize_eq] by (simp add: run0_def)

lemma run0_dev:
  "register_count (gdev 4 run0) = 0" "gp_signals (gdev 4 run0) = replicate 2 \<lparr>gp_event = 0, gp_pid = 0\<rparr>"
  by (simp_all add: run0_def gpio_ready_state_def) (simp_all add: gpio_start_def gdev_def)

lemma run1_eq: "gpio_ioctl board_ops 7 int_file (GPIOC_REGISTER (Some 3)) run0 = Some (OK, Out_none, int_file, run1)"
proof -
  have "gpio_ready run0" using gpio_reach_inv [OF run0_reach] by (simp add: gpint_inv_def)
  from gpioc_register_eq [OF this, of 7 "Some 3"] show ?thesis
    by (simp add: gpio_ioctl_def no_out_def int_file_def run1_def new_sigs_def run0_dev numeral_2_eq_2)
qed

lemma run1_reach: "gpio_reach run1"
  by (rule gpio_reach.op [OF run0_reach gpio_op.ioctl [OF _ _ _ run1_eq]]) (simp_all add: int_file_def run0_dev)

lemma run1_dev:
  "register_count (gdev 4 run1) = 1"
  "gp_signals (gdev 4 run1) = [\<lparr>gp_event = 3, gp_pid = 7\<rparr>, \<lparr>gp_event = 0, gp_pid = 0\<rparr>]"
  by (simp_all add: run1_def gpint_regd_def run0_dev Let_def)

lemma run2_reach: "gpio_reach run2"
  unfolding run2_def by (rule gpio_reach.edge [OF run1_reach])

theorem gpio_line_follows_witness:
  "int_enabled (exti_lines (hw run1) 5) \<and> \<not> int_enabled (exti_lines (hw run1) 6) \<and>
   g_gpio_callbacks run1 ! 5 = \<lparr>callback = Some stm32_gpio_interrupt_handler, cbarg = Some 4\<rparr>"
  using gpio_line_follows [OF run1_reach] run1_dev(1) by simp

theorem gpio_interrupt_delivers_witness:
  "\<exists>s'. irq_dispatch (env_call gpio_interrupt_handler) 39 None run2 = Some s' \<and> (7, 3) \<in> set (siglog (env s'))"
proof -
  have p: "exti_irq 5 = 39" by (simp add: exti_irq_def exti_group_def irq_numbers)
  have "bit (0x20 :: u32) 5" by simp
  then have "bit (getreg32 STM32_EXTI_CPUPR1 (hw run2)) 5"
    by (simp add: run2_def set_pending_def getreg32_def)
  moreover have "register_count (gdev 4 run2) = 1" "sig_abs (gp_signals (gdev 4 run2)) = [7 \<mapsto> 3]"
    by (simp_all add: run2_def run1_dev sig_abs_def sig_used_def)
  ultimately show ?thesis using gpio_interrupt_delivers [OF run2_reach, of None] by (auto simp: p)
qed

theorem gpio_write_drives_witness:
  "gpio_write board_ops \<lparr>f_dev = 2, f_pos = 0, f_priv = 0\<rparr> ''1'' run0 =
     Some (1, on_hw (stm32_gpiowrite GPIO_LD2 True) run0) \<and>
   level_abs (stm32_gpiowrite GPIO_LD2 True (hw run0)) (4, 1) = Some True \<and>
   gpio_write board_ops \<lparr>f_dev = 2, f_pos = 0, f_priv = 0\<rparr> ''x'' run0 = Some (- EINVAL, run0) \<and>
   gpio_write board_ops int_file ''1'' run0 = Some (- EACCES, run0)"
  using gpio_write_drives [OF run0_reach, of "\<lparr>f_dev = 2, f_pos = 0, f_priv = 0\<rparr>" "''1''" True "hw run0"]
    gpio_write_drives [OF run0_reach, of "\<lparr>f_dev = 2, f_pos = 0, f_priv = 0\<rparr>" "''x''"]
    gpio_write_drives [OF run0_reach, of int_file "''1''"]
  by (simp add: g_gpiooutputs_def int_file_def)

theorem gpio_setpintype_null_witness:
  "gpio_ioctl board_ops 7 int_file (GPIOC_SETPINTYPE 8) run0 = None \<and>
   gpio_ioctl board_ops 7 int_file (GPIOC_SETPINTYPE 5) run0 = Some (OK, Out_none, int_file, run0)"
proof -
  have "gp_pintype (gdev 4 run0) = GPIO_INTERRUPT_PIN"
    using gpio_reach_inv [OF run0_reach] by (simp add: gpint_inv_def gpio_ready_def is_dev_def)
  then show ?thesis
    using gpio_setpintype_null [OF run0_reach, of int_file 7 8] gpio_setpintype_null [OF run0_reach, of int_file 7 5]
    by (simp add: int_file_def pintypes_def)
qed

theorem gpio_unregister_underflow_witness:
  "\<exists>s1 s2. gpio_ioctl board_ops 9 int_file GPIOC_UNREGISTER run0 = Some (OK, Out_none, int_file, s1) \<and>
     gpio_ioctl board_ops 7 int_file (GPIOC_REGISTER (Some 3)) s1 = Some (OK, Out_none, int_file, s2) \<and>
     \<not> int_enabled (exti_lines (hw s2) 5)"
proof -
  have "sig_abs (gp_signals (gdev 4 run0)) = Map.empty" "gp_signals (gdev 4 run0) \<noteq> []"
    by (simp_all add: run0_dev sig_abs_def sig_used_def numeral_2_eq_2)
  then show ?thesis
    using gpio_unregister_underflow [OF run0_reach run0_dev(1), of 9 7 int_file 3] by (auto simp: int_file_def)
qed

end
