(* ===== verification/Button_Upper.thy ===== *)
theory Button_Upper
  imports Nx_Poll Stm32_Exti
begin

text \<open>
  The character driver of the buttons, \<^verbatim>\<open>drivers/input/button_upper.c\<close>: the open files with the
  button events each of them waits for, the sampling of the buttons on an interrupt, and the
  notification of the files concerned.

  There is one driver instance, \<open>upper\<close> in the world. The linked list of the open structures is
  a list of their addresses and contents, newest first; a file that uses an address which is
  not in the list, because it was freed, has no result (\<open>None\<close>). The addresses
  come from \<^verbatim>\<open>kmm_zalloc\<close>, whose result is an argument (\<open>None\<close> for NULL). The lower half is a
  record of functions, and \<open>low\<close> is its part of the world; the handler given to it stands for
  the pair of handler and driver instance. The notifications sent are a log, newest first.
  Critical sections are atomic, and the random pool is left out. The argument \<open>debounce\<close> says whether \<^verbatim>\<open>CONFIG_INPUT_BUTTONS_DEBOUNCE_DELAY\<close>
  is set; then \<open>bu_wdog\<close> says whether the watchdog runs that will take the sample.
\<close>

subsection \<open>Data\<close>

record btn_pollevents_s =
  bp_press :: u32
  bp_release :: u32

record 'e sigevent =
  sival_int :: u32
  sigev_rest :: 'e

record 'e btn_notify_s =
  bn_press :: u32
  bn_release :: u32
  bn_event :: "'e sigevent"

record 'e btn_open_s =
  bo_pid :: int
  bo_notify :: "'e btn_notify_s"
  bo_pollevents :: btn_pollevents_s
  bo_pending :: bool
  bo_fds :: "nat option list"

record 'e btn_upperhalf_s =
  bu_sample :: u32
  bu_enabled :: bool
  bu_open :: "(nat \<times> 'e btn_open_s) list"
  bu_wdog :: bool

record ('e, 'l) btn_env =
  upper :: "'e btn_upperhalf_s"
  b_pw :: poll_world
  b_siglog :: "(int \<times> 'e sigevent) list"
  b_nodes :: "(string \<times> nat) list"
  low :: 'l

type_synonym ('f, 'a, 'e, 'l) btn_state = "('f, 'a, ('e, 'l) btn_env) irq_state"

datatype btn_handler_t = btn_interrupt_p

record 's btn_lowerhalf_s =
  bl_supported :: "'s \<Rightarrow> u32"
  bl_buttons :: "'s \<Rightarrow> u32"
  bl_enable :: "u32 \<Rightarrow> u32 \<Rightarrow> btn_handler_t option \<Rightarrow> 's \<Rightarrow> 's"
  bl_write :: "(string \<Rightarrow> 's \<Rightarrow> int \<times> 's) option"

definition upd_upper ::
  "('e btn_upperhalf_s \<Rightarrow> 'e btn_upperhalf_s) \<Rightarrow> ('f, 'a, 'e, 'l) btn_state \<Rightarrow> ('f, 'a, 'e, 'l) btn_state" where
  "upd_upper f s = s\<lparr>env := (env s)\<lparr>upper := f (upper (env s))\<rparr>\<rparr>"

definition the_upper :: "('f, 'a, 'e, 'l) btn_state \<Rightarrow> 'e btn_upperhalf_s" where
  "the_upper s = upper (env s)"

text \<open>The open structure at an address, and the update of it in place.\<close>

definition open_at :: "nat \<Rightarrow> ('f, 'a, 'e, 'l) btn_state \<Rightarrow> 'e btn_open_s option" where
  "open_at a s = map_of (bu_open (the_upper s)) a"

definition upd_open ::
  "nat \<Rightarrow> ('e btn_open_s \<Rightarrow> 'e btn_open_s) \<Rightarrow> ('f, 'a, 'e, 'l) btn_state \<Rightarrow> ('f, 'a, 'e, 'l) btn_state" where
  "upd_open a f s =
     upd_upper (\<lambda>u. u\<lparr>bu_open := map (\<lambda>(b, p). (b, if b = a then f p else p)) (bu_open u)\<rparr>) s"

subsection \<open>Enabling interrupts\<close>

text \<open>The union of the events all open files ask for.\<close>

fun enable_sets :: "(nat \<times> 'e btn_open_s) list \<Rightarrow> u32 \<Rightarrow> u32 \<Rightarrow> u32 \<times> u32" where
  "enable_sets [] press release = (press, release)"
| "enable_sets ((a, opriv) # os) press release =
     enable_sets os
       (press OR bp_press (bo_pollevents opriv) OR bn_press (bo_notify opriv))
       (release OR bp_release (bo_pollevents opriv) OR bn_release (bo_notify opriv))"

definition btn_enable ::
  "('f, 'a, 'e, 'l) btn_state btn_lowerhalf_s \<Rightarrow> ('f, 'a, 'e, 'l) btn_state \<Rightarrow> ('f, 'a, 'e, 'l) btn_state" where
  "btn_enable lower s =
     (let (press, release) = enable_sets (bu_open (the_upper s)) 0 0 in
      if press \<noteq> 0 \<or> release \<noteq> 0 then
        let s = (if \<not> bu_enabled (the_upper s)
                 then upd_upper (\<lambda>u. u\<lparr>bu_enabled := True, bu_sample := bl_buttons lower s\<rparr>) s else s)
        in bl_enable lower press release (Some btn_interrupt_p) s
      else
        bl_enable lower 0 0 None (upd_upper (\<lambda>u. u\<lparr>bu_enabled := False\<rparr>) s))"

subsection \<open>Sampling\<close>

definition sample_one ::
  "u32 \<Rightarrow> u32 \<Rightarrow> u32 \<Rightarrow> 'e btn_open_s \<Rightarrow> poll_world \<Rightarrow> (int \<times> 'e sigevent) list \<Rightarrow>
   'e btn_open_s \<times> poll_world \<times> (int \<times> 'e sigevent) list" where
  "sample_one press release sample opriv w l =
     (let opriv = opriv\<lparr>bo_pending := True\<rparr>;
          w = (if press AND bp_press (bo_pollevents opriv) \<noteq> 0 \<or>
                  release AND bp_release (bo_pollevents opriv) \<noteq> 0
               then poll_notify (bo_fds opriv) POLLIN w else w)
      in if press AND bn_press (bo_notify opriv) \<noteq> 0 \<or> release AND bn_release (bo_notify opriv) \<noteq> 0
         then
           let ev = (bn_event (bo_notify opriv))\<lparr>sival_int := sample\<rparr>;
               opriv = opriv\<lparr>bo_notify := (bo_notify opriv)\<lparr>bn_event := ev\<rparr>\<rparr>
           in (opriv, w, (bo_pid opriv, ev) # l)
         else (opriv, w, l))"

fun sample_loop ::
  "u32 \<Rightarrow> u32 \<Rightarrow> u32 \<Rightarrow> (nat \<times> 'e btn_open_s) list \<Rightarrow> poll_world \<Rightarrow> (int \<times> 'e sigevent) list \<Rightarrow>
   (nat \<times> 'e btn_open_s) list \<times> poll_world \<times> (int \<times> 'e sigevent) list" where
  "sample_loop press release sample [] w l = ([], w, l)"
| "sample_loop press release sample ((a, opriv) # os) w l =
     (let (opriv, w, l) = sample_one press release sample opriv w l;
          (os, w, l) = sample_loop press release sample os w l
      in ((a, opriv) # os, w, l))"

definition btn_sample ::
  "('f, 'a, 'e, 'l) btn_state btn_lowerhalf_s \<Rightarrow> ('f, 'a, 'e, 'l) btn_state \<Rightarrow> ('f, 'a, 'e, 'l) btn_state" where
  "btn_sample lower s =
     (let sample = bl_buttons lower s;
          change = sample XOR bu_sample (the_upper s);
          press = change AND sample;
          release = change AND (bl_supported lower s AND NOT sample);
          (os, w, l) = sample_loop press release sample (bu_open (the_upper s)) (b_pw (env s)) (b_siglog (env s));
          s = s\<lparr>env := (env s)\<lparr>b_pw := w, b_siglog := l\<rparr>\<rparr>
      in upd_upper (\<lambda>u. u\<lparr>bu_open := os, bu_sample := sample\<rparr>) s)"

definition btn_interrupt ::
  "bool \<Rightarrow> ('f, 'a, 'e, 'l) btn_state btn_lowerhalf_s \<Rightarrow> ('f, 'a, 'e, 'l) btn_state \<Rightarrow> ('f, 'a, 'e, 'l) btn_state" where
  "btn_interrupt debounce lower s =
     (if debounce then upd_upper (\<lambda>u. u\<lparr>bu_wdog := True\<rparr>) s else btn_sample lower s)"

text \<open>The watchdog runs out: it is no longer running, and its function is called.\<close>

definition btn_wdog ::
  "('f, 'a, 'e, 'l) btn_state btn_lowerhalf_s \<Rightarrow> ('f, 'a, 'e, 'l) btn_state \<Rightarrow> ('f, 'a, 'e, 'l) btn_state" where
  "btn_wdog lower s = btn_sample lower (upd_upper (\<lambda>u. u\<lparr>bu_wdog := False\<rparr>) s)"

subsection \<open>File operations\<close>

record bfile =
  bf_priv :: nat

text \<open>The zeroed open structure, with the given number of poll slots.\<close>

definition zero_open :: "nat \<Rightarrow> 'e \<Rightarrow> 'e btn_open_s" where
  "zero_open npollwaiters zero =
     \<lparr>bo_pid = 0,
      bo_notify = \<lparr>bn_press = 0, bn_release = 0, bn_event = \<lparr>sival_int = 0, sigev_rest = zero\<rparr>\<rparr>,
      bo_pollevents = \<lparr>bp_press = 0, bp_release = 0\<rparr>, bo_pending = False,
      bo_fds = replicate npollwaiters None\<rparr>"

definition btn_open ::
  "('f, 'a, 'e, 'l) btn_state btn_lowerhalf_s \<Rightarrow> nat \<Rightarrow> 'e \<Rightarrow> nat option \<Rightarrow> bfile \<Rightarrow>
   ('f, 'a, 'e, 'l) btn_state \<Rightarrow> int \<times> bfile \<times> ('f, 'a, 'e, 'l) btn_state" where
  "btn_open lower npollwaiters zero alloc filep s =
     (case alloc of
        None \<Rightarrow> (- ENOMEM, filep, s)
      | Some a \<Rightarrow>
          let supported = bl_supported lower s;
              opriv = (zero_open npollwaiters zero)
                \<lparr>bo_pollevents := \<lparr>bp_press = supported, bp_release = supported\<rparr>, bo_pending := True\<rparr>;
              s = upd_upper (\<lambda>u. u\<lparr>bu_open := (a, opriv) # bu_open u\<rparr>) s
          in (OK, filep\<lparr>bf_priv := a\<rparr>, btn_enable lower s))"

definition btn_close ::
  "bool \<Rightarrow> ('f, 'a, 'e, 'l) btn_state btn_lowerhalf_s \<Rightarrow> bfile \<Rightarrow>
   ('f, 'a, 'e, 'l) btn_state \<Rightarrow> int \<times> ('f, 'a, 'e, 'l) btn_state" where
  "btn_close debounce lower filep s =
     (let s = (if debounce then upd_upper (\<lambda>u. u\<lparr>bu_wdog := False\<rparr>) s else s) in
      case unlink (bf_priv filep) (bu_open (the_upper s)) of
        None \<Rightarrow> (- ENOENT, s)
      | Some os \<Rightarrow> (OK, btn_enable lower (upd_upper (\<lambda>u. u\<lparr>bu_open := os\<rparr>) s)))"

definition btn_read ::
  "('f, 'a, 'e, 'l) btn_state btn_lowerhalf_s \<Rightarrow> bfile \<Rightarrow> nat \<Rightarrow>
   ('f, 'a, 'e, 'l) btn_state \<Rightarrow> (int \<times> u32 option \<times> ('f, 'a, 'e, 'l) btn_state) option" where
  "btn_read lower filep len s =
     (if len < 4 then Some (- EINVAL, None, s)
      else case open_at (bf_priv filep) s of
        None \<Rightarrow> None
      | Some _ \<Rightarrow>
          Some (4, Some (bl_buttons lower s), upd_open (bf_priv filep) (\<lambda>p. p\<lparr>bo_pending := False\<rparr>) s))"

definition btn_write ::
  "('f, 'a, 'e, 'l) btn_state btn_lowerhalf_s \<Rightarrow> string \<Rightarrow>
   ('f, 'a, 'e, 'l) btn_state \<Rightarrow> int \<times> ('f, 'a, 'e, 'l) btn_state" where
  "btn_write lower buffer s =
     (if length buffer < 4 then (- EINVAL, s)
      else case bl_write lower of
        None \<Rightarrow> (- ENOSYS, s)
      | Some wr \<Rightarrow> wr buffer s)"

datatype 'e btn_cmd =
    BTNIOC_SUPPORTED bool
  | BTNIOC_POLLEVENTS "btn_pollevents_s option"
  | BTNIOC_REGISTER "'e btn_notify_s option"
  | btnioc_unknown

text \<open>
  The argument of a command is a pointer that may be NULL; what it points to is read (or, for
  \<open>BTNIOC_SUPPORTED\<close>, only tested here: the value stored is part of the result).
\<close>

definition btn_ioctl ::
  "('f, 'a, 'e, 'l) btn_state btn_lowerhalf_s \<Rightarrow> int \<Rightarrow> bfile \<Rightarrow> 'e btn_cmd \<Rightarrow>
   ('f, 'a, 'e, 'l) btn_state \<Rightarrow> (int \<times> u32 option \<times> ('f, 'a, 'e, 'l) btn_state) option" where
  "btn_ioctl lower pid filep cmd s =
     (let a = bf_priv filep in
      case cmd of
        BTNIOC_SUPPORTED supported \<Rightarrow>
          if supported then Some (OK, Some (bl_supported lower s), s) else Some (- EINVAL, None, s)
      | BTNIOC_POLLEVENTS None \<Rightarrow> Some (- EINVAL, None, s)
      | BTNIOC_POLLEVENTS (Some pollevents) \<Rightarrow>
          (case open_at a s of
             None \<Rightarrow> None
           | Some _ \<Rightarrow>
               Some (OK, None, btn_enable lower (upd_open a (\<lambda>p. p\<lparr>bo_pollevents := pollevents\<rparr>) s)))
      | BTNIOC_REGISTER None \<Rightarrow> Some (- EINVAL, None, s)
      | BTNIOC_REGISTER (Some notify) \<Rightarrow>
          (case open_at a s of
             None \<Rightarrow> None
           | Some _ \<Rightarrow>
               Some (OK, None, btn_enable lower (upd_open a (\<lambda>p. p\<lparr>bo_notify := notify, bo_pid := pid\<rparr>) s)))
      | btnioc_unknown \<Rightarrow> Some (- ENOTTY, None, s))"

definition on_bpw :: "(poll_world \<Rightarrow> poll_world) \<Rightarrow> ('f, 'a, 'e, 'l) btn_state \<Rightarrow> ('f, 'a, 'e, 'l) btn_state" where
  "on_bpw g s = s\<lparr>env := (env s)\<lparr>b_pw := g (b_pw (env s))\<rparr>\<rparr>"

definition btn_poll ::
  "('f, 'a, 'e, 'l) btn_state btn_lowerhalf_s \<Rightarrow> bfile \<Rightarrow> nat \<Rightarrow> bool \<Rightarrow>
   ('f, 'a, 'e, 'l) btn_state \<Rightarrow> (int \<times> ('f, 'a, 'e, 'l) btn_state) option" where
  "btn_poll lower filep p setup s =
     (let a = bf_priv filep in
      if setup then
        (case open_at a s of
           None \<Rightarrow> None
         | Some opriv \<Rightarrow>
             (case free_slot (bo_fds opriv) of
                None \<Rightarrow> Some (- EBUSY, on_bpw (set_priv p None) s)
              | Some i \<Rightarrow>
                  let s = upd_open a (\<lambda>q. q\<lparr>bo_fds := (bo_fds q)[i := Some p]\<rparr>) s;
                      s = on_bpw (set_priv p (Some (a, i))) s;
                      s = (if bo_pending opriv then on_bpw (poll_notify [Some p] POLLIN) s else s)
                  in Some (OK, btn_enable lower s)))
      else
        (case priv (pollfds (b_pw (env s)) p) of
           None \<Rightarrow> Some (OK, btn_enable lower s)
         | Some (a', i) \<Rightarrow>
             (case open_at a' s of
                None \<Rightarrow> None
              | Some _ \<Rightarrow>
                  let s = upd_open a' (\<lambda>q. q\<lparr>bo_fds := (bo_fds q)[i := None]\<rparr>) s;
                      s = on_bpw (set_priv p None) s
                  in Some (OK, btn_enable lower s))))"

subsection \<open>Registration\<close>

definition btn_register ::
  "(string \<Rightarrow> (string \<times> nat) list \<Rightarrow> int) \<Rightarrow> nat option \<Rightarrow> string \<Rightarrow>
   ('f, 'a, 'e, 'l) btn_state btn_lowerhalf_s \<Rightarrow> ('f, 'a, 'e, 'l) btn_state \<Rightarrow>
   int \<times> ('f, 'a, 'e, 'l) btn_state" where
  "btn_register reserve alloc devname lower s =
     (case alloc of
        None \<Rightarrow> (- ENOMEM, s)
      | Some a \<Rightarrow>
          let s = upd_upper (\<lambda>u. \<lparr>bu_sample = 0, bu_enabled = False, bu_open = [], bu_wdog = False\<rparr>) s;
              s = bl_enable lower 0 0 None s;
              (ret, ns) = register_driver reserve devname a (b_nodes (env s))
          in (ret, s\<lparr>env := (env s)\<lparr>b_nodes := ns\<rparr>\<rparr>))"

subsection \<open>What the open files ask for\<close>

definition press_set :: "(nat \<times> 'e btn_open_s) list \<Rightarrow> nat set" where
  "press_set os = {i. \<exists>p \<in> snd ` set os. bit (bp_press (bo_pollevents p)) i \<or> bit (bn_press (bo_notify p)) i}"

definition release_set :: "(nat \<times> 'e btn_open_s) list \<Rightarrow> nat set" where
  "release_set os = {i. \<exists>p \<in> snd ` set os. bit (bp_release (bo_pollevents p)) i \<or> bit (bn_release (bo_notify p)) i}"

lemma enable_sets_bits:
  "bit (fst (enable_sets os press release)) i \<longleftrightarrow> bit press i \<or> i \<in> press_set os"
  "bit (snd (enable_sets os press release)) i \<longleftrightarrow> bit release i \<or> i \<in> release_set os"
  by (induction os press release rule: enable_sets.induct)
    (auto simp: press_set_def release_set_def bit_simps)

lemma word_nonzero_iff: "w \<noteq> 0 \<longleftrightarrow> (\<exists>i. bit (w :: u32) i)"
  by (metis bit_0_eq bit_eqI bot_apply bot_bool_def)

lemma upper_simps [simp]:
  "hw (upd_upper f s) = hw s" "g_gpio_callbacks (upd_upper f s) = g_gpio_callbacks s"
  "g_irqvector (upd_upper f s) = g_irqvector s" "the_upper (upd_upper f s) = f (the_upper s)"
  "low (env (upd_upper f s)) = low (env s)" "b_pw (env (upd_upper f s)) = b_pw (env s)"
  "b_siglog (env (upd_upper f s)) = b_siglog (env s)" "b_nodes (env (upd_upper f s)) = b_nodes (env s)"
  by (simp_all add: upd_upper_def the_upper_def)

lemma on_bpw_simps [simp]:
  "hw (on_bpw g s) = hw s" "g_gpio_callbacks (on_bpw g s) = g_gpio_callbacks s"
  "g_irqvector (on_bpw g s) = g_irqvector s" "the_upper (on_bpw g s) = the_upper s"
  "low (env (on_bpw g s)) = low (env s)" "b_pw (env (on_bpw g s)) = g (b_pw (env s))"
  "b_siglog (env (on_bpw g s)) = b_siglog (env s)"
  by (simp_all add: on_bpw_def the_upper_def)

lemma upd_open_simps [simp]:
  "hw (upd_open a f s) = hw s" "low (env (upd_open a f s)) = low (env s)"
  "bu_enabled (the_upper (upd_open a f s)) = bu_enabled (the_upper s)"
  "map fst (bu_open (the_upper (upd_open a f s))) = map fst (bu_open (the_upper s))"
  by (simp_all add: upd_open_def comp_def split_def)

text \<open>A file is notified exactly if one of the changes is among those it registered for.\<close>

definition hits :: "u32 \<Rightarrow> u32 \<Rightarrow> u32 \<Rightarrow> u32 \<Rightarrow> bool" where
  "hits press release p r \<longleftrightarrow> (\<exists>i. bit press i \<and> bit p i \<or> bit release i \<and> bit r i)"

lemma hits_iff: "press AND p \<noteq> 0 \<or> release AND r \<noteq> 0 \<longleftrightarrow> hits press release p r"
  by (auto simp: hits_def word_nonzero_iff bit_simps)

definition told :: "u32 \<Rightarrow> u32 \<Rightarrow> u32 \<Rightarrow> (nat \<times> 'e btn_open_s) list \<Rightarrow> (int \<times> 'e sigevent) list" where
  "told press release sample os =
     map (\<lambda>(a, p). (bo_pid p, (bn_event (bo_notify p))\<lparr>sival_int := sample\<rparr>))
       (filter (\<lambda>(a, p). hits press release (bn_press (bo_notify p)) (bn_release (bo_notify p))) os)"

definition sampled :: "u32 \<Rightarrow> u32 \<Rightarrow> u32 \<Rightarrow> 'e btn_open_s \<Rightarrow> 'e btn_open_s" where
  "sampled press release sample p =
     (if hits press release (bn_press (bo_notify p)) (bn_release (bo_notify p))
      then p\<lparr>bo_pending := True,
             bo_notify := (bo_notify p)\<lparr>bn_event := (bn_event (bo_notify p))\<lparr>sival_int := sample\<rparr>\<rparr>\<rparr>
      else p\<lparr>bo_pending := True\<rparr>)"

definition polled :: "u32 \<Rightarrow> u32 \<Rightarrow> 'e btn_open_s \<Rightarrow> poll_world \<Rightarrow> poll_world" where
  "polled press release p w =
     (if hits press release (bp_press (bo_pollevents p)) (bp_release (bo_pollevents p))
      then poll_notify (bo_fds p) POLLIN w else w)"

lemma sample_one_eq:
  "sample_one press release sample p w l =
     (sampled press release sample p, polled press release p w, rev (told press release sample [(a, p)]) @ l)"
  unfolding sample_one_def Let_def hits_iff by (simp add: sampled_def polled_def told_def)

lemma sample_loop_eq:
  "sample_loop press release sample os w l =
     (map (\<lambda>(a, p). (a, sampled press release sample p)) os, fold (\<lambda>(a, p). polled press release p) os w,
      rev (told press release sample os) @ l)"
proof (induction os arbitrary: w l)
  case (Cons x os)
  obtain a p where "x = (a, p)" by (rule prod.exhaust)
  then show ?case using Cons by (simp add: sample_one_eq [of _ _ _ _ _ _ a]) (simp add: told_def)
qed (simp add: told_def)

text \<open>The open structures keep everything but the pending flag and the value last sent.\<close>

definition same_open :: "'e btn_open_s \<Rightarrow> 'e btn_open_s \<Rightarrow> bool" where
  "same_open p q \<longleftrightarrow>
     bo_pid q = bo_pid p \<and> bo_pollevents q = bo_pollevents p \<and> bo_fds q = bo_fds p \<and>
     bn_press (bo_notify q) = bn_press (bo_notify p) \<and> bn_release (bo_notify q) = bn_release (bo_notify p) \<and>
     sigev_rest (bn_event (bo_notify q)) = sigev_rest (bn_event (bo_notify p))"

definition same_opens :: "(nat \<times> 'e btn_open_s) list \<Rightarrow> (nat \<times> 'e btn_open_s) list \<Rightarrow> bool" where
  "same_opens os os' \<longleftrightarrow> list_all2 (\<lambda>(a, p) (b, q). b = a \<and> same_open p q) os os'"

lemma sampled_same: "same_open p (sampled press release sample p)" "bo_pending (sampled press release sample p)"
  by (simp_all add: sampled_def same_open_def)

lemma sampled_opens: "same_opens os (map (\<lambda>(a, p). (a, sampled press release sample p)) os)"
  by (induction os) (auto simp: same_opens_def sampled_same)

lemma same_opens_sets:
  assumes "same_opens os os'"
  shows "press_set os' = press_set os" "release_set os' = release_set os" "map fst os' = map fst os"
  using assms unfolding same_opens_def
  by (induction rule: list_all2_induct) (auto simp: press_set_def release_set_def same_open_def)

text \<open>Polls: every file whose poll events were hit has its waiting tasks notified, the others keep theirs.\<close>

lemma polled_static [simp]:
  "events (pollfds (polled press release p w) b) = events (pollfds w b)"
  "cb (pollfds (polled press release p w) b) = cb (pollfds w b)"
  "priv (pollfds (polled press release p w) b) = priv (pollfds w b)"
  by (simp_all add: polled_def)

lemma polled_fold:
  "bit (revents (pollfds (fold (\<lambda>(a, p). polled press release p) os w) b)) 0 \<longleftrightarrow>
     bit (revents (pollfds w b)) 0 \<or> bit (events (pollfds w b)) 0 \<and>
       (\<exists>p \<in> snd ` set os. hits press release (bp_press (bo_pollevents p)) (bp_release (bo_pollevents p)) \<and>
                          Some b \<in> set (bo_fds p))"
proof (induction os arbitrary: w)
  case (Cons x os)
  have "bit (revents (pollfds (polled press release p w) b)) 0 \<longleftrightarrow>
      bit (revents (pollfds w b)) 0 \<or> bit (events (pollfds w b)) 0 \<and>
        hits press release (bp_press (bo_pollevents p)) (bp_release (bo_pollevents p)) \<and> Some b \<in> set (bo_fds p)" for p
    by (auto simp: polled_def poll_notify_POLLIN)
  then show ?case using Cons by (cases x) auto
qed simp

subsection \<open>The lower half as an interface\<close>

text \<open>
  What the upper half relies on: enabling arms exactly the supported buttons among those asked
  for, and disarms the others; it changes nothing but the lower half's own part of the world;
  and what the lower half does depends on that part and the hardware only. Nothing is written to
  buttons.
\<close>

definition set_client ::
  "'e btn_upperhalf_s \<Rightarrow> poll_world \<Rightarrow> (int \<times> 'e sigevent) list \<Rightarrow> ('f, 'a, 'e, 'l) btn_state \<Rightarrow> ('f, 'a, 'e, 'l) btn_state" where
  "set_client u w l s = s\<lparr>env := (env s)\<lparr>upper := u, b_pw := w, b_siglog := l\<rparr>\<rparr>"

lemma client_eqs:
  "upd_upper f s = set_client (f (the_upper s)) (b_pw (env s)) (b_siglog (env s)) s"
  "on_bpw g s = set_client (the_upper s) (g (b_pw (env s))) (b_siglog (env s)) s"
  by (simp_all add: upd_upper_def on_bpw_def set_client_def the_upper_def)

definition want :: "(nat \<times> 'e btn_open_s) list \<Rightarrow> nat set" where
  "want os = press_set os \<union> release_set os"

lemma same_opens_want: "same_opens os os' \<Longrightarrow> want os' = want os"
  by (simp add: want_def same_opens_sets)

locale lower_half =
  fixes lower :: "('f, 'a, 'e, 'l) btn_state btn_lowerhalf_s"
    and ready :: "('f, 'a, 'e, 'l) btn_state \<Rightarrow> bool" and armed :: "('f, 'a, 'e, 'l) btn_state \<Rightarrow> nat set"
  assumes client:
      "ready (set_client u w l s) = ready s" "armed (set_client u w l s) = armed s"
      "bl_buttons lower (set_client u w l s) = bl_buttons lower s"
      "bl_supported lower (set_client u w l s) = bl_supported lower s"
    and enable_env: "\<exists>x. env (bl_enable lower p r h s) = (env s)\<lparr>low := x\<rparr>"
    and enable_ready: "ready s \<Longrightarrow> ready (bl_enable lower p r h s)"
    and enable_supported: "ready s \<Longrightarrow> bl_supported lower (bl_enable lower p r h s) = bl_supported lower s"
    and enable_armed: "ready s \<Longrightarrow> armed (bl_enable lower p r h s) =
      (if h = None then {} else {i. (bit p i \<or> bit r i) \<and> bit (bl_supported lower s) i})"
    and no_write: "bl_write lower = None"
begin

definition sup :: "('f, 'a, 'e, 'l) btn_state \<Rightarrow> nat set" where
  "sup s = {i. bit (bl_supported lower s) i}"

definition binv :: "('f, 'a, 'e, 'l) btn_state \<Rightarrow> bool" where
  "binv s \<longleftrightarrow>
     ready s \<and> armed s = want (bu_open (the_upper s)) \<inter> sup s \<and>
     (bu_enabled (the_upper s) \<longleftrightarrow> want (bu_open (the_upper s)) \<noteq> {}) \<and>
     distinct (map fst (bu_open (the_upper s)))"

lemma client_all [simp]:
  "ready (upd_upper f s) = ready s" "armed (upd_upper f s) = armed s" "sup (upd_upper f s) = sup s"
  "ready (on_bpw g s) = ready s" "armed (on_bpw g s) = armed s" "sup (on_bpw g s) = sup s"
  "bl_buttons lower (upd_upper f s) = bl_buttons lower s" "bl_buttons lower (on_bpw g s) = bl_buttons lower s"
  "bl_supported lower (upd_upper f s) = bl_supported lower s" "bl_supported lower (on_bpw g s) = bl_supported lower s"
  "ready (upd_open a k s) = ready s" "armed (upd_open a k s) = armed s" "sup (upd_open a k s) = sup s"
  by (simp_all add: client_eqs client sup_def upd_open_def)

lemma enable_keeps [simp]:
  "the_upper (bl_enable lower p r h s) = the_upper s" "b_pw (env (bl_enable lower p r h s)) = b_pw (env s)"
  "b_siglog (env (bl_enable lower p r h s)) = b_siglog (env s)"
  using enable_env [of p r h s] by (auto simp: the_upper_def)

lemma enable_sup [simp]: "ready s \<Longrightarrow> sup (bl_enable lower p r h s) = sup s"
  by (simp add: sup_def enable_supported)

lemma want_bits:
  "(fst (enable_sets os 0 0) \<noteq> 0 \<or> snd (enable_sets os 0 0) \<noteq> 0) \<longleftrightarrow> want os \<noteq> {}"
  "bit (fst (enable_sets os 0 0)) i \<or> bit (snd (enable_sets os 0 0)) i \<longleftrightarrow> i \<in> want os"
  by (auto simp: word_nonzero_iff enable_sets_bits want_def)

text \<open>What \<open>btn_enable\<close> does, and that it establishes the invariant.\<close>

lemma btn_enable_eq:
  "btn_enable lower s =
     (let os = bu_open (the_upper s) in
      if want os \<noteq> {} then
        bl_enable lower (fst (enable_sets os 0 0)) (snd (enable_sets os 0 0)) (Some btn_interrupt_p)
          (if \<not> bu_enabled (the_upper s)
           then upd_upper (\<lambda>u. u\<lparr>bu_enabled := True, bu_sample := bl_buttons lower s\<rparr>) s else s)
      else bl_enable lower 0 0 None (upd_upper (\<lambda>u. u\<lparr>bu_enabled := False\<rparr>) s))"
  unfolding btn_enable_def split_beta Let_def want_bits(1) by (rule refl)

lemma btn_enable_upper:
  "the_upper (btn_enable lower s) =
     (let u = the_upper s; on = want (bu_open u) \<noteq> {} in
      u\<lparr>bu_enabled := on, bu_sample := (if on \<and> \<not> bu_enabled u then bl_buttons lower s else bu_sample u)\<rparr>)"
  by (cases "the_upper s") (simp add: btn_enable_eq Let_def)

lemma btn_enable_rest [simp]:
  "b_pw (env (btn_enable lower s)) = b_pw (env s)" "b_siglog (env (btn_enable lower s)) = b_siglog (env s)"
  "bu_open (the_upper (btn_enable lower s)) = bu_open (the_upper s)"
  by (simp_all add: btn_enable_eq Let_def)

lemma btn_enable_armed:
  assumes "ready s"
  shows "ready (btn_enable lower s)" "sup (btn_enable lower s) = sup s"
    "armed (btn_enable lower s) = want (bu_open (the_upper s)) \<inter> sup s"
proof -
  have r: "ready (if c then upd_upper f s else s)" for c f using assms by simp
  show "ready (btn_enable lower s)" "sup (btn_enable lower s) = sup s"
    using assms r by (simp_all add: btn_enable_eq Let_def enable_ready)
  show "armed (btn_enable lower s) = want (bu_open (the_upper s)) \<inter> sup s"
    using assms r want_bits [of "bu_open (the_upper s)"]
    by (auto simp: btn_enable_eq Let_def enable_armed sup_def)
qed

lemma btn_enable_inv:
  assumes "ready s" "distinct (map fst (bu_open (the_upper s)))"
  shows "binv (btn_enable lower s)"
  using assms btn_enable_armed [OF assms(1)] by (simp add: binv_def btn_enable_upper Let_def)

end

subsection \<open>Sampling in one step\<close>

definition changes :: "('f, 'a, 'e, 'l) btn_state btn_lowerhalf_s \<Rightarrow> ('f, 'a, 'e, 'l) btn_state \<Rightarrow> u32 \<times> u32 \<times> u32" where
  "changes lower s =
     (let sample = bl_buttons lower s; change = sample XOR bu_sample (the_upper s)
      in (change AND sample, change AND (bl_supported lower s AND NOT sample), sample))"

lemma changes_bits:
  assumes "changes lower s = (press, release, sample)"
  shows "bit press i \<longleftrightarrow> bit (bl_buttons lower s) i \<and> \<not> bit (bu_sample (the_upper s)) i"
    "bit release i \<longleftrightarrow> \<not> bit (bl_buttons lower s) i \<and> bit (bu_sample (the_upper s)) i \<and> bit (bl_supported lower s) i"
    "sample = bl_buttons lower s"
  using assms bit_imp_le_length [of "bl_supported lower s" i] by (auto simp: changes_def Let_def bit_simps)

lemma btn_sample_eq:
  assumes "changes lower s = (press, release, sample)"
  shows "btn_sample lower s =
    set_client ((the_upper s)\<lparr>bu_open := map (\<lambda>(a, p). (a, sampled press release sample p)) (bu_open (the_upper s)),
                              bu_sample := sample\<rparr>)
      (fold (\<lambda>(a, p). polled press release p) (bu_open (the_upper s)) (b_pw (env s)))
      (rev (told press release sample (bu_open (the_upper s))) @ b_siglog (env s)) s"
  using assms
  by (auto simp: changes_def Let_def btn_sample_def sample_loop_eq upd_upper_def set_client_def the_upper_def)

lemma open_at_iff: "open_at a s \<noteq> None \<longleftrightarrow> a \<in> fst ` set (bu_open (the_upper s))"
  by (auto simp: open_at_def map_of_eq_None_iff)

lemma set_client_simps [simp]:
  "the_upper (set_client u w l s) = u" "b_pw (env (set_client u w l s)) = w" "b_siglog (env (set_client u w l s)) = l"
  "hw (set_client u w l s) = hw s" "g_gpio_callbacks (set_client u w l s) = g_gpio_callbacks s"
  "g_irqvector (set_client u w l s) = g_irqvector s" "low (env (set_client u w l s)) = low (env s)"
  by (simp_all add: set_client_def the_upper_def)

lemma same_opens_refl [simp]: "same_opens os os"
  by (induction os) (auto simp: same_opens_def same_open_def)

text \<open>
  An operation on an open file, or the end of the debouncing: files are opened at addresses that are
  free.
\<close>

inductive btn_op ::
  "bool \<Rightarrow> ('f, 'a, 'e, 'l) btn_state btn_lowerhalf_s \<Rightarrow> ('f, 'a, 'e, 'l) btn_state \<Rightarrow> ('f, 'a, 'e, 'l) btn_state \<Rightarrow> bool"
  for d lower s where
  opened: "(\<And>a. alloc = Some a \<Longrightarrow> a \<notin> fst ` set (bu_open (the_upper s))) \<Longrightarrow>
    btn_open lower n zero alloc filep s = (r, filep', s') \<Longrightarrow> btn_op d lower s s'"
| closed: "btn_close d lower filep s = (r, s') \<Longrightarrow> btn_op d lower s s'"
| ioctl: "btn_ioctl lower pid filep cmd s = Some (r, v, s') \<Longrightarrow> btn_op d lower s s'"
| read: "btn_read lower filep len s = Some (r, v, s') \<Longrightarrow> btn_op d lower s s'"
| written: "btn_write lower buffer s = (r, s') \<Longrightarrow> btn_op d lower s s'"
| poll: "btn_poll lower filep p on s = Some (r, s') \<Longrightarrow> btn_op d lower s s'"
| wdog: "bu_wdog (the_upper s) \<Longrightarrow> btn_op d lower s (btn_wdog lower s)"

context lower_half
begin

lemma binv_client:
  assumes "binv s" "same_opens (bu_open (the_upper s)) (bu_open u)" "bu_enabled u = bu_enabled (the_upper s)"
  shows "binv (set_client u w l s)"
  using assms(1,3) same_opens_want [OF assms(2)] same_opens_sets(3) [OF assms(2)]
  by (simp add: binv_def client sup_def)

lemma sample_inv: "binv s \<Longrightarrow> binv (btn_sample lower s)"
proof -
  assume inv: "binv s"
  obtain press release sample where ch: "changes lower s = (press, release, sample)" by (rule prod_cases3)
  show ?thesis unfolding btn_sample_eq [OF ch] by (rule binv_client [OF inv]) (simp_all add: sampled_opens)
qed

lemma wdog_flag_inv: "binv s \<Longrightarrow> binv (upd_upper (\<lambda>u. u\<lparr>bu_wdog := b\<rparr>) s)"
  unfolding client_eqs by (rule binv_client) simp_all

lemma interrupt_inv: "binv s \<Longrightarrow> binv (btn_interrupt debounce lower s)"
  by (simp add: btn_interrupt_def sample_inv wdog_flag_inv)

lemma wdog_inv: "binv s \<Longrightarrow> binv (btn_wdog lower s)"
  by (simp add: btn_wdog_def sample_inv wdog_flag_inv)

lemma open_inv:
  assumes "binv s" "\<And>a. alloc = Some a \<Longrightarrow> a \<notin> fst ` set (bu_open (the_upper s))"
  shows "binv (snd (snd (btn_open lower n zero alloc filep s)))"
  using assms btn_enable_inv by (auto simp: btn_open_def binv_def Let_def split: option.split)

lemma close_inv:
  assumes "binv s" shows "binv (snd (btn_close debounce lower filep s))"
proof -
  have d: "distinct (map fst (bu_open (the_upper s)))" "ready s" using assms by (simp_all add: binv_def)
  then have "distinct (map fst (filter (\<lambda>x. fst x \<noteq> a) (bu_open (the_upper s))))" for a
    by (simp add: distinct_map_filter)
  with d show ?thesis
    using assms by (auto simp: btn_close_def Let_def unlink_eq wdog_flag_inv btn_enable_inv)
qed

lemma upd_open_enable_inv: "binv s \<Longrightarrow> binv (btn_enable lower (upd_open a f s))"
  by (rule btn_enable_inv) (simp_all add: binv_def)

lemma bpw_inv: "binv s \<Longrightarrow> binv (on_bpw g s)"
  unfolding client_eqs by (rule binv_client) simp_all

lemma enable_again_inv: "binv s \<Longrightarrow> binv (btn_enable lower s)"
  by (rule btn_enable_inv) (simp_all add: binv_def)

lemma ioctl_inv: "binv s \<Longrightarrow> btn_ioctl lower pid filep cmd s = Some (r, v, s') \<Longrightarrow> binv s'"
  by (auto simp: btn_ioctl_def Let_def upd_open_enable_inv split: btn_cmd.splits option.splits if_splits)

lemma upd_open_same:
  assumes "binv s" "\<And>p. same_open p (f p)" shows "binv (upd_open a f s)"
proof -
  have "same_opens (bu_open (the_upper s)) (map (\<lambda>(b, p). (b, if b = a then f p else p)) (bu_open (the_upper s)))"
    using assms(2) by (auto simp: same_opens_def list_all2_map2 same_open_def intro!: list_all2_refl)
  with assms(1) show ?thesis unfolding upd_open_def client_eqs by (intro binv_client) simp_all
qed

lemma read_inv: "binv s \<Longrightarrow> btn_read lower filep len s = Some (r, v, s') \<Longrightarrow> binv s'"
  by (auto simp: btn_read_def split: if_splits option.splits intro!: upd_open_same) (simp add: same_open_def)

lemma poll_inv:
  assumes "binv s" "btn_poll lower filep p on s = Some (r, s')"
  shows "binv s'"
proof -
  have "ready s" "distinct (map fst (bu_open (the_upper s)))" using assms(1) by (simp_all add: binv_def)
  with assms show ?thesis
    by (auto simp: btn_poll_def Let_def bpw_inv enable_again_inv split: if_splits option.splits intro!: btn_enable_inv)
qed

lemma write_same: "btn_write lower buffer s = (r, s') \<Longrightarrow> s' = s"
  by (auto simp: btn_write_def no_write split: if_splits)

lemma op_inv: "btn_op d lower s s' \<Longrightarrow> binv s \<Longrightarrow> binv s'"
proof (induction rule: btn_op.induct)
  case (opened alloc n zero filep r filep' s')
  then show ?case using open_inv [of s alloc n zero filep] by simp
next
  case (closed filep r s')
  then show ?case using close_inv [of s d filep] by simp
qed (auto intro: ioctl_inv read_inv poll_inv wdog_inv dest: write_same)

end

text \<open>
  C22. A sample tells each file what it asked for: exactly the open files that registered for the press
  of a button that now reads high and did not before, or for the release of a supported one that
  does no longer, are signalled, once each, with the new state of all buttons; exactly
  the waiting polls of files with such poll events are woken. The new state is remembered, every
  file has an event pending, and a file that was signalled keeps the state it was sent; otherwise
  the driver is as before: the same files are open and wait for the same events, and neither the lower
  half, nor a register, nor the callback of a line changes.
\<close>

theorem btn_sample_notifies:
  fixes s :: "('f, 'a, 'e, 'l) btn_state" and lower :: "('f, 'a, 'e, 'l) btn_state btn_lowerhalf_s"
  defines "now \<equiv> bl_buttons lower s" and "before \<equiv> bu_sample (the_upper s)" and "os \<equiv> bu_open (the_upper s)"
  defines "asked \<equiv> \<lambda>p r. \<exists>i. bit now i \<and> \<not> bit before i \<and> bit p i \<or>
             \<not> bit now i \<and> bit before i \<and> bit (bl_supported lower s) i \<and> bit r i"
  defines "s' \<equiv> btn_sample lower s"
  shows "b_siglog (env s') =
       rev (map (\<lambda>(a, p). (bo_pid p, (bn_event (bo_notify p))\<lparr>sival_int := now\<rparr>))
         (filter (\<lambda>(a, p). asked (bn_press (bo_notify p)) (bn_release (bo_notify p))) os)) @ b_siglog (env s) \<and>
     (\<forall>b. bit (revents (pollfds (b_pw (env s')) b)) 0 \<longleftrightarrow>
        bit (revents (pollfds (b_pw (env s)) b)) 0 \<or> bit (events (pollfds (b_pw (env s)) b)) 0 \<and>
          (\<exists>p \<in> snd ` set os. asked (bp_press (bo_pollevents p)) (bp_release (bo_pollevents p)) \<and>
                             Some b \<in> set (bo_fds p))) \<and>
     the_upper s' = (the_upper s)\<lparr>bu_sample := now,
       bu_open := map (\<lambda>(a, p). (a, if asked (bn_press (bo_notify p)) (bn_release (bo_notify p))
                     then p\<lparr>bo_pending := True, bo_notify := (bo_notify p)\<lparr>bn_event := (bn_event (bo_notify p))\<lparr>sival_int := now\<rparr>\<rparr>\<rparr>
                     else p\<lparr>bo_pending := True\<rparr>)) os\<rparr> \<and>
     low (env s') = low (env s) \<and> hw s' = hw s \<and> g_gpio_callbacks s' = g_gpio_callbacks s"
proof -
  obtain press release sample where ch: "changes lower s = (press, release, sample)" by (rule prod_cases3)
  have asked: "asked p r \<longleftrightarrow> hits press release p r" for p r
    using changes_bits(1,2) [OF ch] by (auto simp: asked_def hits_def now_def before_def)
  have sample: "sample = now" using changes_bits(3) [OF ch] by (simp add: now_def)
  show ?thesis
    unfolding s'_def btn_sample_eq [OF ch] os_def [symmetric]
    by (simp add: asked sample told_def polled_fold [unfolded split_def] sampled_def split_def)
qed

end
