(* ===== verification/Button_Lower.thy ===== *)
theory Button_Lower
  imports Button_Upper Board_Buttons Pin_Frame
begin

text \<open>
  The generic lower half of the button driver, \<^verbatim>\<open>drivers/input/button_lower.c\<close>, over the button
  functions of the board. Its static variables and the board's are the record \<open>btn_low\<close>. The
  only function it registers for the interrupt lines is its own handler, which calls on the
  handler of the upper half.
\<close>

subsection \<open>Data and operations\<close>

record btn_low =
  board :: buttons
  g_btnnum :: nat
  g_btnhandler :: "btn_handler_t option"

type_synonym 'e bstate = "(board_isr, nat, 'e, btn_low) btn_state"

definition upd_low :: "(btn_low \<Rightarrow> btn_low) \<Rightarrow> 'e bstate \<Rightarrow> 'e bstate" where
  "upd_low f s = s\<lparr>env := (env s)\<lparr>low := f (low (env s))\<rparr>\<rparr>"

definition the_low :: "'e bstate \<Rightarrow> btn_low" where
  "the_low s = low (env s)"

definition btn_supported :: "'e bstate \<Rightarrow> u32" where
  "btn_supported s = push_bit (g_btnnum (the_low s)) 1 - 1"

definition btn_buttons :: "'e bstate \<Rightarrow> u32" where
  "btn_buttons s = board_buttons (board (the_low s)) (hw s)"

text \<open>The two loops over the buttons \<open>id\<close> still to visit.\<close>

fun disable_loop :: "nat list \<Rightarrow> 'e bstate \<Rightarrow> 'e bstate" where
  "disable_loop [] s = s"
| "disable_loop (i # ids) s =
     disable_loop ids (snd (board_button_irq (board (the_low s)) (int i) None None s))"

definition btnl_disable :: "'e bstate \<Rightarrow> 'e bstate" where
  "btnl_disable s =
     upd_low (\<lambda>l. l\<lparr>g_btnhandler := None\<rparr>) (disable_loop [0..<g_btnnum (the_low s)] s)"

fun enable_loop :: "u32 \<Rightarrow> nat list \<Rightarrow> 'e bstate \<Rightarrow> 'e bstate" where
  "enable_loop either [] s = s"
| "enable_loop either (i # ids) s =
     enable_loop either ids
       (if either AND push_bit i 1 \<noteq> 0
        then snd (board_button_irq (board (the_low s)) (int i) (Some btnl_interrupt_p) None s) else s)"

definition btnl_enable :: "u32 \<Rightarrow> u32 \<Rightarrow> btn_handler_t option \<Rightarrow> 'e bstate \<Rightarrow> 'e bstate" where
  "btnl_enable press release hnd s =
     (let either = press OR release; s = btnl_disable s in
      if either \<noteq> 0 \<and> hnd \<noteq> None then
        enable_loop either [0..<g_btnnum (the_low s)] (upd_low (\<lambda>l. l\<lparr>g_btnhandler := hnd\<rparr>) s)
      else s)"

definition g_btnlower :: "'e bstate btn_lowerhalf_s" where
  "g_btnlower =
     \<lparr>bl_supported = btn_supported, bl_buttons = btn_buttons, bl_enable = btnl_enable, bl_write = None\<rparr>"

definition btnl_interrupt :: "bool \<Rightarrow> (board_isr, nat, ('e, btn_low) btn_env) caller" where
  "btnl_interrupt debounce f irq c a s =
     (OK, case g_btnhandler (the_low s) of
            None \<Rightarrow> s | Some btn_interrupt_p \<Rightarrow> btn_interrupt debounce g_btnlower s)"

text \<open>
  Initialization: \<open>cfg\<close> and \<open>g\<close> are the Kconfig settings and the static pointer of \<^verbatim>\<open>strtok\<close>; no
  result is a store out of bounds while the pin list is parsed.
\<close>

definition btn_lower_initialize ::
  "btn_config \<Rightarrow> string option \<Rightarrow> (string \<Rightarrow> (string \<times> nat) list \<Rightarrow> int) \<Rightarrow> nat option \<Rightarrow> string \<Rightarrow>
   'e bstate \<Rightarrow> (int \<times> 'e bstate) option" where
  "btn_lower_initialize cfg g reserve alloc devname s =
     (case board_button_initialize cfg g (board (the_low s)) (hw s) of
        None \<Rightarrow> None
      | Some (n, b, h) \<Rightarrow>
          let s = upd_low (\<lambda>l. l\<lparr>board := b, g_btnnum := n\<rparr>) (on_hw (\<lambda>_. h) s)
          in Some (btn_register reserve alloc devname g_btnlower s))"

subsection \<open>The lower half keeps the contract\<close>

definition btn_pin :: "'e bstate \<Rightarrow> nat \<Rightarrow> nat" where
  "btn_pin s i = gpio_pin (g_buttons (board (the_low s)) ! i)"

text \<open>The lines and the pins of the buttons.\<close>

definition btn_lines :: "'e bstate \<Rightarrow> nat set" where
  "btn_lines s = btn_pin s ` {..<g_btnnum (the_low s)}"

definition btn_locs :: "'e bstate \<Rightarrow> (nat \<times> nat) set" where
  "btn_locs s = (\<lambda>i. gpio_loc (g_buttons (board (the_low s)) ! i)) ` {..<g_btnnum (the_low s)}"

lemma btn_lines_locs: "btn_lines s = snd ` btn_locs s"
  by (simp add: btn_lines_def btn_locs_def btn_pin_def gpio_loc_def image_image)

text \<open>
  The lower half is ready: the interrupt tables are in order, the buttons it counts are in the
  board's table, on lines of their own, and a line with a callback belongs to one of them, leads
  to the driver and has a handler to call. The exception are the lines of \<open>K\<close>, which belong to other
  drivers and have the callbacks that \<open>K\<close> says; that the operations keep this is their frame.
\<close>

definition btn_ready :: "(nat \<rightharpoonup> (board_isr, nat) gpio_callback_s) \<Rightarrow> 'e bstate \<Rightarrow> bool" where
  "btn_ready K s \<longleftrightarrow>
     exti_inv s \<and> g_btnnum (the_low s) \<le> g_button_count (board (the_low s)) \<and>
     inj_on (btn_pin s) {..<g_btnnum (the_low s)} \<and> btn_lines s \<inter> dom K = {} \<and>
     (\<forall>q < 16. q \<notin> dom K \<longrightarrow> callback (g_gpio_callbacks s ! q) \<noteq> None \<longrightarrow>
        q \<in> btn_lines s \<and> g_gpio_callbacks s ! q = \<lparr>callback = Some btnl_interrupt_p, cbarg = None\<rparr> \<and>
        g_btnhandler (the_low s) = Some btn_interrupt_p) \<and>
     (\<forall>q < 16. \<forall>x. K q = Some x \<longrightarrow> g_gpio_callbacks s ! q = x)"

lemma btn_readyD:
  assumes "btn_ready K s" "q < 16" "q \<notin> dom K" "callback (g_gpio_callbacks s ! q) \<noteq> None"
  shows "q \<in> btn_lines s" "g_gpio_callbacks s ! q = \<lparr>callback = Some btnl_interrupt_p, cbarg = None\<rparr>"
    "g_btnhandler (the_low s) = Some btn_interrupt_p"
  using assms unfolding btn_ready_def by blast+

definition btn_armed :: "'e bstate \<Rightarrow> nat set" where
  "btn_armed s = {i. i < g_btnnum (the_low s) \<and> callback (g_gpio_callbacks s ! btn_pin s i) \<noteq> None}"

lemma btn_pin_less [simp]: "btn_pin s i < 16"
  by (simp add: btn_pin_def gpio_pin_less)

lemma btnnum_16: "btn_ready K s \<Longrightarrow> g_btnnum (the_low s) \<le> 16"
proof -
  assume "btn_ready K s"
  then have "card {..<g_btnnum (the_low s)} \<le> card {..<16 :: nat}"
    by (intro card_inj_on_le [of "btn_pin s"]) (auto simp: btn_ready_def)
  then show ?thesis by simp
qed

lemma supported_bits: "btn_ready K s \<Longrightarrow> bit (btn_supported s) i \<longleftrightarrow> i < g_btnnum (the_low s)"
proof -
  assume "btn_ready K s"
  then have "g_btnnum (the_low s) \<le> 16" by (rule btnnum_16)
  moreover have "btn_supported s = mask (g_btnnum (the_low s))"
    by (simp add: btn_supported_def mask_eq_exp_minus_1)
  ultimately show ?thesis by (auto simp: bit_mask_iff)
qed

lemma low_simps [simp]:
  "hw (upd_low f s) = hw s" "g_gpio_callbacks (upd_low f s) = g_gpio_callbacks s"
  "g_irqvector (upd_low f s) = g_irqvector s" "the_low (upd_low f s) = f (the_low s)"
  "the_low (on_hw k s) = the_low s" "the_low (set_client u w l s) = the_low s"
  by (simp_all add: upd_low_def the_low_def on_hw_def set_client_def)

lemma irq_state_simps [simp]:
  "env (snd (board_button_irq b bid f a s)) = env s"
  "the_low (snd (board_button_irq b bid f a s)) = the_low s"
  by (simp_all add: board_button_irq_def setevent_state the_low_def)

lemma disable_loop_env [simp]: "env (disable_loop ids s) = env s" "the_low (disable_loop ids s) = the_low s"
  by (induction ids s rule: disable_loop.induct) simp_all

lemma enable_loop_env [simp]: "env (enable_loop e ids s) = env s" "the_low (enable_loop e ids s) = the_low s"
  by (induction e ids s rule: enable_loop.induct) simp_all

lemma irq_inv: "exti_inv s \<Longrightarrow> exti_inv (snd (board_button_irq b bid f a s))"
  by (simp add: board_button_irq_def exti_inv_setevent)

lemma loop_inv:
  "exti_inv s \<Longrightarrow> exti_inv (disable_loop ids s)" "exti_inv s \<Longrightarrow> exti_inv (enable_loop e ids s)"
proof -
  show "exti_inv s \<Longrightarrow> exti_inv (disable_loop ids s)"
    by (induction ids s rule: disable_loop.induct) (simp_all add: irq_inv)
  show "exti_inv s \<Longrightarrow> exti_inv (enable_loop e ids s)"
    by (induction e ids s rule: enable_loop.induct) (simp_all add: irq_inv)
qed

lemma disable_loop_table:
  assumes "length (g_gpio_callbacks s) = 16" "\<forall>i \<in> set ids. i < g_button_count (board (the_low s))" "q < 16"
  shows "g_gpio_callbacks (disable_loop ids s) ! q =
    (if q \<in> btn_pin s ` set ids then \<lparr>callback = None, cbarg = None\<rparr> else g_gpio_callbacks s ! q)"
  using assms
proof (induction ids s rule: disable_loop.induct)
  case (2 i ids s)
  let ?s = "snd (board_button_irq (board (the_low s)) (int i) None None s)"
  have t: "g_gpio_callbacks ?s = (g_gpio_callbacks s)[btn_pin s i := \<lparr>callback = None, cbarg = None\<rparr>]"
    using 2 by (subst button_irq_callback) (simp_all add: btn_pin_def)
  have "btn_pin ?s = btn_pin s" by (simp add: btn_pin_def fun_eq_iff)
  with 2 t show ?case by (auto simp: nth_list_update)
qed simp

lemma enable_loop_table:
  assumes "length (g_gpio_callbacks s) = 16" "\<forall>i \<in> set ids. i < g_button_count (board (the_low s)) \<and> i < 32" "q < 16"
  shows "g_gpio_callbacks (enable_loop e ids s) ! q =
    (if q \<in> btn_pin s ` {i \<in> set ids. bit e i} then \<lparr>callback = Some btnl_interrupt_p, cbarg = None\<rparr>
     else g_gpio_callbacks s ! q)"
  using assms
proof (induction e ids s rule: enable_loop.induct)
  case (2 e i ids s)
  let ?s = "snd (board_button_irq (board (the_low s)) (int i) (Some btnl_interrupt_p) None s)"
  have t: "g_gpio_callbacks ?s = (g_gpio_callbacks s)[btn_pin s i := \<lparr>callback = Some btnl_interrupt_p, cbarg = None\<rparr>]"
    using 2 by (subst button_irq_callback) (simp_all add: btn_pin_def)
  have p: "btn_pin ?s = btn_pin s" by (simp add: btn_pin_def fun_eq_iff)
  have "i < 32" using 2(3) by simp
  then have b: "e AND push_bit i 1 \<noteq> 0 \<longleftrightarrow> bit e i" by (rule and_bit_iff)
  show ?case
  proof (cases "bit e i")
    case True
    with b have "enable_loop e (i # ids) s = enable_loop e ids ?s" by (simp del: push_bit_of_1)
    with 2 t p b True show ?thesis by (auto simp: nth_list_update simp del: push_bit_of_1 enable_loop.simps)
  next
    case False
    with b have "enable_loop e (i # ids) s = enable_loop e ids s" by (simp del: push_bit_of_1)
    with 2 b False show ?thesis by (auto simp del: push_bit_of_1 enable_loop.simps)
  qed
qed simp

lemma btn_disable_table:
  assumes "btn_ready K s" "q < 16"
  shows "g_gpio_callbacks (btnl_disable s) ! q =
    (if q \<in> btn_lines s then \<lparr>callback = None, cbarg = None\<rparr> else g_gpio_callbacks s ! q)"
proof -
  have "length (g_gpio_callbacks s) = 16" "\<forall>i \<in> set [0..<g_btnnum (the_low s)]. i < g_button_count (board (the_low s))"
    using assms(1) by (auto simp: btn_ready_def exti_inv_def)
  from disable_loop_table [OF this assms(2)] show ?thesis
    by (simp add: btnl_disable_def btn_lines_def atLeast0LessThan)
qed

definition low_handler :: "btn_handler_t option \<Rightarrow> btn_low \<Rightarrow> btn_low" where
  "low_handler h l = l\<lparr>g_btnhandler := h\<rparr>"

lemma btnl_enable_low:
  "env (btnl_enable p r h s) =
     (env s)\<lparr>low := low_handler (if p OR r \<noteq> 0 then h else None) (the_low s)\<rparr>"
  by (auto simp: btnl_enable_def btnl_disable_def Let_def upd_low_def the_low_def low_handler_def)

lemma btnl_enable_pin [simp]: "btn_pin (btnl_enable p r h s) = btn_pin s" "g_btnnum (the_low (btnl_enable p r h s)) = g_btnnum (the_low s)"
  "board (the_low (btnl_enable p r h s)) = board (the_low s)"
  using btnl_enable_low [of p r h s] by (simp_all add: btn_pin_def the_low_def low_handler_def fun_eq_iff)

lemma exti_inv_upd_low [simp]: "exti_inv (upd_low f s) \<longleftrightarrow> exti_inv s"
  by (simp add: exti_inv_def)

lemma btnl_enable_inv: "exti_inv s \<Longrightarrow> exti_inv (btnl_enable p r h s)"
  by (simp add: btnl_enable_def btnl_disable_def Let_def loop_inv)

lemma btnl_enable_table:
  assumes "btn_ready K s" "q < 16"
  shows "g_gpio_callbacks (btnl_enable p r h s) ! q =
    (if h \<noteq> None \<and> q \<in> btn_pin s ` {i. i < g_btnnum (the_low s) \<and> (bit p i \<or> bit r i)}
     then \<lparr>callback = Some btnl_interrupt_p, cbarg = None\<rparr>
     else if q \<in> btn_lines s then \<lparr>callback = None, cbarg = None\<rparr> else g_gpio_callbacks s ! q)"
proof -
  let ?s = "btnl_disable s"
  have n: "g_btnnum (the_low s) \<le> 16" using assms(1) by (rule btnnum_16)
  have low: "g_btnnum (the_low ?s) = g_btnnum (the_low s)" "board (the_low ?s) = board (the_low s)"
    by (simp_all add: btnl_disable_def)
  have "exti_inv ?s" using assms(1) by (simp add: btnl_disable_def btn_ready_def loop_inv)
  then have l: "length (g_gpio_callbacks ?s) = 16" by (simp add: exti_inv_def)
  note off = btn_disable_table [OF assms]
  show ?thesis
  proof (cases "p OR r \<noteq> 0 \<and> h \<noteq> None")
    case True
    let ?t = "upd_low (\<lambda>l. l\<lparr>g_btnhandler := h\<rparr>) ?s"
    have "\<forall>i \<in> set [0..<g_btnnum (the_low s)]. i < g_button_count (board (the_low ?t)) \<and> i < 32"
      using assms(1) n low by (auto simp: btn_ready_def)
    moreover have "btn_pin ?t = btn_pin s" by (simp add: btn_pin_def low fun_eq_iff)
    ultimately show ?thesis
      using enable_loop_table [of ?t "[0..<g_btnnum (the_low s)]" q "p OR r"] l off assms(2) True
      by (simp add: btnl_enable_def low bit_or_iff)
  next
    case False
    have "bit p i \<or> bit r i \<Longrightarrow> p OR r \<noteq> 0" for i by (auto simp: word_nonzero_iff bit_or_iff)
    with False off show ?thesis by (auto simp: btnl_enable_def)
  qed
qed

lemma btnl_enable_lines [simp]: "btn_lines (btnl_enable p r h s) = btn_lines s"
  by (simp add: btn_lines_def)

interpretation btn_lower: lower_half g_btnlower "btn_ready K" btn_armed for K
proof unfold_locales
  fix s :: "'a bstate" and u w l p r h
  have pin: "btn_pin (set_client u w l s) = btn_pin s" "btn_lines (set_client u w l s) = btn_lines s"
    by (simp_all add: btn_pin_def btn_lines_def fun_eq_iff)
  show "btn_ready K (set_client u w l s) = btn_ready K s" "btn_armed (set_client u w l s) = btn_armed s"
    by (simp_all add: btn_ready_def btn_armed_def exti_inv_def pin)
  show "bl_buttons g_btnlower (set_client u w l s) = bl_buttons g_btnlower s"
    "bl_supported g_btnlower (set_client u w l s) = bl_supported g_btnlower s"
    by (simp_all add: g_btnlower_def btn_buttons_def btn_supported_def)
  show "\<exists>x. env (bl_enable g_btnlower p r h s) = (env s)\<lparr>low := x\<rparr>"
    by (auto simp: g_btnlower_def btnl_enable_low)
  show "bl_write g_btnlower = (None :: (string \<Rightarrow> 'a bstate \<Rightarrow> int \<times> 'a bstate) option)" by (simp add: g_btnlower_def)
  assume rd: "btn_ready K s"
  show "bl_supported g_btnlower (bl_enable g_btnlower p r h s) = bl_supported g_btnlower s"
    by (simp add: g_btnlower_def btn_supported_def)
  have hnd: "g_btnhandler (the_low (btnl_enable p r h s)) = h" if "p OR r \<noteq> 0"
    using btnl_enable_low [of p r h s] that by (simp add: the_low_def low_handler_def)
  have "h = Some btn_interrupt_p" if "h \<noteq> None" using that by (metis (full_types) btn_handler_t.exhaust not_None_eq)
  moreover have "p OR r \<noteq> 0" if "bit p i \<or> bit r i" for i
    using that by (auto simp: word_nonzero_iff bit_or_iff)
  ultimately have "g_btnhandler (the_low (btnl_enable p r h s)) = Some btn_interrupt_p"
    if "h \<noteq> None" "bit p i \<or> bit r i" for i using that hnd by blast
  then show "btn_ready K (bl_enable g_btnlower p r h s)"
    using rd btnl_enable_inv [of s p r h] unfolding btn_ready_def g_btnlower_def
    by (auto simp: btnl_enable_table [OF rd] btn_lines_def split: if_splits)
  show "btn_armed (bl_enable g_btnlower p r h s) =
      (if h = None then {} else {i. (bit p i \<or> bit r i) \<and> bit (bl_supported g_btnlower s) i})"
    using rd unfolding btn_armed_def g_btnlower_def
    by (auto simp: btnl_enable_table [OF rd] supported_bits [OF rd] btn_lines_def btn_ready_def dest: inj_onD split: if_splits)
qed

text \<open>No pin but those of the buttons is touched.\<close>

lemma irq_view:
  "i < g_button_count b \<longrightarrow> p \<noteq> gpio_loc (g_buttons b ! i) \<Longrightarrow>
   pin_view (hw (snd (board_button_irq b (int i) f a s))) p = pin_view (hw s) p"
  by (auto simp: board_button_irq_def setevent_view)

lemma not_btn_loc: "p \<notin> btn_locs s \<Longrightarrow> i < g_btnnum (the_low s) \<Longrightarrow> p \<noteq> gpio_loc (g_buttons (board (the_low s)) ! i)"
  by (auto simp: btn_locs_def)

lemma loop_view:
  assumes "p \<notin> btn_locs s" "\<forall>i \<in> set ids. i < g_btnnum (the_low s)"
  shows "pin_view (hw (disable_loop ids s)) p = pin_view (hw s) p"
    "pin_view (hw (enable_loop e ids s)) p = pin_view (hw s) p"
proof -
  have locs: "btn_locs (snd (board_button_irq b bid f a t)) = btn_locs t" for b bid f a and t :: "'a bstate"
    by (simp add: btn_locs_def)
  show "pin_view (hw (disable_loop ids s)) p = pin_view (hw s) p"
    using assms by (induction ids s rule: disable_loop.induct) (simp_all add: locs irq_view not_btn_loc)
  show "pin_view (hw (enable_loop e ids s)) p = pin_view (hw s) p"
    using assms by (induction e ids s rule: enable_loop.induct) (simp_all add: locs irq_view not_btn_loc)
qed

lemma btnl_enable_view: "p \<notin> btn_locs s \<Longrightarrow> pin_view (hw (btnl_enable q r h s)) p = pin_view (hw s) p"
proof -
  assume p: "p \<notin> btn_locs s"
  have "btn_locs (upd_low (\<lambda>l. l\<lparr>g_btnhandler := h\<rparr>) (btnl_disable s)) = btn_locs s" by (simp add: btn_locs_def btnl_disable_def)
  with p show ?thesis
    by (simp add: btnl_enable_def Let_def loop_view) (simp add: btnl_disable_def loop_view)
qed

text \<open>
  The same with the table of the buttons and all other pins fixed: no operation changes them.
\<close>

definition btn_ready_at ::
  "(nat \<rightharpoonup> (board_isr, nat) gpio_callback_s) \<Rightarrow> buttons \<times> nat \<Rightarrow> (nat \<times> nat \<Rightarrow> pin_config option \<times> bool option) \<Rightarrow>
   'e bstate \<Rightarrow> bool" where
  "btn_ready_at K T V s \<longleftrightarrow>
     btn_ready K s \<and> T = (board (the_low s), g_btnnum (the_low s)) \<and> (\<forall>p. p \<notin> btn_locs s \<longrightarrow> pin_view (hw s) p = V p)"

interpretation btn_fixed: lower_half g_btnlower "btn_ready_at K T V" btn_armed for K T V
proof unfold_locales
  fix s :: "'a bstate" and u w l p r h
  have "btn_locs (set_client u w l s) = btn_locs s" by (simp add: btn_locs_def)
  then show "btn_ready_at K T V (set_client u w l s) = btn_ready_at K T V s"
    by (simp add: btn_ready_at_def btn_lower.client(1))
  have "btn_locs (btnl_enable p r h s) = btn_locs s" by (simp add: btn_locs_def)
  then show "btn_ready_at K T V s \<Longrightarrow> btn_ready_at K T V (bl_enable g_btnlower p r h s)"
    using btn_lower.enable_ready [of K s p r h] by (simp add: btn_ready_at_def g_btnlower_def btnl_enable_view)
  assume "btn_ready_at K T V s"
  then have rd: "btn_ready K s" by (simp add: btn_ready_at_def)
  show "bl_supported g_btnlower (bl_enable g_btnlower p r h s) = bl_supported g_btnlower s"
    using rd by (rule btn_lower.enable_supported)
  show "btn_armed (bl_enable g_btnlower p r h s) =
      (if h = None then {} else {i. (bit p i \<or> bit r i) \<and> bit (bl_supported g_btnlower s) i})"
    using rd by (rule btn_lower.enable_armed)
qed (simp_all add: btn_lower.client btn_lower.enable_env btn_lower.no_write)

lemma btn_op_inv:
  assumes "btn_op d g_btnlower s s'" "btn_lower.binv K s"
  shows "btn_lower.binv K s'" "btn_lines s' = btn_lines s" "btn_locs s' = btn_locs s"
    "p \<notin> btn_locs s \<Longrightarrow> pin_view (hw s') p = pin_view (hw s) p" "g_btnnum (the_low s') = g_btnnum (the_low s)"
proof -
  let ?T = "(board (the_low s), g_btnnum (the_low s))"
  have "btn_fixed.binv K ?T (pin_view (hw s)) s"
    using assms(2) by (simp add: btn_fixed.binv_def btn_lower.binv_def btn_ready_at_def)
  with btn_fixed.op_inv [OF assms(1)] have inv: "btn_fixed.binv K ?T (pin_view (hw s)) s'" by blast
  then have low: "board (the_low s') = board (the_low s)" "g_btnnum (the_low s') = g_btnnum (the_low s)"
    by (simp_all add: btn_fixed.binv_def btn_ready_at_def)
  show "g_btnnum (the_low s') = g_btnnum (the_low s)" by (rule low)
  from inv show "btn_lower.binv K s'" by (simp add: btn_fixed.binv_def btn_lower.binv_def btn_ready_at_def)
  show locs: "btn_lines s' = btn_lines s" "btn_locs s' = btn_locs s" using low by (simp_all add: btn_lines_locs btn_locs_def)
  show "p \<notin> btn_locs s \<Longrightarrow> pin_view (hw s') p = pin_view (hw s) p"
    using inv locs(2) by (cases p) (simp add: btn_fixed.binv_def btn_ready_at_def)
qed

subsection \<open>Interrupts\<close>

lemma lower_sel [simp]:
  "bl_buttons g_btnlower = btn_buttons" "bl_supported g_btnlower = btn_supported" "bl_enable g_btnlower = btnl_enable"
  by (simp_all add: g_btnlower_def)

lemma gpioread_same: "same_regs h h' \<Longrightarrow> stm32_gpioread c h' = stm32_gpioread c h"
proof (cases "gpio_port c < 8")
  case True
  assume same: "same_regs h h'"
  have "unat (g_gpiobase ! gpio_port c + STM32_GPIO_IDR_OFFSET) \<noteq> unat STM32_EXTI_CPUPR1"
    using gpio_reg_unat [OF True, of STM32_GPIO_IDR_OFFSET] by (simp add: STM32_GPIO_IDR_OFFSET_def exti_regs)
  then have "g_gpiobase ! gpio_port c + STM32_GPIO_IDR_OFFSET \<noteq> STM32_EXTI_CPUPR1" by auto
  with same True show ?thesis by (simp add: gpioread_iff same_regs_def)
qed (simp add: stm32_gpioread_def STM32H7_NGPIO_def)

lemma buttons_same: "same_regs h h' \<Longrightarrow> board_buttons b h' = board_buttons b h"
proof -
  assume "same_regs h h'"
  then have "buttons_loop cs i h' r = buttons_loop cs i h r" for cs i r
    by (induction cs arbitrary: i r) (simp_all add: gpioread_same Let_def)
  then show ?thesis by (simp add: board_buttons_def)
qed

lemma sample_env:
  fixes s t :: "'e bstate"
  assumes "env t = env s" "same_regs (hw s) (hw t)"
  shows "btn_sample g_btnlower t = t\<lparr>env := env (btn_sample g_btnlower s)\<rparr>"
proof -
  obtain press release sample where ch: "changes g_btnlower s = (press, release, sample)" by (rule prod_cases3)
  then have ch': "changes g_btnlower t = (press, release, sample)"
    using assms buttons_same by (simp add: changes_def btn_buttons_def btn_supported_def the_low_def the_upper_def)
  show ?thesis
    unfolding btn_sample_eq [OF ch] btn_sample_eq [OF ch'] by (simp add: set_client_def the_upper_def assms(1))
qed

lemma interrupt_env:
  fixes s t :: "'e bstate"
  assumes "env t = env s" "same_regs (hw s) (hw t)"
  shows "btn_interrupt d g_btnlower t = t\<lparr>env := env (btn_interrupt d g_btnlower s)\<rparr>"
  using sample_env [OF assms] by (simp add: btn_interrupt_def upd_upper_def assms(1))

text \<open>Sampling again without a change of the buttons changes nothing and tells nobody.\<close>

lemma sample_twice: "btn_sample g_btnlower (btn_sample g_btnlower s) = btn_sample g_btnlower s"
proof -
  obtain press release sample where ch: "changes g_btnlower s = (press, release, sample)" by (rule prod_cases3)
  let ?s = "btn_sample g_btnlower s"
  have "sample = btn_buttons s" using changes_bits(3) [OF ch] by simp
  moreover have b: "btn_buttons ?s = btn_buttons s"
    unfolding btn_sample_eq [OF ch] by (simp add: btn_buttons_def)
  ultimately have "changes g_btnlower ?s = (0, 0, sample)"
    by (simp add: changes_def Let_def) (simp add: btn_sample_eq [OF ch])
  moreover have "sampled 0 0 sample (sampled press release sample p) = sampled press release sample p" for p :: "'a btn_open_s"
    using sampled_same(2) [of press release sample p] by (simp add: sampled_def [of 0] hits_def)
  moreover have "polled 0 0 = (\<lambda>p w. w)" for p :: "'a btn_open_s"
    by (simp add: polled_def hits_def fun_eq_iff)
  moreover have "fold (\<lambda>(a, p). polled 0 0 p) os w = w" for os :: "(nat \<times> 'a btn_open_s) list" and w
    by (induction os) (auto simp: polled_def hits_def)
  moreover have "told 0 0 sample os = []" for os :: "(nat \<times> 'a btn_open_s) list"
    by (simp add: told_def hits_def split_def)
  ultimately show ?thesis
    using btn_sample_eq [of g_btnlower ?s 0 0 sample] unfolding btn_sample_eq [OF ch]
    by (simp add: set_client_def the_upper_def comp_def split_def)
qed

lemma interrupt_twice: "btn_interrupt d g_btnlower (btn_interrupt d g_btnlower s) = btn_interrupt d g_btnlower s"
  by (simp add: btn_interrupt_def sample_twice) (simp add: upd_upper_def)

lemma interrupt_low [simp]: "the_low (btn_interrupt d g_btnlower s) = the_low s"
proof -
  obtain press release sample where "changes g_btnlower s = (press, release, sample)" by (rule prod_cases3)
  from btn_sample_eq [OF this] show ?thesis by (simp add: btn_interrupt_def) (simp add: upd_upper_def the_low_def)
qed

text \<open>
  What the handler does to the data of the driver, in a state with the registers of \<open>s\<close>; it does not
  look at the pending bits, and doing it twice is doing it once.
\<close>

definition btn_isr :: "bool \<Rightarrow> 'e bstate \<Rightarrow> ('e, btn_low) btn_env \<Rightarrow> ('e, btn_low) btn_env" where
  "btn_isr d s e = (if g_btnhandler (low e) = None then e else env (btn_interrupt d g_btnlower (s\<lparr>env := e\<rparr>)))"

lemma btnl_interrupt_isr:
  assumes "same_regs (hw s) (hw t)"
  shows "btnl_interrupt d f irq c a t = (OK, t\<lparr>env := btn_isr d s (env t)\<rparr>)"
proof (cases "g_btnhandler (low (env t))")
  case (Some h)
  then show ?thesis
    using interrupt_env [of t "s\<lparr>env := env t\<rparr>" d] assms by (cases h) (simp add: btnl_interrupt_def btn_isr_def the_low_def)
qed (simp add: btnl_interrupt_def btn_isr_def the_low_def)

lemma btn_isr_twice: "btn_isr d s (btn_isr d s e) = btn_isr d s e"
proof (cases "g_btnhandler (low e)")
  case (Some h)
  let ?t = "s\<lparr>env := e\<rparr>"
  have "s\<lparr>env := env (btn_interrupt d g_btnlower ?t)\<rparr> = btn_interrupt d g_btnlower ?t"
    using interrupt_env [of ?t ?t d] by simp
  moreover have "low (env (btn_interrupt d g_btnlower ?t)) = low e"
    using interrupt_low [of d ?t] by (simp add: the_low_def)
  ultimately show ?thesis using Some by (simp add: btn_isr_def interrupt_twice)
qed (simp add: btn_isr_def)

text \<open>
  Dispatching the interrupt of an armed line: however many of the pending lines have a callback,
  the effect is that of one call of the upper half's handler, if there is one.
\<close>

lemma btn_dispatch:
  fixes s :: "'e bstate"
  assumes "btn_lower.binv Map.empty s" "p < 16" "callback (g_gpio_callbacks s ! p) \<noteq> None"
  defines "served \<equiv> exti_served (getreg32 STM32_EXTI_CPUPR1 (hw s)) p"
  shows "\<exists>s'. irq_dispatch (btnl_interrupt d) (exti_irq p) c s = Some s' \<and>
    env s' = (if \<exists>q \<in> set served. callback (g_gpio_callbacks s ! q) \<noteq> None
              then env (btn_interrupt d g_btnlower s) else env s) \<and>
    wlog (hw s') = rev (map ack served) @ wlog (hw s)"
proof -
  have rd: "btn_ready Map.empty s" using assms(1) by (simp add: btn_lower.binv_def)
  then have inv: "exti_inv s" and hnd: "g_btnhandler (low (env s)) = Some btn_interrupt_p"
    using assms(2,3) by (auto simp: btn_ready_def the_low_def)
  define E where "E f irq a e = (OK, btn_isr d s e)" for f :: board_isr and irq :: int and a :: "nat option" and e
  let ?cs = "concat (map (exti_calls s (exti_irq p)) served)"
  have "btnl_interrupt d f irq c a t = env_call E f irq c a t" if "same_regs (hw s) (hw t)" for f irq c a t
    using btnl_interrupt_isr [OF that, of d f irq c a] by (simp add: env_call_def E_def)
  then have "irq_dispatch (btnl_interrupt d) (exti_irq p) c s = irq_dispatch (env_call E) (exti_irq p) c s"
    by (rule dispatch_cong [OF inv assms(2,3)])
  moreover have "run_calls E ?cs (env s) = (btn_isr d s ^^ length ?cs) (env s)"
    using run_calls_view [of ?cs "\<lambda>e. e" E "\<lambda>_. True" "btn_isr d s" "env s"] by (simp add: E_def split_def)
  moreover have "?cs = [] \<longleftrightarrow> \<not> (\<exists>q \<in> set served. callback (g_gpio_callbacks s ! q) \<noteq> None)"
    by (auto simp: exti_calls_def split: option.splits)
  moreover have "btn_isr d s (env s) = env (btn_interrupt d g_btnlower s)" using hnd by (simp add: btn_isr_def)
  moreover obtain s' where "irq_dispatch (env_call E) (exti_irq p) c s = Some s'"
    "env s' = run_calls E ?cs (env s)" "wlog (hw s') = rev (map ack served) @ wlog (hw s)"
    using dispatch_env [OF inv assms(2,3), of E c, folded served_def] by (elim exE conjE) (rule that)
  ultimately show ?thesis by (intro exI [of _ s']) (simp add: funpow_idem btn_isr_twice)
qed

subsection \<open>Operation\<close>

text \<open>
  Start-up is the zeroed memory of the driver. Afterwards files are opened (at addresses that
  are free), used and closed, the inputs change and set pending bits, armed lines interrupt, and
  the watchdog of the debouncing runs out.
\<close>

definition btn_boot :: "btn_config \<Rightarrow> 'e bstate \<Rightarrow> bool" where
  "btn_boot cfg s \<longleftrightarrow>
     exti_start s \<and> length (g_buttons (board (the_low s))) = cfg_count cfg \<and> 0 < cfg_count cfg"

definition good_config :: "btn_config \<Rightarrow> bool" where
  "good_config cfg \<longleftrightarrow> (case spec_buttons cfg of None \<Rightarrow> False | Some ws \<Rightarrow> distinct (map gpio_pin ws))"

inductive btn_reach :: "bool \<Rightarrow> 'e bstate \<Rightarrow> bool" for d where
  init: "btn_boot cfg s \<Longrightarrow> good_config cfg \<Longrightarrow>
    btn_lower_initialize cfg g reserve (Some a) devname s = Some (r, s') \<Longrightarrow> btn_reach d s'"
| op: "btn_reach d s \<Longrightarrow> btn_op d g_btnlower s s' \<Longrightarrow> btn_reach d s'"
| inputs: "btn_reach d s \<Longrightarrow> exti_lines h = exti_lines (hw s) \<Longrightarrow> wlog h = wlog (hw s) \<Longrightarrow>
    btn_reach d (on_hw (\<lambda>_. h) s)"
| interrupt: "btn_reach d s \<Longrightarrow> p < 16 \<Longrightarrow> int_enabled (exti_lines (hw s) p) \<Longrightarrow>
    irq_dispatch (btnl_interrupt d) (exti_irq p) c s = Some s' \<Longrightarrow> btn_reach d s'"

lemma exti_inv_config_all:
  "exti_inv s \<Longrightarrow> exti_inv (on_hw (fold (\<lambda>c h. snd (stm32_configgpio c h)) cs) s)"
proof (induction cs arbitrary: s)
  case (Cons c cs)
  have e: "on_hw (fold (\<lambda>c h. snd (stm32_configgpio c h)) (c # cs)) s =
      on_hw (fold (\<lambda>c h. snd (stm32_configgpio c h)) cs) (on_hw (\<lambda>h. snd (stm32_configgpio c h)) s)"
    by (simp add: on_hw_def)
  show ?case unfolding e using Cons.prems by (intro Cons.IH) (simp add: exti_inv_hw configgpio_writes_in)
qed (simp add: on_hw_def)

text \<open>
  What the invariant depends on: the data of the two halves, the tables being in order, and the
  callbacks of the buttons. The lines of others may change, as long as the new callbacks are said.
\<close>

lemma binv_frame:
  assumes "btn_lower.binv K t" "low (env s') = low (env t)" "upper (env s') = upper (env t)" "exti_inv s'"
    "\<forall>q \<in> btn_lines t. g_gpio_callbacks s' ! q = g_gpio_callbacks t ! q" "btn_lines t \<inter> dom K' = {}"
    "\<forall>q < 16. q \<notin> btn_lines t \<longrightarrow>
       (case K' q of None \<Rightarrow> callback (g_gpio_callbacks s' ! q) = None | Some x \<Rightarrow> g_gpio_callbacks s' ! q = x)"
  shows "btn_lower.binv K' s'"
proof -
  have low: "the_low s' = the_low t" "the_upper s' = the_upper t" using assms(2,3) by (simp_all add: the_low_def the_upper_def)
  then have pin: "btn_pin s' = btn_pin t" "btn_lines s' = btn_lines t" "btn_supported s' = btn_supported t"
    by (simp_all add: btn_pin_def btn_lines_def btn_supported_def fun_eq_iff)
  have rd: "btn_ready K t" using assms(1) by (simp add: btn_lower.binv_def)
  have own: "g_gpio_callbacks s' ! btn_pin t i = g_gpio_callbacks t ! btn_pin t i" if "i < g_btnnum (the_low t)" for i
    using assms(5) that by (simp add: btn_lines_def)
  have "g_gpio_callbacks s' ! q = \<lparr>callback = Some btnl_interrupt_p, cbarg = None\<rparr> \<and> g_btnhandler (the_low t) = Some btn_interrupt_p"
    if "q < 16" "q \<in> btn_lines t" "callback (g_gpio_callbacks s' ! q) \<noteq> None" for q
    using rd assms(5) that unfolding btn_ready_def by fastforce
  then have "btn_ready K' s'"
    using rd assms(4,6,7) unfolding btn_ready_def low pin by (fastforce split: option.splits)
  moreover have "btn_armed s' = btn_armed t" using own by (auto simp: btn_armed_def low pin)
  ultimately show ?thesis using assms(1) by (simp add: btn_lower.binv_def btn_lower.sup_def low pin)
qed

lemma binv_same:
  assumes "btn_lower.binv K t" "low (env s') = low (env t)" "upper (env s') = upper (env t)" "exti_inv s'"
    "g_gpio_callbacks s' = g_gpio_callbacks t"
  shows "btn_lower.binv K s'"
proof -
  have rd: "btn_ready K t" using assms(1) by (simp add: btn_lower.binv_def)
  have "btn_lines t \<inter> dom K = {}" using rd by (simp add: btn_ready_def)
  moreover have "\<forall>q < 16. q \<notin> btn_lines t \<longrightarrow>
      (case K q of None \<Rightarrow> callback (g_gpio_callbacks s' ! q) = None | Some x \<Rightarrow> g_gpio_callbacks s' ! q = x)"
    using rd unfolding btn_ready_def assms(5) by (auto split: option.split)
  ultimately show ?thesis using assms(5) by (intro binv_frame [OF assms(1-4)]) simp_all
qed

lemma nodes_inv:
  "btn_lower.binv K s \<Longrightarrow> btn_lower.binv K (s\<lparr>env := (env s)\<lparr>b_nodes := ns\<rparr>\<rparr>)"
  by (rule binv_same) (simp_all add: btn_lower.binv_def btn_ready_def exti_inv_def)

lemma register_inv:
  assumes "btn_ready K s"
  shows "btn_lower.binv K (snd (btn_register reserve (Some a) devname g_btnlower s))"
proof -
  let ?t = "upd_upper (\<lambda>u. \<lparr>bu_sample = 0, bu_enabled = False, bu_open = [], bu_wdog = False\<rparr>) s"
  let ?s = "btnl_enable 0 0 None ?t"
  have "btn_ready K ?t" using assms by (simp add: btn_lower.client_all)
  then have "btn_ready K ?s" "btn_armed ?s = {}"
    using btn_lower.enable_ready [of K ?t 0 0 None] btn_lower.enable_armed [of K ?t 0 0 None] by simp_all
  moreover have "the_upper ?s = \<lparr>bu_sample = 0, bu_enabled = False, bu_open = [], bu_wdog = False\<rparr>"
    using btn_lower.enable_keeps(1) [of 0 0 None ?t] by simp
  ultimately have "btn_lower.binv K ?s"
    by (simp add: btn_lower.binv_def want_def press_set_def release_set_def)
  then show ?thesis by (simp add: btn_register_def Let_def split_beta nodes_inv)
qed

lemma init_inv:
  assumes "btn_boot cfg s" "good_config cfg" "btn_lower_initialize cfg g reserve (Some a) devname s = Some (r, s')"
  shows "btn_lower.binv Map.empty s'"
proof -
  obtain ws where ws: "spec_buttons cfg = Some ws" "distinct (map gpio_pin ws)"
    using assms(2) by (auto simp: good_config_def split: option.splits)
  let ?h = "fold (\<lambda>c h. snd (stm32_configgpio c h)) ws (hw s)"
  obtain b where b: "board_button_initialize cfg g (board (the_low s)) (hw s) = Some (cfg_count cfg, b, ?h)"
    "take (g_button_count b) (g_buttons b) = ws" "g_button_count b = cfg_count cfg" "length (g_buttons b) = cfg_count cfg"
    using board_button_initialize_eq [of "board (the_low s)" cfg g "hw s"] assms(1) ws(1) by (auto simp: btn_boot_def)
  let ?s = "upd_low (\<lambda>l. l\<lparr>board := b, g_btnnum := cfg_count cfg\<rparr>) (on_hw (\<lambda>_. ?h) s)"
  have "exti_inv (on_hw (\<lambda>_. ?h) s)"
    using exti_inv_config_all [OF exti_inv_start, of s ws] assms(1) by (simp add: btn_boot_def on_hw_def)
  moreover have "inj_on (btn_pin ?s) {..<cfg_count cfg}"
    using ws(2) b(4) by (auto simp: inj_on_def btn_pin_def distinct_conv_nth b(2,3) [symmetric])
  moreover have "\<forall>q < 16. callback (g_gpio_callbacks s ! q) = None"
    using assms(1) by (simp add: btn_boot_def exti_start_def list_all_length)
  ultimately have "btn_ready Map.empty ?s" by (simp add: btn_ready_def b(3))
  then have "btn_lower.binv Map.empty (snd (btn_register reserve (Some a) devname g_btnlower ?s))" by (rule register_inv)
  then show ?thesis using assms(3) b(1) by (simp add: btn_lower_initialize_def)
qed


lemma inputs_inv:
  assumes "btn_lower.binv K s" "exti_lines h = exti_lines (hw s)" "wlog h = wlog (hw s)"
  shows "btn_lower.binv K (on_hw (\<lambda>_. h) s)"
  using assms by (intro binv_same [OF assms(1)]) (simp_all add: btn_lower.binv_def btn_ready_def exti_inv_def)

lemma btn_env_only: "env_only (btnl_interrupt d)"
  unfolding env_only_def
proof (intro allI)
  fix f irq c a and s :: "'a bstate"
  have "btn_interrupt d g_btnlower s = s\<lparr>env := env (btn_interrupt d g_btnlower s)\<rparr>"
    using interrupt_env [of s s d] by simp
  then show "\<exists>e. snd (btnl_interrupt d f irq c a s) = s\<lparr>env := e\<rparr>"
    by (cases "g_btnhandler (the_low s)")
      (auto simp: btnl_interrupt_def intro: exI [of _ "env s"] split: btn_handler_t.split)
qed

lemma interrupt_tables [simp]: "g_gpio_callbacks (btn_interrupt d g_btnlower s) = g_gpio_callbacks s"
  using interrupt_env [of s s d] by (metis irq_state.select_convs(2) irq_state.surjective irq_state.update_convs(4) same_regs_simps(1))

lemma btn_interrupt_inv:
  assumes "btn_lower.binv Map.empty s" "p < 16" "int_enabled (exti_lines (hw s) p)"
    "irq_dispatch (btnl_interrupt d) (exti_irq p) c s = Some s'"
  shows "btn_lower.binv Map.empty s'"
proof -
  have "exti_inv s" using assms(1) by (simp add: btn_lower.binv_def btn_ready_def)
  then have cb: "callback (g_gpio_callbacks s ! p) \<noteq> None" using assms(2,3) by (simp add: exti_inv_def)
  have k: "keeps_tables s s'" using keeps_tables_dispatch [OF btn_env_only assms(4)] .
  have s': "exti_inv s'" "g_gpio_callbacks s' = g_gpio_callbacks s"
    using keeps_tables_inv [OF k \<open>exti_inv s\<close>] k by (simp_all add: keeps_tables_def)
  have "env s' = env (btn_interrupt d g_btnlower s) \<or> env s' = env s"
    using btn_dispatch [OF assms(1,2) cb, of d c] assms(4) by (auto split: if_splits)
  then show ?thesis
    using binv_same [OF btn_lower.interrupt_inv [OF assms(1), of d] _ _ s'(1)] binv_same [OF assms(1) _ _ s'(1)] s'(2)
    by auto
qed

lemma btn_reach_inv: "btn_reach d s \<Longrightarrow> btn_lower.binv Map.empty s"
  by (induction rule: btn_reach.induct) (blast intro: init_inv btn_lower.op_inv inputs_inv btn_interrupt_inv)+

text \<open>
  C5. The interrupt lines follow the open files: for a list of pins that parses and has no two buttons
  on one line, in every state the button driver can get into, the
  line of a button is unmasked exactly if some open file asks for a press or a release of that
  button, for a poll or a signal, and the line of no other pin is; a line that is unmasked has the handler of the
  driver as its callback, which is set to call the upper half; interrupts count as enabled
  exactly if some file asks for anything, and no two open files share a structure.
\<close>

theorem btn_lines_follow:
  assumes "btn_reach d s"
  shows "(\<forall>i < g_btnnum (the_low s). int_enabled (exti_lines (hw s) (btn_pin s i)) \<longleftrightarrow>
            i \<in> press_set (bu_open (the_upper s)) \<union> release_set (bu_open (the_upper s))) \<and>
     (\<forall>q < 16. int_enabled (exti_lines (hw s) q) \<longrightarrow> (\<exists>i < g_btnnum (the_low s). q = btn_pin s i) \<and>
        g_gpio_callbacks s ! q = \<lparr>callback = Some btnl_interrupt_p, cbarg = None\<rparr> \<and>
        g_btnhandler (the_low s) = Some btn_interrupt_p) \<and>
     (bu_enabled (the_upper s) \<longleftrightarrow>
        press_set (bu_open (the_upper s)) \<union> release_set (bu_open (the_upper s)) \<noteq> {}) \<and>
     distinct (map fst (bu_open (the_upper s)))"
proof -
  have inv: "btn_lower.binv Map.empty s" using assms by (rule btn_reach_inv)
  then have rd: "btn_ready Map.empty s" by (simp add: btn_lower.binv_def)
  have lines: "int_enabled (exti_lines (hw s) q) \<longleftrightarrow> callback (g_gpio_callbacks s ! q) \<noteq> None" if "q < 16" for q
    using rd that by (simp add: btn_ready_def exti_inv_def)
  have "btn_armed s = want (bu_open (the_upper s)) \<inter> {i. i < g_btnnum (the_low s)}"
    using inv by (simp add: btn_lower.binv_def btn_lower.sup_def supported_bits [OF rd])
  then have "i \<in> btn_armed s \<longleftrightarrow> i \<in> want (bu_open (the_upper s))" if "i < g_btnnum (the_low s)" for i
    using that by blast
  moreover have "q \<in> btn_pin s ` {..<g_btnnum (the_low s)}" if "q < 16" "int_enabled (exti_lines (hw s) q)" for q
    using rd that lines by (simp add: btn_ready_def btn_lines_def)
  moreover have "g_gpio_callbacks s ! q = \<lparr>callback = Some btnl_interrupt_p, cbarg = None\<rparr>" "g_btnhandler (the_low s) = Some btn_interrupt_p"
    if "q < 16" "int_enabled (exti_lines (hw s) q)" for q
    using btn_readyD(2,3) [OF rd that(1)] that lines by simp_all
  moreover have "i \<in> btn_armed s \<longleftrightarrow> int_enabled (exti_lines (hw s) (btn_pin s i))" if "i < g_btnnum (the_low s)" for i
    using that lines [of "btn_pin s i"] by (simp add: btn_armed_def)
  ultimately show ?thesis
    using inv by (simp add: btn_lower.binv_def want_def) blast
qed

text \<open>
  C3. From the button to the task: in every state the driver can get into without debouncing,
  if the line of a button is pending, the button reads high and did not at the last sample, and
  an open file has registered for its press, then dispatching the interrupt does not panic, acknowledges
  the line, and signals the task of that file with the present state of all buttons.
\<close>

theorem btn_press_delivered:
  assumes "btn_reach False s" "i < g_btnnum (the_low s)" "bit (getreg32 STM32_EXTI_CPUPR1 (hw s)) (btn_pin s i)"
    "(a, p) \<in> set (bu_open (the_upper s))" "bit (bn_press (bo_notify p)) i"
    "bit (btn_buttons s) i" "\<not> bit (bu_sample (the_upper s)) i"
  shows "\<exists>s'. irq_dispatch (btnl_interrupt False) (exti_irq (btn_pin s i)) c s = Some s' \<and>
     ack (btn_pin s i) \<in> set (wlog (hw s')) \<and>
     (bo_pid p, (bn_event (bo_notify p))\<lparr>sival_int := btn_buttons s\<rparr>) \<in> set (b_siglog (env s')) \<and>
     bu_sample (the_upper s') = btn_buttons s"
proof -
  have inv: "btn_lower.binv Map.empty s" using assms(1) by (rule btn_reach_inv)
  then have rd: "btn_ready Map.empty s" by (simp add: btn_lower.binv_def)
  have "i \<in> want (bu_open (the_upper s))"
    using assms(4,5) by (force simp: want_def press_set_def)
  then have "i \<in> btn_armed s"
    using inv assms(2) by (simp add: btn_lower.binv_def btn_lower.sup_def supported_bits [OF rd])
  then have cb: "callback (g_gpio_callbacks s ! btn_pin s i) \<noteq> None" by (simp add: btn_armed_def)
  have sv: "btn_pin s i \<in> set (exti_served (getreg32 STM32_EXTI_CPUPR1 (hw s)) (btn_pin s i))"
    using assms(3) by (intro served_self) simp_all
  obtain s' where s': "irq_dispatch (btnl_interrupt False) (exti_irq (btn_pin s i)) c s = Some s'"
    "env s' = env (btn_sample g_btnlower s)" "ack (btn_pin s i) \<in> set (wlog (hw s'))"
  proof -
    let ?served = "exti_served (getreg32 STM32_EXTI_CPUPR1 (hw s)) (btn_pin s i)"
    have hit: "\<exists>q \<in> set ?served. callback (g_gpio_callbacks s ! q) \<noteq> None" using cb sv by blast
    obtain s' where "irq_dispatch (btnl_interrupt False) (exti_irq (btn_pin s i)) c s = Some s'"
      "env s' = env (btn_sample g_btnlower s)" "wlog (hw s') = rev (map ack ?served) @ wlog (hw s)"
      using btn_dispatch [OF inv btn_pin_less cb, of False c]
      unfolding if_P [OF hit] btn_interrupt_def if_False by (elim exE conjE) (rule that)
    then show thesis using sv by (intro that [of s']) simp_all
  qed
  obtain press release sample where ch: "changes g_btnlower s = (press, release, sample)" by (rule prod_cases3)
  have b: "bit press i" "sample = btn_buttons s" using changes_bits [OF ch] assms(6,7) by simp_all
  then have "hits press release (bn_press (bo_notify p)) (bn_release (bo_notify p))"
    using assms(5) by (auto simp: hits_def)
  then have "(bo_pid p, (bn_event (bo_notify p))\<lparr>sival_int := sample\<rparr>) \<in> set (told press release sample (bu_open (the_upper s)))"
    using assms(4) by (force simp: told_def)
  moreover have "bu_sample (upper (env s')) = sample" "b_siglog (env s') = b_siglog (env (btn_sample g_btnlower s))"
    using s'(2) by (simp_all add: btn_sample_eq [OF ch] set_client_def)
  ultimately show ?thesis using s' b(2) by (auto simp: the_upper_def btn_sample_eq [OF ch] set_client_def)
qed

lemma open_arms:
  fixes s :: "'e bstate"
  assumes "btn_ready K s"
  shows "\<exists>p s1. btn_open g_btnlower n zero (Some a) filep s = (OK, filep\<lparr>bf_priv := a\<rparr>, s1) \<and>
    btn_ready K s1 \<and> btn_lower.sup s1 = btn_lower.sup s \<and> btn_armed s1 = {..<g_btnnum (the_low s)} \<and>
    bu_open (the_upper s1) = (a, p) # bu_open (the_upper s)"
proof -
  define p where "p = (zero_open n zero)
    \<lparr>bo_pollevents := \<lparr>bp_press = btn_supported s, bp_release = btn_supported s\<rparr>, bo_pending := True\<rparr>"
  let ?t = "upd_upper (\<lambda>u. u\<lparr>bu_open := (a, p) # bu_open u\<rparr>) s"
  define s1 where "s1 = btn_enable g_btnlower ?t"
  have "btn_open g_btnlower n zero (Some a) filep s = (OK, filep\<lparr>bf_priv := a\<rparr>, s1)"
    by (simp add: btn_open_def Let_def p_def s1_def)
  moreover have en: "btn_ready K s1" "btn_lower.sup s1 = btn_lower.sup s" "btn_armed s1 = want ((a, p) # bu_open (the_upper s)) \<inter> btn_lower.sup s"
    using btn_lower.btn_enable_armed [of K ?t] assms by (simp_all add: s1_def btn_lower.client_all)
  moreover have "btn_lower.sup s = {..<g_btnnum (the_low s)}"
    by (auto simp: btn_lower.sup_def supported_bits [OF assms])
  moreover have "{..<g_btnnum (the_low s)} \<subseteq> want ((a, p) # bu_open (the_upper s))"
    using supported_bits [OF assms] by (auto simp: want_def press_set_def p_def)
  moreover have "bu_open (the_upper s1) = (a, p) # bu_open (the_upper s)" by (simp add: s1_def btn_lower.btn_enable_rest)
  ultimately show ?thesis by (intro exI [of _ p] exI [of _ s1]) blast
qed

text \<open>
  C31. Opening and closing: opening at a free address succeeds, arms the lines of all buttons, and
  closing that file leaves the other open files and the lines as they were; closing it once more is refused.
\<close>

theorem btn_open_close:
  assumes "btn_reach d s" "a \<notin> fst ` set (bu_open (the_upper s))"
  shows "\<exists>filep' s1 s2. btn_open g_btnlower n zero (Some a) filep s = (OK, filep', s1) \<and>
     btn_armed s1 = {..<g_btnnum (the_low s)} \<and>
     btn_close d g_btnlower filep' s1 = (OK, s2) \<and>
     bu_open (the_upper s2) = bu_open (the_upper s) \<and> btn_armed s2 = btn_armed s \<and>
     fst (btn_close d g_btnlower filep' s2) = - ENOENT"
proof -
  have inv: "btn_lower.binv Map.empty s" using assms(1) by (rule btn_reach_inv)
  then have rd: "btn_ready Map.empty s" and dist: "distinct (map fst (bu_open (the_upper s)))" by (simp_all add: btn_lower.binv_def)
  let ?filep = "filep\<lparr>bf_priv := a\<rparr>"
  obtain p s1 where op: "btn_open g_btnlower n zero (Some a) filep s = (OK, ?filep, s1)" "btn_ready Map.empty s1"
    "btn_lower.sup s1 = btn_lower.sup s" "btn_armed s1 = {..<g_btnnum (the_low s)}"
    "bu_open (the_upper s1) = (a, p) # bu_open (the_upper s)"
    using open_arms [OF rd, of n zero a filep] by blast
  define t2 where "t2 = (if d then upd_upper (\<lambda>u. u\<lparr>bu_wdog := False\<rparr>) s1 else s1)"
  define s2 where "s2 = btn_enable g_btnlower (upd_upper (\<lambda>u. u\<lparr>bu_open := bu_open (the_upper s)\<rparr>) t2)"
  have t2: "bu_open (the_upper t2) = (a, p) # bu_open (the_upper s)" "btn_ready Map.empty t2" "btn_lower.sup t2 = btn_lower.sup s"
    using op by (simp_all add: t2_def btn_lower.client_all)
  have cl: "btn_close d g_btnlower ?filep s1 = (OK, s2)"
    using t2(1) by (simp add: btn_close_def t2_def [symmetric] s2_def Let_def)
  have os2: "bu_open (the_upper s2) = bu_open (the_upper s)" by (simp add: s2_def btn_lower.btn_enable_rest)
  have "btn_armed s2 = want (bu_open (the_upper s)) \<inter> btn_lower.sup s"
    using btn_lower.btn_enable_armed(3) [of Map.empty "upd_upper (\<lambda>u. u\<lparr>bu_open := bu_open (the_upper s)\<rparr>) t2"] t2
    by (simp add: s2_def btn_lower.client_all)
  then have "btn_armed s2 = btn_armed s" using inv by (simp add: btn_lower.binv_def)
  moreover have "fst (btn_close d g_btnlower ?filep s2) = - ENOENT"
    using os2 assms(2) dist by (auto simp: btn_close_def Let_def unlink_eq split: option.split)
  ultimately show ?thesis using op cl os2 by blast
qed

subsection \<open>A run of the driver\<close>

text \<open>
  Three buttons, on the lines 13, 0 and 14: start-up, all inputs low, task 7 opens the device and
  registers for the press of the first button, then that button goes high.
\<close>

definition bstart :: "nat bstate" where
  "bstart =
     \<lparr>hw = bus0, g_gpio_callbacks = replicate 16 \<lparr>callback = None, cbarg = None\<rparr>,
      g_irqvector = replicate 166 \<lparr>handler = Some irq_unexpected_isr, vecarg = None\<rparr>,
      env = \<lparr>upper = \<lparr>bu_sample = 0, bu_enabled = False, bu_open = [], bu_wdog = False\<rparr>,
             b_pw = \<lparr>pollfds = (\<lambda>_. \<lparr>events = 0, revents = 0, cb = False, priv = None\<rparr>), cblog = []\<rparr>,
             b_siglog = [], b_nodes = [],
             low = \<lparr>board = demo_buttons, g_btnnum = 0, g_btnhandler = None\<rparr>\<rparr>\<rparr>"

definition with_inputs :: "u32 \<Rightarrow> u32 \<Rightarrow> bus \<Rightarrow> bus" where
  "with_inputs idr pend h =
     h\<lparr>regs := (regs h)(g_gpiobase ! 2 + STM32_GPIO_IDR_OFFSET := idr, STM32_EXTI_CPUPR1 := pend)\<rparr>"

definition brun0 :: "nat bstate" where
  "brun0 = (let s = snd (the (btn_lower_initialize demo_cfg None (\<lambda>path ns. 0) (Some 1) ''/dev/buttons'' bstart))
            in on_hw (\<lambda>_. with_inputs 0 0 (hw s)) s)"

definition brun1 :: "nat bstate" where
  "brun1 = snd (snd (btn_open g_btnlower 2 0 (Some 2) \<lparr>bf_priv = 0\<rparr> brun0))"

definition demo_notify :: "nat btn_notify_s" where
  "demo_notify = \<lparr>bn_press = 1, bn_release = 0, bn_event = \<lparr>sival_int = 0, sigev_rest = 5\<rparr>\<rparr>"

definition brun2 :: "nat bstate" where
  "brun2 = snd (snd (the (btn_ioctl g_btnlower 7 \<lparr>bf_priv = 2\<rparr> (BTNIOC_REGISTER (Some demo_notify)) brun1)))"

definition brun3 :: "nat bstate" where
  "brun3 = on_hw (\<lambda>_. with_inputs 0x2000 0x2000 (hw brun2)) brun2"

lemma bstart_boot: "btn_boot demo_cfg bstart"
proof -
  have "\<not> int_enabled (exti_lines (hw bstart) p) \<and> \<not> nvic_enabled (exti_irq p) (wlog (hw bstart))" for p
    by (simp add: bstart_def bus0_def exti_lines_def exti_regs getreg32_def)
  then show ?thesis
    by (simp add: btn_boot_def exti_start_def list_all_iff)
      (simp add: bstart_def irq_numbers the_low_def demo_buttons_def demo_cfg_def)
qed

lemma demo_good: "good_config demo_cfg"
  by (simp add: good_config_def demo_spec pin_word_parts btn.flags_ok)

lemma with_inputs_lines: "exti_lines (with_inputs i p h) = exti_lines h" "wlog (with_inputs i p h) = wlog h"
proof -
  have "unat (g_gpiobase ! 2 + STM32_GPIO_IDR_OFFSET) = 0x58020000 + 0x400 * 2 + unat STM32_GPIO_IDR_OFFSET"
    using gpio_reg_unat [of 2 STM32_GPIO_IDR_OFFSET] by (simp add: STM32_GPIO_IDR_OFFSET_def)
  then have "g_gpiobase ! 2 + STM32_GPIO_IDR_OFFSET \<notin> {STM32_EXTI_RTSR1, STM32_EXTI_FTSR1, STM32_EXTI_CPUIMR1, STM32_EXTI_CPUEMR1}"
    by (auto simp: exti_regs STM32_GPIO_IDR_OFFSET_def)
  then show "exti_lines (with_inputs i p h) = exti_lines h" "wlog (with_inputs i p h) = wlog h"
    by (auto simp: with_inputs_def exti_lines_def getreg32_def fun_eq_iff)
qed

lemma brun0_facts:
  "btn_reach d brun0" "bu_open (the_upper brun0) = []" "\<not> bu_enabled (the_upper brun0)"
  "g_btnnum (the_low brun0) = 3" "g_buttons (board (the_low brun0)) = map (\<lambda>(p, n). pin_word BTN_FLAGS p n) [(2, 13), (0, 0), (6, 14)]"
  "g_button_count (board (the_low brun0)) = 3"
proof -
  let ?ws = "[pin_word BTN_FLAGS 2 13, pin_word BTN_FLAGS 0 0, pin_word BTN_FLAGS 6 14]"
  let ?h = "fold (\<lambda>c h. snd (stm32_configgpio c h)) ?ws (hw bstart)"
  have n: "cfg_count demo_cfg = 3" by (simp add: demo_cfg_def)
  obtain b where b: "board_button_initialize demo_cfg None (board (the_low bstart)) (hw bstart) = Some (3, b, ?h)"
    "g_buttons b = ?ws" "g_button_count b = 3"
    using board_button_initialize_eq [of "board (the_low bstart)" demo_cfg None "hw bstart"] bstart_boot n
    by (auto simp: demo_spec btn_boot_def simp del: fold.simps)
  define t where "t = upd_low (\<lambda>l. l\<lparr>board := b, g_btnnum := 3\<rparr>) (on_hw (\<lambda>_. ?h) bstart)"
  define r where "r = btn_register (\<lambda>path ns. 0) (Some 1) ''/dev/buttons'' g_btnlower t"
  have init: "btn_lower_initialize demo_cfg None (\<lambda>path ns. 0) (Some 1) ''/dev/buttons'' bstart = Some (fst r, snd r)"
    using b(1) by (simp add: btn_lower_initialize_def r_def t_def del: fold.simps)
  then have eq: "brun0 = on_hw (\<lambda>_. with_inputs 0 0 (hw (snd r))) (snd r)" by (simp add: brun0_def Let_def)
  have "btn_reach d (snd r)" by (rule btn_reach.init [OF bstart_boot demo_good init])
  then show "btn_reach d brun0" unfolding eq by (rule btn_reach.inputs) (simp_all add: with_inputs_lines)
  let ?e = "btnl_enable 0 0 None (upd_upper (\<lambda>u. \<lparr>bu_sample = 0, bu_enabled = False, bu_open = [], bu_wdog = False\<rparr>) t)"
  have up: "the_upper (snd r) = the_upper ?e" "low (env (snd r)) = low (env ?e)"
    by (simp_all add: r_def btn_register_def Let_def split_beta the_upper_def)
  have "the_upper ?e = \<lparr>bu_sample = 0, bu_enabled = False, bu_open = [], bu_wdog = False\<rparr>"
    using btn_lower.enable_keeps(1) [of 0 0 None "upd_upper (\<lambda>u. \<lparr>bu_sample = 0, bu_enabled = False, bu_open = [], bu_wdog = False\<rparr>) t"] by simp
  then show "bu_open (the_upper brun0) = []" "\<not> bu_enabled (the_upper brun0)"
    using up(1) by (simp_all add: eq the_upper_def)
  have "low (env ?e) = low_handler None (the_low t)" by (simp add: btnl_enable_low the_low_def)
  then have "the_low brun0 = low_handler None (the_low t)" using up(2) by (simp add: eq the_low_def)
  then show "g_btnnum (the_low brun0) = 3" "g_button_count (board (the_low brun0)) = 3"
    "g_buttons (board (the_low brun0)) = map (\<lambda>(p, n). pin_word BTN_FLAGS p n) [(2, 13), (0, 0), (6, 14)]"
    using b(2,3) by (simp_all add: low_handler_def t_def)
qed


lemma btn_enable_low [simp]:
  "g_btnnum (the_low (btn_enable g_btnlower s)) = g_btnnum (the_low s)"
  "board (the_low (btn_enable g_btnlower s)) = board (the_low s)"
  "the_low (upd_upper f s) = the_low s" "the_low (upd_open a k s) = the_low s"
  by (simp_all add: btn_enable_def split_beta Let_def the_low_def upd_open_def del: btnl_enable_pin)
    (simp_all add: btnl_enable_low low_handler_def the_low_def)

definition demo_open :: "nat btn_open_s" where
  "demo_open = (zero_open 2 0)\<lparr>bo_pollevents := \<lparr>bp_press = 7, bp_release = 7\<rparr>, bo_pending := True\<rparr>"

lemma read_first: "bit (board_buttons (board (the_low brun0)) (with_inputs i p h)) 0 \<longleftrightarrow> bit i 13"
proof -
  have r: "stm32_gpioread (pin_word BTN_FLAGS 2 13) (with_inputs i p h) \<longleftrightarrow> bit i 13"
  proof -
    have "g_gpiobase ! 2 + STM32_GPIO_IDR_OFFSET \<noteq> STM32_EXTI_CPUPR1"
      by (simp add: g_gpiobase_def STM32_GPIO_IDR_OFFSET_def exti_regs)
    then show ?thesis by (simp add: gpioread_iff pin_word_parts btn.flags_ok with_inputs_def getreg32_def)
  qed
  show ?thesis by (simp add: board_buttons_def brun0_facts buttons_loop_bit r del: buttons_loop.simps)
qed

lemma brun1_facts:
  "btn_reach d brun1" "bu_open (the_upper brun1) = [(2, demo_open)]" "bu_enabled (the_upper brun1)"
  "\<not> bit (bu_sample (the_upper brun1)) 0"
  "g_btnnum (the_low brun1) = 3" "board (the_low brun1) = board (the_low brun0)"
proof -
  let ?t = "upd_upper (\<lambda>u. u\<lparr>bu_open := [(2, demo_open)]\<rparr>) brun0"
  have "btn_supported brun0 = 7" by (simp add: btn_supported_def brun0_facts)
  then have op: "btn_open g_btnlower 2 0 (Some 2) \<lparr>bf_priv = 0\<rparr> brun0 = (OK, \<lparr>bf_priv = 2\<rparr>, btn_enable g_btnlower ?t)"
    by (simp add: btn_open_def Let_def demo_open_def brun0_facts upd_upper_def the_upper_def [symmetric])
  then have eq: "brun1 = btn_enable g_btnlower ?t" by (simp add: brun1_def)
  show "btn_reach d brun1"
    unfolding eq by (rule btn_reach.op [OF brun0_facts(1) btn_op.opened [OF _ op]]) (simp add: brun0_facts)
  show "bu_open (the_upper brun1) = [(2, demo_open)]" by (simp add: eq btn_lower.btn_enable_rest)
  have "0 \<in> want [(2 :: nat, demo_open)]"
    by (simp add: want_def press_set_def demo_open_def)
  then have w: "want [(2 :: nat, demo_open)] \<noteq> {}" by auto
  show "bu_enabled (the_upper brun1)" unfolding eq btn_lower.btn_enable_upper using w by (simp add: Let_def)
  have "bu_sample (the_upper brun1) = btn_buttons ?t"
    unfolding eq btn_lower.btn_enable_upper using w brun0_facts(3) by (simp add: Let_def)
  moreover obtain h where "hw ?t = with_inputs 0 0 h" by (simp add: brun0_def Let_def)
  ultimately show "\<not> bit (bu_sample (the_upper brun1)) 0" by (simp add: btn_buttons_def read_first)
  show "g_btnnum (the_low brun1) = 3" "board (the_low brun1) = board (the_low brun0)"
    by (simp_all add: eq brun0_facts)
qed

lemma brun2_facts:
  "btn_reach d brun2" "bu_open (the_upper brun2) = [(2, demo_open\<lparr>bo_notify := demo_notify, bo_pid := 7\<rparr>)]"
  "\<not> bit (bu_sample (the_upper brun2)) 0"
  "g_btnnum (the_low brun2) = 3" "board (the_low brun2) = board (the_low brun0)"
proof -
  let ?t = "upd_open 2 (\<lambda>p. p\<lparr>bo_notify := demo_notify, bo_pid := 7\<rparr>) brun1"
  have io: "btn_ioctl g_btnlower 7 \<lparr>bf_priv = 2\<rparr> (BTNIOC_REGISTER (Some demo_notify)) brun1 =
      Some (OK, None, btn_enable g_btnlower ?t)"
    by (simp add: btn_ioctl_def open_at_def brun1_facts)
  then have eq: "brun2 = btn_enable g_btnlower ?t" by (simp add: brun2_def)
  show "btn_reach d brun2" unfolding eq by (rule btn_reach.op [OF brun1_facts(1) btn_op.ioctl [OF io]])
  show "bu_open (the_upper brun2) = [(2, demo_open\<lparr>bo_notify := demo_notify, bo_pid := 7\<rparr>)]"
    by (simp add: eq btn_lower.btn_enable_rest upd_open_def brun1_facts)
  have "bu_sample (the_upper ?t) = bu_sample (the_upper brun1)" by (simp add: upd_open_def)
  then show "\<not> bit (bu_sample (the_upper brun2)) 0"
    unfolding eq btn_lower.btn_enable_upper by (simp add: brun1_facts Let_def)
  show "g_btnnum (the_low brun2) = 3" "board (the_low brun2) = board (the_low brun0)"
    by (simp_all add: eq brun1_facts)
qed

lemma brun3_reach: "btn_reach d brun3"
  unfolding brun3_def by (rule btn_reach.inputs [OF brun2_facts(1)]) (simp_all add: with_inputs_lines)

lemma brun_pin: "btn_pin brun0 0 = 13" "btn_pin brun2 0 = 13" "btn_pin brun3 0 = 13" "btn_pin brun0 1 = 0"
  by (simp_all add: btn_pin_def brun0_facts brun2_facts brun3_def pin_word_parts btn.flags_ok)

theorem btn_lines_follow_witness:
  "int_enabled (exti_lines (hw brun2) 13) \<and> \<not> int_enabled (exti_lines (hw brun0) 13) \<and>
   callback (g_gpio_callbacks brun2 ! 13) = Some btnl_interrupt_p"
proof -
  have "0 \<in> press_set (bu_open (the_upper brun2))"
    by (simp add: brun2_facts press_set_def demo_notify_def)
  moreover have "press_set (bu_open (the_upper brun0)) = {}" "release_set (bu_open (the_upper brun0)) = {}"
    by (simp_all add: brun0_facts press_set_def release_set_def)
  ultimately have "int_enabled (exti_lines (hw brun2) 13)" "\<not> int_enabled (exti_lines (hw brun0) 13)"
    using btn_lines_follow [OF brun2_facts(1), THEN conjunct1, rule_format, of 0]
      btn_lines_follow [OF brun0_facts(1), THEN conjunct1, rule_format, of 0]
    by (simp_all add: brun0_facts(4) brun2_facts(4) brun_pin)
  then show ?thesis
    using btn_lines_follow [OF brun2_facts(1), THEN conjunct2, THEN conjunct1, rule_format, of 13] by simp
qed

theorem btn_press_delivered_witness:
  "\<exists>s'. irq_dispatch (btnl_interrupt False) 56 None brun3 = Some s' \<and>
     7 \<in> fst ` set (b_siglog (env s')) \<and> bit (bu_sample (the_upper s')) 0"
proof -
  let ?p = "demo_open\<lparr>bo_notify := demo_notify, bo_pid := 7\<rparr>"
  have irq: "exti_irq 13 = 56" by (simp add: exti_irq_def exti_group_def irq_numbers)
  have "bit (0x2000 :: u32) 13" by simp
  then have pend: "bit (getreg32 STM32_EXTI_CPUPR1 (hw brun3)) (btn_pin brun3 0)"
    by (simp only: brun_pin) (simp add: brun3_def with_inputs_def getreg32_def)
  have up: "the_upper brun3 = the_upper brun2" "the_low brun3 = the_low brun2"
    by (simp_all add: brun3_def the_upper_def)
  have now: "bit (btn_buttons brun3) 0"
    using read_first [of "0x2000"] by (simp add: btn_buttons_def up brun2_facts) (simp add: brun3_def)
  have "(2, ?p) \<in> set (bu_open (the_upper brun3))" "bit (bn_press (bo_notify ?p)) 0"
    "\<not> bit (bu_sample (the_upper brun3)) 0" "0 < g_btnnum (the_low brun3)"
    by (simp_all add: up brun2_facts demo_notify_def)
  from btn_press_delivered [OF brun3_reach this(4) pend this(1,2) now this(3), of None]
  show ?thesis using now by (force simp: brun_pin irq)
qed

theorem btn_open_close_witness:
  "\<exists>filep s1 s2. btn_open g_btnlower 2 0 (Some 9) \<lparr>bf_priv = 0\<rparr> brun2 = (OK, filep, s1) \<and>
     btn_close True g_btnlower filep s1 = (OK, s2) \<and> btn_armed s1 = {..<3} \<and>
     bu_open (the_upper s2) = bu_open (the_upper brun2)"
  using btn_open_close [OF brun2_facts(1) [of True], of 9 2 0 "\<lparr>bf_priv = 0\<rparr>"] by (auto simp: brun2_facts)

theorem btn_sample_notifies_witness:
  "bu_sample (the_upper (btn_sample g_btnlower brun3)) = btn_buttons brun3 \<and>
   list_all (\<lambda>(a, p). bo_pending p) (bu_open (the_upper (btn_sample g_btnlower brun3)))"
  using btn_sample_notifies [of g_btnlower brun3] by (simp add: list_all_iff split_def)

end
