(* ===== verification/Board_Devices.thy ===== *)
theory Board_Devices
  imports Board_Spi Userled_Lower Board_Gpio Button_Lower
begin

text \<open>
  The board as a whole and the start-up code of its devices, the files \<^verbatim>\<open>stm32_adc.c\<close>,
  \<^verbatim>\<open>stm32_pwm.c\<close>, \<^verbatim>\<open>stm32_usb.c\<close>, \<^verbatim>\<open>stm32_mmcsd.c\<close>, \<^verbatim>\<open>stm32_lsm6dsl.c\<close>, \<^verbatim>\<open>stm32_lsm9ds1.c\<close>,
  \<^verbatim>\<open>stm32_lsm303agr.c\<close>, \<^verbatim>\<open>stm32_pca9635.c\<close>, \<^verbatim>\<open>stm32_nrf24l01.c\<close>, \<^verbatim>\<open>stm32_romfs_initialize.c\<close> and
  \<^verbatim>\<open>stm32_progmem.c\<close> of \<^verbatim>\<open>boards/arm/stm32h7/nucleo-h753zi/src\<close>.

  The state of the board has one set of registers and interrupt tables, and next to it the data
  of the drivers that are modelled; \<open>as_led\<close>, \<open>as_btn\<close> and \<open>as_gpio\<close> are the states as these
  drivers see them, \<open>of_led\<close>, \<open>of_btn\<close> and \<open>of_gpio\<close> put them back, and \<open>via_led\<close>, \<open>via_btn\<close> and
  \<open>via_gpio\<close> run an operation on the state of the board. The functions of the
  other drivers are the parameter \<open>ext\<close>: what such a function returns, and what it does to the
  board. Pointers they return are numbers, with 0 for NULL.
\<close>

definition EIO :: int where "EIO = 5"
definition ENOEXEC :: int where "ENOEXEC = 8"

subsection \<open>The state of the board\<close>

record 'e board_env =
  gpio_part :: "'e genv"
  btn_part :: "('e, btn_low) btn_env"
  led_part :: userled_upperhalf_s
  led_count :: u32
  spi_part :: "spi_bus list"
  adc_initialized :: bool
  pwm_initialized :: bool
  g_progmem_mtd :: int
  g_usbconn :: int
  nodes :: "(string \<times> nat) list"

type_synonym 'e board = "(board_isr, nat, 'e board_env) irq_state"

definition as_led :: "'e board \<Rightarrow> uled_state" where
  "as_led s = \<lparr>ledhw = \<lparr>g_lednum = led_count (env s), led_bus = hw s\<rparr>, ldev = led_part (env s), led_nodes = nodes (env s)\<rparr>"

definition of_led :: "'e board \<Rightarrow> uled_state \<Rightarrow> 'e board" where
  "of_led s t =
     s\<lparr>hw := led_bus (ledhw t),
       env := (env s)\<lparr>led_part := ldev t, led_count := g_lednum (ledhw t), nodes := led_nodes t\<rparr>\<rparr>"

definition via_led :: "(uled_state \<Rightarrow> int \<times> uled_state) \<Rightarrow> 'e board \<Rightarrow> int \<times> 'e board" where
  "via_led f s = (let (ret, t) = f (as_led s) in (ret, of_led s t))"

definition as_btn :: "'e board \<Rightarrow> 'e bstate" where
  "as_btn s =
     \<lparr>hw = hw s, g_gpio_callbacks = g_gpio_callbacks s, g_irqvector = g_irqvector s,
      env = (btn_part (env s))\<lparr>b_nodes := nodes (env s)\<rparr>\<rparr>"

definition of_btn :: "'e board \<Rightarrow> 'e bstate \<Rightarrow> 'e board" where
  "of_btn s t =
     \<lparr>hw = hw t, g_gpio_callbacks = g_gpio_callbacks t, g_irqvector = g_irqvector t,
      env = (env s)\<lparr>btn_part := env t, nodes := b_nodes (env t)\<rparr>\<rparr>"

definition via_btn :: "('e bstate \<Rightarrow> (int \<times> 'e bstate) option) \<Rightarrow> 'e board \<Rightarrow> (int \<times> 'e board) option" where
  "via_btn f s = map_option (\<lambda>(ret, t). (ret, of_btn s t)) (f (as_btn s))"

definition as_gpio :: "'e board \<Rightarrow> 'e gstate" where
  "as_gpio s =
     \<lparr>hw = hw s, g_gpio_callbacks = g_gpio_callbacks s, g_irqvector = g_irqvector s,
      env = (gpio_part (env s))\<lparr>inodes := nodes (env s)\<rparr>\<rparr>"

definition of_gpio :: "'e board \<Rightarrow> 'e gstate \<Rightarrow> 'e board" where
  "of_gpio s t =
     \<lparr>hw = hw t, g_gpio_callbacks = g_gpio_callbacks t, g_irqvector = g_irqvector t,
      env = (env s)\<lparr>gpio_part := env t, nodes := inodes (env t)\<rparr>\<rparr>"

definition via_gpio :: "('e gstate \<Rightarrow> (int \<times> 'e gstate) option) \<Rightarrow> 'e board \<Rightarrow> (int \<times> 'e board) option" where
  "via_gpio f s = map_option (\<lambda>(ret, t). (ret, of_gpio s t)) (f (as_gpio s))"

definition via_spi ::
  "(spi_bus list \<Rightarrow> bus \<Rightarrow> (int \<times> spi_bus list \<times> bus) option) \<Rightarrow> 'e board \<Rightarrow> (int \<times> 'e board) option" where
  "via_spi f s =
     map_option (\<lambda>(ret, bs, h). (ret, s\<lparr>hw := h, env := (env s)\<lparr>spi_part := bs\<rparr>\<rparr>)) (f (spi_part (env s)) (hw s))"

subsection \<open>The functions of other drivers\<close>

datatype (plugins only: code size) ext_call =
  nx_mount "string option" string string
| romdisk_register nat
| stm32_rtc_lowerhalf
| rtc_initialize nat int
| usbhost_hub_initialize
| usbhost_msc_initialize
| usbhost_cdcacm_initialize
| usbhost_kbdinit
| usbhost_mouse_init
| stm32_otgfshost_initialize nat
| kthread_create string nat nat
| usbmonitor_start
| cdcacm_initialize nat
| usbdev_rndis_initialize "u32 list"
| stm32_i2cbus_initialize nat
| stm32_i2cbus_uninitialize int
| i2c_register int nat
| pca9635pw_register string int nat
| stm32_spibus_initialize nat
| spi_register nat
| nrf24l01_register int
| stm32h7_adc_initialize nat "nat list"
| adc_register string int
| lsm6dsl_sensor_register string int nat
| lsm9ds1mag_register string int nat
| lsm9ds1gyro_register string int nat
| lsm9ds1accel_register string int nat
| lsm303agr_sensor_register string int nat
| mmcsd_spislotinitialize nat nat int
| progmem_initialize
| up_progmem_pagesize nat
| up_progmem_getaddress nat
| up_progmem_getpage u32
| mtd_partition int int u32
| register_mtddriver string int
| stm32_pwminitialize nat
| pwm_register string int
| stm32_cap_initialize nat
| cap_register_multiple string "int list"
| stm32_iwdginitialize string nat

type_synonym 'e ext_fns = "ext_call \<Rightarrow> 'e board \<Rightarrow> int \<times> 'e board"

definition on_pins :: "u32 list \<Rightarrow> 'e board \<Rightarrow> 'e board" where
  "on_pins cs = on_hw (fold (\<lambda>c h. snd (stm32_configgpio c h)) cs)"

subsection \<open>Analog converters\<close>

definition adc_pin :: "nat \<Rightarrow> nat \<Rightarrow> u32" where
  "adc_pin port pin = GPIO_ANALOG OR GPIO_PORT port OR GPIO_PIN pin"

definition g_adc1_chanlist :: "nat list" where "g_adc1_chanlist = [5, 10, 15, 18, 19, 7, 12]"
definition g_adc1_pinlist :: "u32 list" where
  "g_adc1_pinlist = [adc_pin 1 1, adc_pin 2 0, adc_pin 0 3, adc_pin 0 4, adc_pin 0 5, adc_pin 0 7, adc_pin 2 2]"
definition g_adc2_chanlist :: "nat list" where "g_adc2_chanlist = [2, 3, 14, 4, 8]"
definition g_adc2_pinlist :: "u32 list" where
  "g_adc2_pinlist = [adc_pin 5 13, adc_pin 0 6, adc_pin 0 2, adc_pin 2 4, adc_pin 2 5]"
definition g_adc3_chanlist :: "nat list" where "g_adc3_chanlist = [11]"
definition g_adc3_pinlist :: "u32 list" where "g_adc3_pinlist = [adc_pin 2 1]"

text \<open>
  The blocks of the converters that are enabled, the first of them named by the digit \<open>n\<close>. The list
  passed to the driver is the part of the table that its length argument covers; with the second
  converter alone the file does not compile.
\<close>

fun adc_blocks :: "'e ext_fns \<Rightarrow> (nat \<times> nat list \<times> u32 list) list \<Rightarrow> nat \<Rightarrow> 'e board \<Rightarrow> int \<times> 'e board" where
  "adc_blocks ext [] n s = (OK, s)"
| "adc_blocks ext ((intf, chanlist, pinlist) # rest) n s =
     (let s = on_pins (filter (\<lambda>c. c \<noteq> 0) pinlist) s;
          (adc, s) = ext (stm32h7_adc_initialize intf chanlist) s
      in if adc = 0 then (- ENODEV, s)
         else let (ret, s) = ext (adc_register (''/dev/adc'' @ dec_str n) adc) s in
              if ret < 0 then (ret, s) else adc_blocks ext rest (Suc n) s)"

definition adc_table :: "bool \<Rightarrow> bool \<Rightarrow> bool \<Rightarrow> (nat \<times> nat list \<times> u32 list) list" where
  "adc_table adc1 adc2 adc3 =
     (if adc1 then [(1, g_adc1_chanlist, g_adc1_pinlist)] else []) @
     (if adc2 then [(2, g_adc2_chanlist, g_adc2_pinlist)] else []) @
     (if adc3 then [(3, g_adc3_chanlist, g_adc3_pinlist)] else [])"

text \<open>
  A build has the first or the third converter: with the second alone the source does not compile, and
  with none the function is left out.
\<close>

definition stm32_adc_setup :: "'e ext_fns \<Rightarrow> bool \<Rightarrow> bool \<Rightarrow> bool \<Rightarrow> 'e board \<Rightarrow> int \<times> 'e board" where
  "stm32_adc_setup ext adc1 adc2 adc3 s =
     (if adc_initialized (env s) then (OK, s)
      else let (ret, s) = adc_blocks ext (adc_table adc1 adc2 adc3) 0 s in
           if ret < 0 then (ret, s) else (OK, s\<lparr>env := (env s)\<lparr>adc_initialized := True\<rparr>\<rparr>))"

subsection \<open>Timers\<close>

definition stm32_pwm_setup :: "'e ext_fns \<Rightarrow> bool \<Rightarrow> 'e board \<Rightarrow> int \<times> 'e board" where
  "stm32_pwm_setup ext have_pwm s =
     (if \<not> have_pwm then (- ENODEV, s)
      else if pwm_initialized (env s) then (OK, s)
      else let (pwm, s) = ext (stm32_pwminitialize 1) s in
           if pwm = 0 then (- ENODEV, s)
           else let (ret, s) = ext (pwm_register ''/dev/pwm0'' pwm) s in
                if ret < 0 then (ret, s) else (OK, s\<lparr>env := (env s)\<lparr>pwm_initialized := True\<rparr>\<rparr>))"

fun cap_lowers :: "'e ext_fns \<Rightarrow> nat list \<Rightarrow> 'e board \<Rightarrow> int list \<times> 'e board" where
  "cap_lowers ext [] s = ([], s)"
| "cap_lowers ext (n # ns) s =
     (let (p, s) = ext (stm32_cap_initialize n) s; (ps, s) = cap_lowers ext ns s in (p # ps, s))"

definition nucleo_capture_initialize :: "'e ext_fns \<Rightarrow> (nat \<Rightarrow> bool) \<Rightarrow> 'e board \<Rightarrow> int \<times> 'e board" where
  "nucleo_capture_initialize ext tim_cap s =
     (let (lower, s) = cap_lowers ext (filter tim_cap [1, 2, 3, 4, 5, 8, 12, 13, 14, 15, 16, 17]) s in
      if lower = [] then (OK, s) else ext (cap_register_multiple ''/dev/cap'' lower) s)"

subsection \<open>USB\<close>

definition GPIO_OTGFS_VBUS :: u32 where
  "GPIO_OTGFS_VBUS = GPIO_INPUT OR GPIO_FLOAT OR GPIO_SPEED_100MHz OR GPIO_OPENDRAIN OR GPIO_PORT 0 OR GPIO_PIN 9"
definition GPIO_OTGFS_PWRON :: u32 where
  "GPIO_OTGFS_PWRON = GPIO_OUTPUT OR GPIO_FLOAT OR GPIO_SPEED_100MHz OR GPIO_PUSHPULL OR GPIO_PORT 6 OR GPIO_PIN 6"
definition GPIO_OTGFS_OVER :: "bool \<Rightarrow> u32" where
  "GPIO_OTGFS_OVER usbhost =
     (if usbhost then GPIO_INPUT OR GPIO_EXTI OR GPIO_FLOAT OR GPIO_SPEED_100MHz OR GPIO_PUSHPULL OR GPIO_PORT 6 OR GPIO_PIN 7
      else GPIO_INPUT OR GPIO_FLOAT OR GPIO_SPEED_100MHz OR GPIO_PUSHPULL OR GPIO_PORT 6 OR GPIO_PIN 7)"

definition stm32_usbinitialize :: "bool \<Rightarrow> 'e board \<Rightarrow> 'e board" where
  "stm32_usbinitialize usbhost s = on_pins [GPIO_OTGFS_VBUS, GPIO_OTGFS_PWRON, GPIO_OTGFS_OVER usbhost] s"

fun call_each :: "'e ext_fns \<Rightarrow> ext_call list \<Rightarrow> 'e board \<Rightarrow> 'e board" where
  "call_each ext [] s = s"
| "call_each ext (c # cs) s = call_each ext cs (snd (ext c s))"

text \<open>\<open>classes\<close> tells which device classes are enabled; what their initializers return is only logged.\<close>

definition stm32_usbhost_initialize :: "'e ext_fns \<Rightarrow> (ext_call \<Rightarrow> bool) \<Rightarrow> 'e board \<Rightarrow> int \<times> 'e board" where
  "stm32_usbhost_initialize ext classes s =
     (let s = call_each ext (filter classes [usbhost_hub_initialize, usbhost_msc_initialize, usbhost_cdcacm_initialize,
                usbhost_kbdinit, usbhost_mouse_init]) s;
          (conn, s) = ext (stm32_otgfshost_initialize 0) s;
          s = s\<lparr>env := (env s)\<lparr>g_usbconn := conn\<rparr>\<rparr>
      in if conn \<noteq> 0 then
           let (ret, s) = ext (kthread_create ''usbhost'' 100 2048) s in (if ret < 0 then - ENOEXEC else OK, s)
         else (- ENODEV, s))"

definition stm32_usbhost_vbusdrive :: "bool \<Rightarrow> 'e board \<Rightarrow> 'e board" where
  "stm32_usbhost_vbusdrive enable s = on_hw (stm32_gpiowrite GPIO_OTGFS_PWRON enable) s"

definition stm32_setup_overcurrent :: "board_isr option \<Rightarrow> nat option \<Rightarrow> 'e board \<Rightarrow> int \<times> 'e board" where
  "stm32_setup_overcurrent isr arg s = stm32_gpiosetevent (GPIO_OTGFS_OVER True) True True True isr arg s"

subsection \<open>Sensors, radio and LED controller\<close>

definition GPIO_LPS22HB_INT1 :: u32 where
  "GPIO_LPS22HB_INT1 = GPIO_INPUT OR GPIO_FLOAT OR GPIO_PORT 1 OR GPIO_PIN 10"

definition stm32_lsm6dsl_initialize :: "'e ext_fns \<Rightarrow> string \<Rightarrow> 'e board \<Rightarrow> int \<times> 'e board" where
  "stm32_lsm6dsl_initialize ext devpath s =
     (let s = on_pins [GPIO_LPS22HB_INT1] s; (i2c, s) = ext (stm32_i2cbus_initialize 1) s in
      if i2c = 0 then (- ENODEV, s)
      else let (ret, s) = ext (lsm6dsl_sensor_register devpath i2c 0x6b) s in
           if ret < 0 then (- ENODEV, s) else (ret, s))"

definition stm32_lsm9ds1_initialize :: "'e ext_fns \<Rightarrow> 'e board \<Rightarrow> int \<times> 'e board" where
  "stm32_lsm9ds1_initialize ext s =
     (let (i2c, s) = ext (stm32_i2cbus_initialize 1) s in
      if i2c = 0 then (- ENODEV, s)
      else let (ret, s) = ext (lsm9ds1mag_register ''/dev/lsm9ds1mag0'' i2c 0x1e) s in
      if ret < 0 then (- ENODEV, s)
      else let (ret, s) = ext (lsm9ds1gyro_register ''/dev/lsm9ds1gyr0'' i2c 0x6b) s in
      if ret < 0 then (- ENODEV, s)
      else let (ret, s) = ext (lsm9ds1accel_register ''/dev/lsm9ds1acc0'' i2c 0x6b) s in
      if ret < 0 then (- ENODEV, s) else (ret, s))"

definition stm32_lsm303agr_initialize :: "'e ext_fns \<Rightarrow> string \<Rightarrow> 'e board \<Rightarrow> int \<times> 'e board" where
  "stm32_lsm303agr_initialize ext devpath s =
     (let (i2c, s) = ext (stm32_i2cbus_initialize 1) s in
      if i2c = 0 then (- ENODEV, s)
      else let (ret, s) = ext (lsm303agr_sensor_register ''/dev/lsm303agr0'' i2c 0x1e) s in
           if ret < 0 then (- ENODEV, s) else (ret, s))"

definition stm32_pca9635_initialize :: "'e ext_fns \<Rightarrow> 'e board \<Rightarrow> int \<times> 'e board" where
  "stm32_pca9635_initialize ext s =
     (let (i2c, s) = ext (stm32_i2cbus_initialize 1) s in
      if i2c = 0 then (- 1, s)
      else let (ret, s) = ext (pca9635pw_register ''/dev/leddrv0'' i2c 0x40) s in
           if ret < 0 then (ret, s) else (OK, s))"

definition GPIO_NRF24L01_CE :: u32 where
  "GPIO_NRF24L01_CE = GPIO_OUTPUT OR GPIO_SPEED_50MHz OR GPIO_OUTPUT_CLEAR OR GPIO_PORT 5 OR GPIO_PIN 12"
definition GPIO_NRF24L01_IRQ :: u32 where
  "GPIO_NRF24L01_IRQ = GPIO_INPUT OR GPIO_FLOAT OR GPIO_PORT 3 OR GPIO_PIN 15"

text \<open>The handler and its argument also go to two static variables that nothing else reads.\<close>

definition nrf24l01_irq_attach :: "board_isr option \<Rightarrow> nat option \<Rightarrow> 'e board \<Rightarrow> int \<times> 'e board" where
  "nrf24l01_irq_attach isr arg s = (OK, snd (stm32_gpiosetevent GPIO_NRF24L01_IRQ False True False isr arg s))"

definition nrf24l01_chip_enable :: "bool \<Rightarrow> 'e board \<Rightarrow> 'e board" where
  "nrf24l01_chip_enable enable s = on_hw (stm32_gpiowrite GPIO_NRF24L01_CE enable) s"

definition stm32_wlinitialize :: "'e ext_fns \<Rightarrow> 'e board \<Rightarrow> int \<times> 'e board" where
  "stm32_wlinitialize ext s =
     (let s = on_pins [GPIO_NRF24L01_CE, GPIO_NRF24L01_IRQ] s; (spidev, s) = ext (stm32_spibus_initialize 3) s in
      if spidev = 0 then (- ENODEV, s) else ext (nrf24l01_register spidev) s)"

subsection \<open>Storage\<close>

definition stm32_mmcsd_initialize :: "'e ext_fns \<Rightarrow> nat \<Rightarrow> 'e board \<Rightarrow> int \<times> 'e board" where
  "stm32_mmcsd_initialize ext minor s =
     (let (spi, s) = ext (stm32_spibus_initialize 3) s in
      if spi = 0 then (- ENODEV, s)
      else let (ret, s) = ext (mmcsd_spislotinitialize minor 0 spi) s in
           if ret < 0 then (ret, s) else (OK, s))"

definition stm32_romfs_initialize :: "'e ext_fns \<Rightarrow> nat \<Rightarrow> string \<Rightarrow> 'e board \<Rightarrow> int \<times> 'e board" where
  "stm32_romfs_initialize ext minor mountpoint s =
     (let (ret, s) = ext (romdisk_register minor) s in
      if ret < 0 then (ret, s)
      else let (ret, s) = ext (nx_mount (Some (''/dev/ram'' @ dec_str minor)) mountpoint ''romfs'') s in
           if ret < 0 then (ret, s) else (OK, s))"

record ota_partition_s =
  offset :: u32
  size_of :: u32
  devpath :: string

text \<open>No result is a failed assertion: the partition does not lie on pages.\<close>

definition progmem_alloc_mtdpart :: "'e ext_fns \<Rightarrow> u32 \<Rightarrow> u32 \<Rightarrow> 'e board \<Rightarrow> (int \<times> 'e board) option" where
  "progmem_alloc_mtdpart ext mtd_offset mtd_size s =
     (let (ps, s) = ext (up_progmem_pagesize 0) s; page = word_of_int ps in
      if mtd_offset mod page \<noteq> 0 \<or> mtd_size mod page \<noteq> 0 then None
      else let (base, s) = ext (up_progmem_getaddress 0) s;
               (startblock, s) = ext (up_progmem_getpage (mtd_offset + word_of_int base)) s
           in if startblock < 0 then Some (0, s)
              else Some (ext (mtd_partition (g_progmem_mtd (env s)) startblock (mtd_size div page)) s))"

fun init_ota_partitions :: "'e ext_fns \<Rightarrow> ota_partition_s list \<Rightarrow> int \<Rightarrow> 'e board \<Rightarrow> (int \<times> 'e board) option" where
  "init_ota_partitions ext [] ret s = Some (ret, s)"
| "init_ota_partitions ext (part # parts) ret s =
     (case progmem_alloc_mtdpart ext (offset part) (size_of part) s of
        None \<Rightarrow> None
      | Some (mtd, s) \<Rightarrow>
          let (ret, s) = ext (register_mtddriver (take 15 (devpath part)) mtd) s in
          init_ota_partitions ext parts (if ret < 0 then - 1 else ret) s)"

definition stm32_progmem_init ::
  "'e ext_fns \<Rightarrow> ota_partition_s list option \<Rightarrow> 'e board \<Rightarrow> (int \<times> 'e board) option" where
  "stm32_progmem_init ext ota s =
     (let (mtd, s) = ext progmem_initialize s; s = s\<lparr>env := (env s)\<lparr>g_progmem_mtd := mtd\<rparr>\<rparr> in
      case ota of
        None \<Rightarrow> Some (if mtd = 0 then - EIO else 0, s)
      | Some table \<Rightarrow>
          map_option (\<lambda>(ret, s). (if ret < 0 then - EIO else ret, s)) (init_ota_partitions ext table 0 s))"

end
