(* ===== verification/Board_Bringup.thy ===== *)
theory Board_Bringup
  imports Board_Devices "HOL-Library.Monad_Syntax"
begin

text \<open>
  Bringing the board up, \<^verbatim>\<open>stm32_bringup.c\<close>, \<^verbatim>\<open>stm32_boot.c\<close> and \<^verbatim>\<open>stm32_appinitialize.c\<close> of
  \<^verbatim>\<open>boards/arm/stm32h7/nucleo-h753zi/src\<close>: the order in which the subsystems are started, what is
  made of their return values, and what state the drivers are left in.

  \<open>bringup_cfg\<close> holds the Kconfig settings, \<open>kernel\<close> what the kernel answers while drivers are
  registered (the result of reserving a path, the memory for the two driver structures, the
  static pointer of \<^verbatim>\<open>strtok\<close>). A subsystem gives its return value and the new state, or no result
  when it ran into a fault. Messages are left out.
\<close>

subsection \<open>Settings\<close>

record bringup_cfg =
  leds_user :: bool
  fs_procfs :: "string option"
  romfs :: "(nat \<times> string) option"
  i2ctool :: bool
  i2c_on :: "nat \<Rightarrow> bool"
  have_rtc :: bool
  input_buttons :: "btn_config option"
  usbhost_classes :: "(ext_call \<Rightarrow> bool) option"
  have_usbmonitor :: bool
  cdcacm :: bool
  rndis_mac :: "(u32 \<times> u32) option"
  pca9635pw :: bool
  wl_nrf24l01 :: bool
  spi_cfgs :: "spi_bus_cfg list"
  spi_driver :: bool
  spi_port_on :: "nat \<Rightarrow> bool"
  adc_on :: "(bool \<times> bool \<times> bool) option"
  dev_gpio :: bool
  lsm6dsl :: bool
  lsm9ds1 :: bool
  lsm303agr :: bool
  mmcsd_minor :: "nat option"
  progmem :: "ota_partition_s list option option"
  pwm_on :: "bool option"
  capture_on :: "(nat \<Rightarrow> bool) option"
  iwdg :: bool

record kernel =
  k_reserve :: "string \<Rightarrow> (string \<times> nat) list \<Rightarrow> int"
  k_led :: "nat option"
  k_btn :: "nat option"
  k_strtok :: "string option"

subsection \<open>Subsystems\<close>

text \<open>
  One block of a subsystem: if it is configured it runs, and an error is kept if it is the first
  one. The USB host and monitor count every value but OK as an error (\<open>block_ne\<close>).
\<close>

definition block :: "bool \<Rightarrow> ('s \<Rightarrow> int \<times> 's) \<Rightarrow> int \<times> 's \<Rightarrow> int \<times> 's" where
  "block on f = (\<lambda>(ret, s).
     if on then let (local_ret, s) = f s in (if local_ret < 0 \<and> ret = OK then local_ret else ret, s) else (ret, s))"

definition block_ne :: "bool \<Rightarrow> ('s \<Rightarrow> int \<times> 's) \<Rightarrow> int \<times> 's \<Rightarrow> int \<times> 's" where
  "block_ne on f = (\<lambda>(ret, s).
     if on then let (local_ret, s) = f s in (if local_ret \<noteq> OK \<and> ret = OK then local_ret else ret, s) else (ret, s))"

definition nucleo_led_initialize :: "kernel \<Rightarrow> bringup_cfg \<Rightarrow> 'e board \<Rightarrow> int \<times> 'e board" where
  "nucleo_led_initialize k cfg s =
     (if leds_user cfg then via_led (userled_lower_initialize (k_reserve k) (k_led k) ''/dev/userleds'') s
      else (OK, s))"

definition nucleo_filesystem_initialize :: "bringup_cfg \<Rightarrow> 'e ext_fns \<Rightarrow> 'e board \<Rightarrow> int \<times> 'e board" where
  "nucleo_filesystem_initialize cfg ext s =
     block (romfs cfg \<noteq> None) (stm32_romfs_initialize ext (fst (the (romfs cfg))) (snd (the (romfs cfg))))
       (block (fs_procfs cfg \<noteq> None) (ext (nx_mount None (the (fs_procfs cfg)) ''procfs'')) (OK, s))"

definition nucleo_rtc_initialize :: "bringup_cfg \<Rightarrow> 'e ext_fns \<Rightarrow> 'e board \<Rightarrow> int \<times> 'e board" where
  "nucleo_rtc_initialize cfg ext s =
     (if have_rtc cfg then
        let (lower, s) = ext stm32_rtc_lowerhalf s in
        if lower = 0 then (- ENOMEM, s) else ext (rtc_initialize 0 lower) s
      else (OK, s))"

definition nucleo_input_initialize :: "kernel \<Rightarrow> bringup_cfg \<Rightarrow> 'e board \<Rightarrow> (int \<times> 'e board) option" where
  "nucleo_input_initialize k cfg s =
     (case input_buttons cfg of
        None \<Rightarrow> Some (OK, s)
      | Some c \<Rightarrow> via_btn (btn_lower_initialize c (k_strtok k) (k_reserve k) (k_btn k) ''/dev/buttons'') s)"

text \<open>The address of the network device over USB, from the two words of the configuration.\<close>

definition rndis_addr :: "u32 \<Rightarrow> u32 \<Rightarrow> u32 list" where
  "rndis_addr macaddr_1 macaddr_2 =
     [0xa0, drop_bit (8 * 0) macaddr_2 AND 0xff, drop_bit (8 * 3) macaddr_1 AND 0xff, drop_bit (8 * 2) macaddr_1 AND 0xff,
      drop_bit (8 * 1) macaddr_1 AND 0xff, drop_bit (8 * 0) macaddr_1 AND 0xff]"

definition nucleo_usb_initialize :: "bringup_cfg \<Rightarrow> 'e ext_fns \<Rightarrow> 'e board \<Rightarrow> int \<times> 'e board" where
  "nucleo_usb_initialize cfg ext s =
     block (rndis_mac cfg \<noteq> None)
         (ext (usbdev_rndis_initialize (rndis_addr (fst (the (rndis_mac cfg))) (snd (the (rndis_mac cfg))))))
       (block (cdcacm cfg) (ext (cdcacm_initialize 0))
         (block_ne (have_usbmonitor cfg) (ext usbmonitor_start)
           (block_ne (usbhost_classes cfg \<noteq> None) (stm32_usbhost_initialize ext (the (usbhost_classes cfg))) (OK, s))))"

definition nucleo_adc_initialize :: "bringup_cfg \<Rightarrow> 'e ext_fns \<Rightarrow> 'e board \<Rightarrow> int \<times> 'e board" where
  "nucleo_adc_initialize cfg ext s =
     (case adc_on cfg of None \<Rightarrow> (OK, s) | Some (adc1, adc2, adc3) \<Rightarrow> stm32_adc_setup ext adc1 adc2 adc3 s)"

definition nucleo_gpio_initialize :: "kernel \<Rightarrow> bringup_cfg \<Rightarrow> 'e board \<Rightarrow> (int \<times> 'e board) option" where
  "nucleo_gpio_initialize k cfg s =
     (if dev_gpio cfg then via_gpio (stm32_gpio_initialize (k_reserve k)) s else Some (OK, s))"

definition nucleo_sensors_initialize :: "bringup_cfg \<Rightarrow> 'e ext_fns \<Rightarrow> 'e board \<Rightarrow> int \<times> 'e board" where
  "nucleo_sensors_initialize cfg ext s =
     block (lsm303agr cfg) (stm32_lsm303agr_initialize ext ''/dev/lsm303mag0'')
       (block (lsm9ds1 cfg) (stm32_lsm9ds1_initialize ext)
         (block (lsm6dsl cfg) (stm32_lsm6dsl_initialize ext ''/dev/lsm6dsl0'') (OK, s)))"

text \<open>In the next two subsystems a later device overwrites the result of an earlier one.\<close>

definition nucleo_connectivity_initialize :: "bringup_cfg \<Rightarrow> 'e ext_fns \<Rightarrow> 'e board \<Rightarrow> int \<times> 'e board" where
  "nucleo_connectivity_initialize cfg ext s =
     (let (ret, s) = (if pca9635pw cfg then stm32_pca9635_initialize ext s else (OK, s)) in
      if wl_nrf24l01 cfg then stm32_wlinitialize ext s else (ret, s))"

definition nucleo_storage_initialize :: "bringup_cfg \<Rightarrow> 'e ext_fns \<Rightarrow> 'e board \<Rightarrow> (int \<times> 'e board) option" where
  "nucleo_storage_initialize cfg ext s =
     (let (ret, s) = (case mmcsd_minor cfg of None \<Rightarrow> (OK, s) | Some minor \<Rightarrow> stm32_mmcsd_initialize ext minor s) in
      case progmem cfg of None \<Rightarrow> Some (ret, s) | Some ota \<Rightarrow> stm32_progmem_init ext ota s)"

definition nucleo_timers_initialize :: "bringup_cfg \<Rightarrow> 'e ext_fns \<Rightarrow> 'e board \<Rightarrow> int \<times> 'e board" where
  "nucleo_timers_initialize cfg ext s =
     block (capture_on cfg \<noteq> None) (nucleo_capture_initialize ext (the (capture_on cfg)))
       (block (pwm_on cfg \<noteq> None) (stm32_pwm_setup ext (the (pwm_on cfg))) (OK, s))"

definition nucleo_watchdog_initialize :: "bringup_cfg \<Rightarrow> 'e ext_fns \<Rightarrow> 'e board \<Rightarrow> int \<times> 'e board" where
  "nucleo_watchdog_initialize cfg ext s =
     (if iwdg cfg then ext (stm32_iwdginitialize ''/dev/watchdog0'' 32000) s else (OK, s))"

definition stm32_i2c_register :: "'e ext_fns \<Rightarrow> nat \<Rightarrow> 'e board \<Rightarrow> 'e board" where
  "stm32_i2c_register ext bus s =
     (let (i2c, s) = ext (stm32_i2cbus_initialize bus) s in
      if i2c = 0 then s
      else let (ret, s) = ext (i2c_register i2c bus) s in
           if ret < 0 then snd (ext (stm32_i2cbus_uninitialize i2c) s) else s)"

definition nucleo_i2c_tools_initialize :: "bringup_cfg \<Rightarrow> 'e ext_fns \<Rightarrow> 'e board \<Rightarrow> int \<times> 'e board" where
  "nucleo_i2c_tools_initialize cfg ext s =
     (OK, fold (stm32_i2c_register ext) (filter (i2c_on cfg) [1, 2, 3, 4]) s)"

text \<open>The two SPI steps as the bring-up calls them.\<close>

definition spi_start :: "kernel \<Rightarrow> bringup_cfg \<Rightarrow> 'e board \<Rightarrow> (int \<times> 'e board) option" where
  "spi_start k cfg s = via_spi (\<lambda>bs h. stm32_spi_initialize (spi_cfgs cfg) bs (k_strtok k) h) s"

definition spidev_start :: "bringup_cfg \<Rightarrow> 'e ext_fns \<Rightarrow> 'e board \<Rightarrow> int \<times> 'e board" where
  "spidev_start cfg ext s =
     (if spi_driver cfg then
        stm32_spidev_register_all (\<lambda>n s. let (spi, s) = ext (stm32_spibus_initialize n) s in (spi \<noteq> 0, s))
          (\<lambda>n. ext (spi_register n)) (spi_port_on cfg) s
      else (OK, s))"

subsection \<open>The sequence\<close>

text \<open>
  A step of the bring-up on the value to return and the state: \<open>subsys\<close> remembers the first failure,
  \<open>logged\<close> only logs it.
\<close>

definition subsys :: "('s \<Rightarrow> (int \<times> 's) option) \<Rightarrow> int \<times> 's \<Rightarrow> (int \<times> 's) option" where
  "subsys f = (\<lambda>(ret, s). map_option (\<lambda>(subsys_ret, s). (if subsys_ret \<noteq> OK \<and> ret = OK then subsys_ret else ret, s)) (f s))"

definition logged :: "('s \<Rightarrow> (int \<times> 's) option) \<Rightarrow> int \<times> 's \<Rightarrow> (int \<times> 's) option" where
  "logged f = (\<lambda>(ret, s). map_option (\<lambda>(_, s). (ret, s)) (f s))"

definition stm32_bringup :: "kernel \<Rightarrow> bringup_cfg \<Rightarrow> 'e ext_fns \<Rightarrow> 'e board \<Rightarrow> (int \<times> 'e board) option" where
  "stm32_bringup k cfg ext s =
     Some (OK, s)
       \<bind> subsys (\<lambda>s. Some (nucleo_led_initialize k cfg s))
       \<bind> subsys (\<lambda>s. Some (nucleo_filesystem_initialize cfg ext s))
       \<bind> logged (\<lambda>s. Some (if i2ctool cfg then nucleo_i2c_tools_initialize cfg ext s else (OK, s)))
       \<bind> subsys (\<lambda>s. Some (nucleo_rtc_initialize cfg ext s))
       \<bind> subsys (nucleo_input_initialize k cfg)
       \<bind> subsys (\<lambda>s. Some (nucleo_usb_initialize cfg ext s))
       \<bind> subsys (\<lambda>s. Some (nucleo_connectivity_initialize cfg ext s))
       \<bind> logged (spi_start k cfg)
       \<bind> logged (\<lambda>s. Some (spidev_start cfg ext s))
       \<bind> subsys (\<lambda>s. Some (nucleo_adc_initialize cfg ext s))
       \<bind> subsys (nucleo_gpio_initialize k cfg)
       \<bind> subsys (\<lambda>s. Some (nucleo_sensors_initialize cfg ext s))
       \<bind> subsys (nucleo_storage_initialize cfg ext)
       \<bind> subsys (\<lambda>s. Some (nucleo_timers_initialize cfg ext s))
       \<bind> subsys (\<lambda>s. Some (nucleo_watchdog_initialize cfg ext s))"

text \<open>
  The callers: early in the boot the pins of LEDs and USB are configured, and the hook for the chip
  selects is called, which this board leaves to be provided (\<open>spidev_hook\<close>); the bring-up itself
  comes from the late initialization or, without it, from the first application.
\<close>

definition stm32_boardinitialize ::
  "bool \<Rightarrow> bool \<Rightarrow> bool \<Rightarrow> bool \<Rightarrow> ('e board \<Rightarrow> 'e board) \<Rightarrow> 'e board \<Rightarrow> 'e board" where
  "stm32_boardinitialize arch_leds usb usbhost spi spidev_hook s =
     (let s = (if arch_leds then on_hw board_autoled_initialize s else s);
          s = (if usb then stm32_usbinitialize usbhost s else s)
      in if spi then spidev_hook s else s)"

definition board_late_initialize ::
  "kernel \<Rightarrow> bringup_cfg \<Rightarrow> 'e ext_fns \<Rightarrow> 'e board \<Rightarrow> 'e board option" where
  "board_late_initialize k cfg ext s = map_option snd (stm32_bringup k cfg ext s)"

definition board_app_initialize ::
  "bool \<Rightarrow> kernel \<Rightarrow> bringup_cfg \<Rightarrow> 'e ext_fns \<Rightarrow> 'e board \<Rightarrow> (int \<times> 'e board) option" where
  "board_app_initialize late k cfg ext s = (if late then Some (OK, s) else stm32_bringup k cfg ext s)"

subsection \<open>First failure\<close>

text \<open>
  The specification of the sequence: all steps run, in order and whatever the ones before
  returned; the results are collected for the steps that count.
\<close>

fun run_steps :: "(bool \<times> ('s \<Rightarrow> (int \<times> 's) option)) list \<Rightarrow> 's \<Rightarrow> (int list \<times> 's) option" where
  "run_steps [] s = Some ([], s)"
| "run_steps ((counts, f) # fs) s =
     (case f s of
        None \<Rightarrow> None
      | Some (r, s) \<Rightarrow> map_option (\<lambda>(rs, s). (if counts then r # rs else rs, s)) (run_steps fs s))"

definition first_failure :: "int list \<Rightarrow> int" where
  "first_failure rs = (case filter (\<lambda>r. r \<noteq> OK) rs of [] \<Rightarrow> OK | r # _ \<Rightarrow> r)"

definition bringup_steps ::
  "kernel \<Rightarrow> bringup_cfg \<Rightarrow> 'e ext_fns \<Rightarrow> (bool \<times> ('e board \<Rightarrow> (int \<times> 'e board) option)) list" where
  "bringup_steps k cfg ext =
     [(True, \<lambda>s. Some (nucleo_led_initialize k cfg s)),
      (True, \<lambda>s. Some (nucleo_filesystem_initialize cfg ext s)),
      (False, \<lambda>s. Some (if i2ctool cfg then nucleo_i2c_tools_initialize cfg ext s else (OK, s))),
      (True, \<lambda>s. Some (nucleo_rtc_initialize cfg ext s)),
      (True, nucleo_input_initialize k cfg),
      (True, \<lambda>s. Some (nucleo_usb_initialize cfg ext s)),
      (True, \<lambda>s. Some (nucleo_connectivity_initialize cfg ext s)),
      (False, spi_start k cfg),
      (False, \<lambda>s. Some (spidev_start cfg ext s)),
      (True, \<lambda>s. Some (nucleo_adc_initialize cfg ext s)),
      (True, nucleo_gpio_initialize k cfg),
      (True, \<lambda>s. Some (nucleo_sensors_initialize cfg ext s)),
      (True, nucleo_storage_initialize cfg ext),
      (True, \<lambda>s. Some (nucleo_timers_initialize cfg ext s)),
      (True, \<lambda>s. Some (nucleo_watchdog_initialize cfg ext s))]"

definition step_of :: "bool \<times> ('s \<Rightarrow> (int \<times> 's) option) \<Rightarrow> int \<times> 's \<Rightarrow> (int \<times> 's) option" where
  "step_of = (\<lambda>(counts, f). if counts then subsys f else logged f)"

fun run_chain :: "(int \<times> 's \<Rightarrow> (int \<times> 's) option) list \<Rightarrow> (int \<times> 's) option \<Rightarrow> (int \<times> 's) option" where
  "run_chain [] x = x"
| "run_chain (f # fs) x = run_chain fs (x \<bind> f)"

lemma run_chain_None [simp]: "run_chain fs None = None"
  by (induction fs) simp_all

lemma bringup_chain: "stm32_bringup k cfg ext s = run_chain (map step_of (bringup_steps k cfg ext)) (Some (OK, s))"
  by (simp add: stm32_bringup_def bringup_steps_def step_of_def)

lemma run_chain_steps:
  "run_chain (map step_of fs) (Some (ret, s)) =
     map_option (\<lambda>(rs, s). (if ret \<noteq> OK then ret else first_failure rs, s)) (run_steps fs s)"
proof (induction fs arbitrary: ret s)
  case Nil
  then show ?case by (simp add: first_failure_def)
next
  case (Cons x fs)
  obtain counts f where x: "x = (counts, f)" by (rule prod.exhaust)
  show ?case
  proof (cases "f s")
    case None
    then show ?thesis by (simp add: x step_of_def subsys_def logged_def)
  next
    case (Some y)
    obtain r t where y: "y = (r, t)" by (rule prod.exhaust)
    have "step_of x (ret, s) = Some (if counts \<and> r \<noteq> OK \<and> ret = OK then r else ret, t)"
      by (simp add: x step_of_def subsys_def logged_def Some y)
    then show ?thesis
      by (simp add: Cons.IH x Some y)
        (auto simp: option.map_comp comp_def first_failure_def split_beta intro!: map_option_cong)
  qed
qed

text \<open>
  C20. The bring-up starts every subsystem, in the documented order and whatever the ones before it
  returned, and returns OK if none of those it checks failed and otherwise what the first of
  them returned that did.
\<close>

theorem bringup_first_failure:
  "stm32_bringup k cfg ext s =
     map_option (\<lambda>(rs, s'). (first_failure rs, s')) (run_steps (bringup_steps k cfg ext) s)"
  by (simp add: bringup_chain run_chain_steps)

end
