(* ===== verification/Board_Up.thy ===== *)
theory Board_Up
  imports Board_Bringup
begin

text \<open>
  The board after \<^verbatim>\<open>stm32_bringup\<close>: the drivers that are modelled are ready and their pins are
  configured, whatever the other subsystems return.
\<close>

subsection \<open>Steps on pins\<close>

text \<open>No line has a callback, is unmasked or has its interrupt enabled: this is kept.\<close>

lemma exti_start_iff: "exti_start s \<longleftrightarrow> exti_inv s \<and> (\<forall>q < 16. callback (g_gpio_callbacks s ! q) = None)"
  by (auto simp: exti_start_def exti_inv_def list_all_length)

lemma exti_start_hw:
  assumes "exti_start s" "writes_in 0x58000400 0x58022000 (hw s) h"
  shows "exti_start (on_hw (\<lambda>_. h) s)"
  using assms exti_inv_hw [of s "\<lambda>_. h"] by (simp add: exti_start_iff on_hw_def)

lemma exti_start_env: "hw t = hw s \<Longrightarrow> g_gpio_callbacks t = g_gpio_callbacks s \<Longrightarrow> g_irqvector t = g_irqvector s \<Longrightarrow>
  exti_start t \<longleftrightarrow> exti_start s"
  by (simp add: exti_start_def)

lemma exti_start_setevent: "exti_start s \<Longrightarrow> exti_start (snd (stm32_gpiosetevent c re fe ev None a s))"
proof -
  assume s: "exti_start s"
  then have "length (g_gpio_callbacks s) = 16" by (simp add: exti_start_def)
  with s show ?thesis
    using exti_inv_setevent [of s c re fe ev None a] by (auto simp: exti_start_iff nth_list_update)
qed

lemma pin_steps_leds:
  "pin_steps led_pins h (snd (board_userled_initialize h))" "pin_steps led_pins h (userled_setall w h)"
  by (simp_all add: board_userled_initialize_def g_ledcfg_def userled_setall_def board_userled_all_def led_pins_def
      pin_steps.intros)

text \<open>The pins of the chip selects that the configuration names, for the buses that are enabled.\<close>

definition cs_locs :: "spi_bus_cfg list \<Rightarrow> (nat \<times> nat) set" where
  "cs_locs cfgs = (\<Union>cfg \<in> set (filter spi_enable cfgs). case spec_cs 8 (cs_pins_str cfg) of
     None \<Rightarrow> {} | Some ws \<Rightarrow> gpio_loc ` set ws)"

lemma cs_table_at:
  assumes "cs_table cfgs bs" "length cfgs = 6" "cs_registered cfgs bs nk"
  shows "cs_loc bs nk \<in> cs_locs cfgs" "snd nk < 8" "gpio_valid (cs_pins (bs ! fst nk) ! snd nk)"
proof -
  let ?ws = "take (cs_count (bs ! fst nk)) (cs_pins (bs ! fst nk))"
  have n: "fst nk < 6" "spi_enable (cfgs ! fst nk)" "snd nk < cs_count (bs ! fst nk)" using assms(3) by (simp_all add: cs_registered_def)
  then have spec: "spec_cs 8 (cs_pins_str (cfgs ! fst nk)) = Some ?ws" "cs_count (bs ! fst nk) \<le> 8" "length (cs_pins (bs ! fst nk)) = 8"
    using assms(1) by (simp_all add: cs_table_def)
  then have w: "cs_pins (bs ! fst nk) ! snd nk \<in> set ?ws"
    using n(3) by (auto simp: in_set_conv_nth intro!: exI [of _ "snd nk"])
  then have "cs_loc bs nk \<in> gpio_loc ` set ?ws" by (simp add: cs_loc_def)
  moreover have "cfgs ! fst nk \<in> set (filter spi_enable cfgs)" using n assms(2) by simp
  ultimately show "cs_loc bs nk \<in> cs_locs cfgs"
    unfolding cs_locs_def by (intro UN_I [of "cfgs ! fst nk"]) (simp_all add: spec(1))
  show "snd nk < 8" using n(3) spec(2) by simp
  show "gpio_valid (cs_pins (bs ! fst nk) ! snd nk)" using w spec_cs_words [OF spec(1)] by (simp add: list_all_iff cs_word_def)
qed

lemma select_pins:
  assumes "cs_table cfgs bs" "length cfgs = 6" "n < 6"
  shows "pin_steps (cs_locs cfgs) h ((spi_selects ! n) cfgs bs devid selected h)"
proof -
  have "gpio_loc (cs_pins (bs ! m) ! k) \<in> cs_locs cfgs" if "m < 6" "spi_enable (cfgs ! m)" "k < cs_count (bs ! m)" for m k
    using cs_table_at(1) [OF assms(1,2), of "(m, k)"] that by (simp add: cs_registered_def cs_loc_def)
  then show ?thesis by (simp add: spi_selects_eq [OF assms(3)] spi_cs_select_def Let_def pin_steps.intros)
qed

lemma pin_steps_config_cs: "gpio_loc ` set cs \<subseteq> L \<Longrightarrow> pin_steps L h (snd (config_cs cs h))"
proof (induction cs arbitrary: h)
  case (Cons c cs)
  obtain r h1 where c: "stm32_configgpio c h = (r, h1)" by (rule prod.exhaust)
  have 1: "pin_steps L h h1" using Cons.prems pin_steps.config [OF pin_steps.refl, of c L h] by (simp add: c)
  then have 2: "pin_steps L h (stm32_gpiowrite c True h1)" using Cons.prems by (simp add: pin_steps.drive)
  from Cons 1 pin_steps_trans [OF Cons.IH 2] show ?case by (simp add: c)
qed (simp add: pin_steps.refl)

lemma pin_steps_spi_bus:
  assumes "length (cs_pins b) = 8" "spi_init_bus cfg b g h = Some (r, b', g', h')"
  shows "pin_steps (case spec_cs 8 (cs_pins_str cfg) of None \<Rightarrow> {} | Some ws \<Rightarrow> gpio_loc ` set ws) h h'"
proof -
  obtain r1 p k g1 where parse: "parse_cs_pins (cs_pins_str cfg) (cs_pins b) 8 g = Some (r1, p, k, g1)"
    and res: "case spec_cs 8 (cs_pins_str cfg) of
        Some ws \<Rightarrow> r1 = OK \<and> take k p = ws | None \<Rightarrow> r1 = - EINVAL \<and> k = 0"
    using parse_cs_pins_spec [OF assms(1), of "cs_pins_str cfg" g] by auto
  show ?thesis
    using assms(2) parse res pin_steps_config_cs [of "take k p" "gpio_loc ` set (take k p)" h]
    by (auto simp: spi_init_bus_def MAX_CS_PINS_PER_SPI_def pin_steps.refl EINVAL_def split_beta split: option.splits)
qed

lemma pin_steps_spi_from:
  assumes "list_all (\<lambda>(cfg, b). length (cs_pins b) = 8) cbs" "spi_init_from cbs ret g h = Some (r, bs, h')"
  shows "pin_steps (cs_locs (map fst cbs)) h h'"
  using assms
proof (induction cbs arbitrary: ret g h r bs h')
  case (Cons cb cbs)
  obtain cfg b where cb: "cb = (cfg, b)" by (rule prod.exhaust)
  have len: "length (cs_pins b) = 8" using Cons.prems(1) by (simp add: cb)
  have sub: "cs_locs (map fst cbs) \<subseteq> cs_locs (map fst (cb # cbs))" by (auto simp: cs_locs_def)
  have IH: "pin_steps (cs_locs (map fst (cb # cbs))) h1 h2" if "spi_init_from cbs ret' g' h1 = Some (r', bs', h2)"
    for ret' g' h1 r' bs' h2
    using Cons.IH [OF _ that] Cons.prems(1) sub pin_steps_mono by auto
  show ?case
  proof (cases "spi_enable cfg")
    case False
    then show ?thesis using Cons.prems(2) IH by (auto simp: cb)
  next
    case on: True
    obtain r1 b1 g1 h1 where bus: "spi_init_bus cfg b g h = Some (r1, b1, g1, h1)"
      using Cons.prems(2) on by (auto simp: cb split: option.splits)
    have one: "pin_steps (cs_locs (map fst (cb # cbs))) h h1"
      using pin_steps_mono [OF pin_steps_spi_bus [OF len bus]] on by (force simp: cs_locs_def cb)
    show ?thesis
    proof (cases "r1 < 0")
      case True
      then show ?thesis using Cons.prems(2) on bus one by (simp add: cb)
    next
      case False
      then obtain bs1 where "spi_init_from cbs r1 g1 h1 = Some (r, bs1, h')"
        using Cons.prems(2) on bus by (auto simp: cb)
      from pin_steps_trans [OF IH [OF this] one] show ?thesis .
    qed
  qed
qed (auto simp: pin_steps.refl)

lemma pin_steps_spi:
  assumes "length cfgs = 6" "length bs = 6" "list_all (\<lambda>b. length (cs_pins b) = 8) bs"
    "stm32_spi_initialize cfgs bs g h = Some (r, bs', h')"
  shows "pin_steps (cs_locs cfgs) h h'"
proof -
  have "list_all (\<lambda>(cfg, b). length (cs_pins b) = 8) (zip cfgs bs)"
    using assms by (auto simp: list_all_iff dest: set_zip_rightD)
  from pin_steps_spi_from [OF this] show ?thesis using assms by (simp add: stm32_spi_initialize_def)
qed

subsection \<open>What other drivers leave alone\<close>

text \<open>
  A step keeps the pins in \<open>P\<close>, the data of the modelled drivers and the table of the line callbacks,
  and lines that are as after a reset stay so.
\<close>

definition parts :: "'e board_env \<Rightarrow> 'e genv \<times> ('e, btn_low) btn_env \<times> userled_upperhalf_s \<times> u32 \<times> spi_bus list" where
  "parts e = (gpio_part e, btn_part e, led_part e, led_count e, spi_part e)"

definition keeps :: "(nat \<times> nat) set \<Rightarrow> 'e board \<Rightarrow> 'e board \<Rightarrow> bool" where
  "keeps P s s' \<longleftrightarrow>
     parts (env s') = parts (env s) \<and> g_gpio_callbacks s' = g_gpio_callbacks s \<and>
     (exti_start s \<longrightarrow> exti_start s') \<and> (\<forall>p \<in> P. pin_view (hw s') p = pin_view (hw s) p)"

lemma keeps_refl [simp]: "keeps P s s" by (simp add: keeps_def)

lemma keeps_trans: "keeps P s t \<Longrightarrow> keeps P t u \<Longrightarrow> keeps P s u" by (simp add: keeps_def)

text \<open>The two driver functions that attach handlers to lines of pins while they start.\<close>

fun attaches_line :: "ext_call \<Rightarrow> bool" where
  "attaches_line (nrf24l01_register spi) = True"
| "attaches_line (stm32_otgfshost_initialize n) = True"
| "attaches_line _ = False"

definition ext_frame :: "(nat \<times> nat) set \<Rightarrow> 'e ext_fns \<Rightarrow> bool" where
  "ext_frame P ext \<longleftrightarrow> (\<forall>c s. \<not> attaches_line c \<longrightarrow> keeps P s (snd (ext c s)))"

lemma keeps_ext: "ext_frame P ext \<Longrightarrow> \<not> attaches_line c \<Longrightarrow> keeps P s t \<Longrightarrow> keeps P s (snd (ext c t))"
  by (meson ext_frame_def keeps_trans)

lemma keeps_pins:
  assumes "gpio_loc ` set cs \<inter> P = {}" "keeps P s t"
  shows "keeps P s (on_pins cs t)"
proof -
  let ?h = "fold (\<lambda>c h. snd (stm32_configgpio c h)) cs (hw t)"
  have steps: "pin_steps (gpio_loc ` set cs) (hw t) ?h" by (rule pin_steps_config_all)
  have t: "on_pins cs t = on_hw (\<lambda>_. ?h) t" by (simp add: on_pins_def on_hw_def)
  have "\<forall>p \<in> P. pin_view ?h p = pin_view (hw t) p"
    using pin_steps_other [OF steps] assms(1) by blast
  moreover have "exti_start t \<Longrightarrow> exti_start (on_hw (\<lambda>_. ?h) t)"
    by (rule exti_start_hw [OF _ pin_steps_writes [OF steps]])
  ultimately have "keeps P t (on_pins cs t)" by (simp add: keeps_def t)
  with assms(2) show ?thesis by (rule keeps_trans)
qed

lemma exti_start_upd [simp]: "exti_start (s\<lparr>env := e\<rparr>) \<longleftrightarrow> exti_start s"
  by (rule exti_start_env) simp_all

lemma keeps_env [simp]:
  "keeps P s (t\<lparr>env := (env t)\<lparr>adc_initialized := b\<rparr>\<rparr>) = keeps P s t"
  "keeps P s (t\<lparr>env := (env t)\<lparr>pwm_initialized := b\<rparr>\<rparr>) = keeps P s t"
  "keeps P s (t\<lparr>env := (env t)\<lparr>g_progmem_mtd := p\<rparr>\<rparr>) = keeps P s t"
  by (simp_all add: keeps_def parts_def)

lemma keeps_block:
  "keeps P s (snd x) \<Longrightarrow> (\<And>t. keeps P s t \<Longrightarrow> keeps P s (snd (f t))) \<Longrightarrow> keeps P s (snd (block on f x))"
  "keeps P s (snd x) \<Longrightarrow> (\<And>t. keeps P s t \<Longrightarrow> keeps P s (snd (f t))) \<Longrightarrow> keeps P s (snd (block_ne on f x))"
  by (auto simp: block_def block_ne_def split_beta Let_def)

lemma adc_blocks_keeps:
  assumes "ext_frame P ext" "\<forall>(i, chans, pins) \<in> set tab. gpio_loc ` set pins \<inter> P = {}" "keeps P s t"
  shows "keeps P s (snd (adc_blocks ext tab n t))"
  using assms(2,3)
proof (induction tab arbitrary: n t)
  case (Cons x tab)
  obtain i chans pins where x: "x = (i, chans, pins)" by (metis prod.exhaust)
  let ?t = "on_pins (filter (\<lambda>c. c \<noteq> 0) pins) t"
  have "keeps P s ?t" using Cons.prems by (intro keeps_pins) (auto simp: x)
  then show ?case using Cons.prems(1)
    by (simp add: x split_beta Let_def keeps_ext [OF assms(1)] Cons.IH)
qed simp

lemma cap_lowers_keeps: "ext_frame P ext \<Longrightarrow> keeps P s t \<Longrightarrow> keeps P s (snd (cap_lowers ext ns t))"
  by (induction ns arbitrary: t) (simp_all add: split_beta Let_def keeps_ext)

lemma i2c_register_keeps: "ext_frame P ext \<Longrightarrow> keeps P s t \<Longrightarrow> keeps P s (stm32_i2c_register ext n t)"
  by (simp add: stm32_i2c_register_def split_beta Let_def keeps_ext)

lemma spidev_from_keeps:
  "ext_frame P ext \<Longrightarrow> keeps P s t \<Longrightarrow> keeps P s (snd (spidev_register_from
     (\<lambda>n s. let (spi, s) = ext (stm32_spibus_initialize n) s in (spi \<noteq> 0, s)) (\<lambda>n. ext (spi_register n)) ns r t))"
  by (induction ns arbitrary: r t) (simp_all add: split_beta Let_def keeps_ext)

text \<open>
  The settings that are left out below: no radio and no USB host, which attach handlers to interrupt lines of their own, and no
  partitions for firmware updates, whose alignment is asserted. And the pins that the subsystems configure
  which are not modelled beyond their start-up.
\<close>

definition plain_cfg :: "bringup_cfg \<Rightarrow> bool" where
  "plain_cfg cfg \<longleftrightarrow> \<not> wl_nrf24l01 cfg \<and> usbhost_classes cfg = None \<and> (progmem cfg = None \<or> progmem cfg = Some None)"

definition other_pins :: "bringup_cfg \<Rightarrow> (nat \<times> nat) set" where
  "other_pins cfg =
     (if lsm6dsl cfg then {gpio_loc GPIO_LPS22HB_INT1} else {}) \<union>
     (case adc_on cfg of None \<Rightarrow> {} | Some (a, b, c) \<Rightarrow> \<Union>(i, chans, pins) \<in> set (adc_table a b c). gpio_loc ` set pins)"

lemma early_keep:
  assumes f: "ext_frame P ext" and c: "plain_cfg cfg"
  shows "keeps P s (snd (nucleo_filesystem_initialize cfg ext s))"
    "keeps P s (snd (nucleo_i2c_tools_initialize cfg ext s))"
    "keeps P s (snd (nucleo_rtc_initialize cfg ext s))"
    "keeps P s (snd (nucleo_usb_initialize cfg ext s))"
    "keeps P s (snd (nucleo_connectivity_initialize cfg ext s))"
    "keeps P s (snd (spidev_start cfg ext s))"
proof -
  note ks = split_beta Let_def keeps_ext [OF f]
  have call: "keeps P s t \<Longrightarrow> keeps P s (snd (ext x t))" if "\<not> attaches_line x" for x t
    using that by (rule keeps_ext [OF f])
  have romfs: "keeps P s t \<Longrightarrow> keeps P s (snd (stm32_romfs_initialize ext m p t))" for m p t
    by (simp add: stm32_romfs_initialize_def ks)
  show "keeps P s (snd (nucleo_filesystem_initialize cfg ext s))"
    by (simp add: nucleo_filesystem_initialize_def keeps_block romfs call)
  have "keeps P s (fold (stm32_i2c_register ext) ns t)" if "keeps P s t" for ns t
    using that by (induction ns arbitrary: t) (simp_all add: i2c_register_keeps [OF f])
  then show "keeps P s (snd (nucleo_i2c_tools_initialize cfg ext s))"
    by (simp add: nucleo_i2c_tools_initialize_def del: filter.simps)
  show "keeps P s (snd (nucleo_rtc_initialize cfg ext s))" by (simp add: nucleo_rtc_initialize_def ks)
  have off: "block_ne (usbhost_classes cfg \<noteq> None) g (OK, s) = (OK, s)" for g
    using c by (simp add: block_ne_def plain_cfg_def)
  show "keeps P s (snd (nucleo_usb_initialize cfg ext s))"
    unfolding nucleo_usb_initialize_def off by (intro keeps_block call) simp_all
  show "keeps P s (snd (nucleo_connectivity_initialize cfg ext s))"
    using c by (simp add: nucleo_connectivity_initialize_def plain_cfg_def stm32_pca9635_initialize_def ks)
  show "keeps P s (snd (spidev_start cfg ext s))"
    using spidev_from_keeps [OF f keeps_refl] unfolding spidev_start_def stm32_spidev_register_all_def by simp
qed

lemma adc_keep:
  assumes "ext_frame P ext" "other_pins cfg \<inter> P = {}"
  shows "keeps P s (snd (nucleo_adc_initialize cfg ext s))"
proof (cases "adc_on cfg")
  case (Some x)
  obtain a1 a2 a3 where x: "x = (a1, a2, a3)" by (metis prod.exhaust)
  have "keeps P s (snd (adc_blocks ext (adc_table a1 a2 a3) 0 s))"
    using assms(2) by (intro adc_blocks_keeps [OF assms(1)]) (auto simp: other_pins_def Some x)
  then show ?thesis by (simp add: nucleo_adc_initialize_def Some x stm32_adc_setup_def split_beta Let_def)
qed (simp add: nucleo_adc_initialize_def)

lemma sensors_keep:
  assumes f: "ext_frame P ext" and c: "other_pins cfg \<inter> P = {}"
  shows "keeps P s (snd (nucleo_sensors_initialize cfg ext s))"
proof -
  note ks = split_beta Let_def keeps_ext [OF f]
  have "keeps P s (on_pins [GPIO_LPS22HB_INT1] s)" if "lsm6dsl cfg"
    using that c by (intro keeps_pins) (auto simp: other_pins_def)
  then have "keeps P s (snd (block (lsm6dsl cfg) (stm32_lsm6dsl_initialize ext p) (OK, s)))" for p
    by (simp add: block_def stm32_lsm6dsl_initialize_def ks)
  moreover have "keeps P s t \<Longrightarrow> keeps P s (snd (stm32_lsm9ds1_initialize ext t))"
    "keeps P s t \<Longrightarrow> keeps P s (snd (stm32_lsm303agr_initialize ext p t))" for p t
    by (simp_all add: stm32_lsm9ds1_initialize_def stm32_lsm303agr_initialize_def ks)
  ultimately show ?thesis unfolding nucleo_sensors_initialize_def by (blast intro: keeps_block)
qed

lemma late_keep:
  assumes f: "ext_frame P ext" and c: "plain_cfg cfg"
  shows "keeps P s (snd (nucleo_timers_initialize cfg ext s))"
    "keeps P s (snd (nucleo_watchdog_initialize cfg ext s))"
    "\<exists>r t. nucleo_storage_initialize cfg ext s = Some (r, t) \<and> keeps P s t"
proof -
  note ks = split_beta Let_def keeps_ext [OF f]
  have pwm: "keeps P s t \<Longrightarrow> keeps P s (snd (stm32_pwm_setup ext b t))" for b t
    by (simp add: stm32_pwm_setup_def ks)
  have cap: "keeps P s t \<Longrightarrow> keeps P s (snd (nucleo_capture_initialize ext p t))" for p t
    by (simp add: nucleo_capture_initialize_def ks cap_lowers_keeps [OF f] del: filter.simps)
  show "keeps P s (snd (nucleo_timers_initialize cfg ext s))"
    unfolding nucleo_timers_initialize_def by (intro keeps_block pwm cap) simp_all
  show "keeps P s (snd (nucleo_watchdog_initialize cfg ext s))"
    by (simp add: nucleo_watchdog_initialize_def keeps_ext [OF f])
  obtain r t where mmc: "(case mmcsd_minor cfg of None \<Rightarrow> (OK, s) | Some minor \<Rightarrow> stm32_mmcsd_initialize ext minor s) = (r, t)"
    by (rule prod.exhaust)
  have "keeps P s (snd (case mmcsd_minor cfg of None \<Rightarrow> (OK, s) | Some minor \<Rightarrow> stm32_mmcsd_initialize ext minor s))"
    by (simp add: stm32_mmcsd_initialize_def ks split: option.split)
  then have "keeps P s t" by (simp add: mmc)
  show "\<exists>r t. nucleo_storage_initialize cfg ext s = Some (r, t) \<and> keeps P s t"
    using c \<open>keeps P s t\<close> by (auto simp: nucleo_storage_initialize_def mmc plain_cfg_def stm32_progmem_init_def ks)
qed

subsection \<open>The modelled drivers on the board\<close>

lemma led_step:
  assumes "leds_user cfg" "k_led k = Some a"
  shows "\<exists>r t. nucleo_led_initialize k cfg s = (r, t) \<and> pin_steps led_pins (hw s) (hw t) \<and> (exti_start s \<longrightarrow> exti_start t) \<and>
     led_part (env t) = \<lparr>lu_supported = userled_supported 3, lu_ledset = 0, lu_open = []\<rparr> \<and> led_count (env t) = 3 \<and>
     gpio_part (env t) = gpio_part (env s) \<and> btn_part (env t) = btn_part (env s) \<and> spi_part (env t) = spi_part (env s)"
proof -
  let ?h = "userled_setall 0 (snd (board_userled_initialize (hw s)))"
  obtain r t where t: "nucleo_led_initialize k cfg s = (r, t)" by (rule prod.exhaust)
  have hw: "hw t = ?h"
    using t assms by (auto simp: nucleo_led_initialize_def via_led_def of_led_def as_led_def userled_lower_initialize_def
        userled_register_def upd_ledhw_def on_led_bus_def g_userled_lower_def split_beta Let_def)
  have parts: "led_part (env t) = \<lparr>lu_supported = userled_supported 3, lu_ledset = 0, lu_open = []\<rparr>" "led_count (env t) = 3"
    "gpio_part (env t) = gpio_part (env s)" "btn_part (env t) = btn_part (env s)" "spi_part (env t) = spi_part (env s)"
    "g_gpio_callbacks t = g_gpio_callbacks s" "g_irqvector t = g_irqvector s"
    using t assms by (auto simp: nucleo_led_initialize_def via_led_def of_led_def as_led_def userled_lower_initialize_def
        userled_register_def upd_ledhw_def on_led_bus_def g_userled_lower_def board_userled_initialize_def BOARD_NLEDS_def
        split_beta Let_def)
  have steps: "pin_steps led_pins (hw s) ?h"
    using pin_steps_leds(1) [of "hw s"] pin_steps_trans [OF pin_steps_leds(2)] by blast
  have "exti_start t" if "exti_start s"
    using exti_start_hw [OF that pin_steps_writes [OF steps]] hw parts(6,7)
    by (simp add: exti_start_env [of t "on_hw (\<lambda>_. ?h) s"] on_hw_def)
  with t hw steps parts show ?thesis by simp
qed

lemma irq_none:
  assumes "exti_start s" "list_all gpio_valid (take (g_button_count b) (g_buttons b))"
    "\<forall>c \<in> set (take (g_button_count b) (g_buttons b)). cfg_of c = pin_reset" "g_button_count b \<le> length (g_buttons b)"
    "i < g_button_count b"
  shows "exti_start (snd (board_button_irq b (int i) None None s))"
    "level_abs (hw (snd (board_button_irq b (int i) None None s))) = level_abs (hw s)"
    "gpio_abs (hw (snd (board_button_irq b (int i) None None s))) =
       (gpio_abs (hw s))(gpio_loc (g_buttons b ! i) \<mapsto> pin_reset)"
proof -
  have m: "g_buttons b ! i \<in> set (take (g_button_count b) (g_buttons b))"
    using assms(4,5) by (simp add: nth_mem_take)
  then have c: "gpio_valid (g_buttons b ! i)" "cfg_of (g_buttons b ! i) = pin_reset"
    using assms(2,3) by (auto simp: list_all_iff)
  then have "\<not> gpio_is_output (g_buttons b ! i)" by (simp add: gpio_is_output_def pin_reset_def)
  with c assms(1,5) show "exti_start (snd (board_button_irq b (int i) None None s))"
    "level_abs (hw (snd (board_button_irq b (int i) None None s))) = level_abs (hw s)"
    "gpio_abs (hw (snd (board_button_irq b (int i) None None s))) =
       (gpio_abs (hw s))(gpio_loc (g_buttons b ! i) \<mapsto> pin_reset)"
    by (simp_all add: board_button_irq_def exti_start_setevent setevent_input)
qed

lemma disable_none:
  fixes s :: "'e bstate"
  assumes "exti_start s" "board (the_low s) = b" "list_all gpio_valid (take (g_button_count b) (g_buttons b))"
    "\<forall>c \<in> set (take (g_button_count b) (g_buttons b)). cfg_of c = pin_reset" "g_button_count b \<le> length (g_buttons b)"
    "\<forall>i \<in> set ids. i < g_button_count b"
  shows "exti_start (disable_loop ids s) \<and> level_abs (hw (disable_loop ids s)) = level_abs (hw s) \<and>
     (\<forall>p. gpio_abs (hw (disable_loop ids s)) p =
        (if p \<in> (\<lambda>i. gpio_loc (g_buttons b ! i)) ` set ids then Some pin_reset else gpio_abs (hw s) p))"
  using assms(1,2,6)
proof (induction ids arbitrary: s)
  case (Cons i ids)
  let ?s = "snd (board_button_irq b (int i) None None s)"
  have 1: "exti_start ?s" "level_abs (hw ?s) = level_abs (hw s)"
    "gpio_abs (hw ?s) = (gpio_abs (hw s))(gpio_loc (g_buttons b ! i) \<mapsto> pin_reset)"
    using irq_none [OF Cons.prems(1) assms(3,4,5), of i] Cons.prems(3) by simp_all
  have "board (the_low ?s) = b" using Cons.prems(2) by simp
  from Cons.IH [OF 1(1) this] Cons.prems(3) show ?case by (simp add: Cons.prems(2) 1)
qed simp

lemma config_buttons_view:
  assumes "spec_buttons c = Some ws"
  shows "level_abs (fold (\<lambda>c h. snd (stm32_configgpio c h)) ws h) = level_abs h"
    "gpio_abs (fold (\<lambda>c h. snd (stm32_configgpio c h)) ws h) p = (if p \<in> gpio_loc ` set ws then Some pin_reset else gpio_abs h p)"
proof -
  note pins = spec_buttons_pins [OF assms]
  have "\<not> gpio_is_output c" if "c \<in> set ws" for c
    using pins(3) [OF that] by (simp add: gpio_is_output_def pin_reset_def)
  with pins(1) show "level_abs (fold (\<lambda>c h. snd (stm32_configgpio c h)) ws h) = level_abs h"
    by (induction ws arbitrary: h) (simp_all add: gpio.cfg_level)
  show "gpio_abs (fold (\<lambda>c h. snd (stm32_configgpio c h)) ws h) p = (if p \<in> gpio_loc ` set ws then Some pin_reset else gpio_abs h p)"
    using gpio.cfg_all_at(1) [OF pins(2,1)] gpio.cfg_all_other(1) [of p ws h] pins(3) by auto
qed

lemma btn_start:
  fixes s :: "'e bstate"
  assumes "btn_boot c s" "spec_buttons c = Some ws"
  shows "\<exists>r t. btn_lower_initialize c g reserve (Some a) devname s = Some (r, t) \<and> exti_start t \<and>
     g_btnnum (the_low t) = cfg_count c \<and> btn_locs t = gpio_loc ` set ws \<and> level_abs (hw t) = level_abs (hw s) \<and>
     (\<forall>p. gpio_abs (hw t) p = (if p \<in> gpio_loc ` set ws then Some pin_reset else gpio_abs (hw s) p))"
proof -
  let ?h = "fold (\<lambda>c h. snd (stm32_configgpio c h)) ws (hw s)"
  note pins = spec_buttons_pins [OF assms(2)]
  obtain b where b: "board_button_initialize c g (board (the_low s)) (hw s) = Some (cfg_count c, b, ?h)"
    "take (g_button_count b) (g_buttons b) = ws" "g_button_count b = cfg_count c" "length (g_buttons b) = cfg_count c"
    using board_button_initialize_eq [of "board (the_low s)" c g "hw s"] assms by (auto simp: btn_boot_def)
  define s1 where "s1 = upd_upper (\<lambda>u. \<lparr>bu_sample = 0, bu_enabled = False, bu_open = [], bu_wdog = False\<rparr>)
    (upd_low (\<lambda>l. l\<lparr>board := b, g_btnnum := cfg_count c\<rparr>) (on_hw (\<lambda>_. ?h) s))"
  have s1: "hw s1 = ?h" "board (the_low s1) = b" "g_btnnum (the_low s1) = cfg_count c"
    "g_gpio_callbacks s1 = g_gpio_callbacks s" "g_irqvector s1 = g_irqvector s"
    by (simp_all add: s1_def upd_upper_def the_low_def upd_low_def)
  have "exti_start (on_hw (\<lambda>_. ?h) s)"
    using assms(1) pin_steps_writes [OF pin_steps_config_all [of ws "hw s"]] by (simp add: exti_start_hw btn_boot_def)
  then have st: "exti_start s1" using s1 by (simp add: exti_start_env [of s1 "on_hw (\<lambda>_. ?h) s"])
  have "gpio_loc ` ((!) (g_buttons b) ` {0..<cfg_count c}) = gpio_loc ` set ws"
    using b(2-4) by (simp only: nth_image order_refl)
  then have locs: "(\<lambda>i. gpio_loc (g_buttons b ! i)) ` set [0..<cfg_count c] = gpio_loc ` set ws"
    by (simp add: image_image)
  have prem: "list_all gpio_valid (take (g_button_count b) (g_buttons b))"
    "\<forall>c \<in> set (take (g_button_count b) (g_buttons b)). cfg_of c = pin_reset" "g_button_count b \<le> length (g_buttons b)"
    "\<forall>i \<in> set [0..<cfg_count c]. i < g_button_count b"
    unfolding b(2) using pins b(3,4) by auto
  note d = disable_none [OF st s1(2) prem, unfolded locs s1(1)]
  obtain r t where rt: "btn_register reserve (Some a) devname g_btnlower
      (upd_low (\<lambda>l. l\<lparr>board := b, g_btnnum := cfg_count c\<rparr>) (on_hw (\<lambda>_. ?h) s)) = (r, t)" by (rule prod.exhaust)
  have nl: "the_low (x\<lparr>env := (env x)\<lparr>b_nodes := ns\<rparr>\<rparr>) = the_low x" for x :: "'e bstate" and ns
    by (simp add: the_low_def)
  have t: "hw t = hw (disable_loop [0..<cfg_count c] s1)" "g_gpio_callbacks t = g_gpio_callbacks (disable_loop [0..<cfg_count c] s1)"
    "g_irqvector t = g_irqvector (disable_loop [0..<cfg_count c] s1)" "g_btnnum (the_low t) = cfg_count c"
    "board (the_low t) = b"
    using rt s1(2,3) by (auto simp: btn_register_def s1_def [symmetric] g_btnlower_def btnl_enable_def btnl_disable_def
        split_beta Let_def nl)
  have "btn_locs t = gpio_loc ` set ws" using locs by (simp add: btn_locs_def t(4,5) atLeast0LessThan)
  moreover have "btn_lower_initialize c g reserve (Some a) devname s = Some (r, t)"
    by (simp add: btn_lower_initialize_def b(1) Let_def rt)
  moreover have "exti_start t" using d exti_start_env [OF t(1-3)] by simp
  moreover have "gpio_abs (hw t) p = (if p \<in> gpio_loc ` set ws then Some pin_reset else gpio_abs (hw s) p)" for p
    unfolding t(1) d [THEN conjunct2, THEN conjunct2, rule_format] config_buttons_view(2) [OF assms(2)] by simp
  moreover have "level_abs (hw t) = level_abs (hw s)"
    unfolding t(1) d [THEN conjunct2, THEN conjunct1] by (rule config_buttons_view(1) [OF assms(2)])
  ultimately show ?thesis using t(4) by blast
qed

lemma btn_step:
  assumes "input_buttons cfg = Some c" "k_btn k = Some a" "spec_buttons c = Some ws" "distinct (map gpio_pin ws)"
    "btn_boot c (as_btn s)"
  shows "\<exists>r t. nucleo_input_initialize k cfg s = Some (r, t) \<and> exti_start t \<and> btn_lower.binv Map.empty (as_btn t) \<and>
     g_btnnum (the_low (as_btn t)) = cfg_count c \<and> btn_locs (as_btn t) = gpio_loc ` set ws \<and>
     level_abs (hw t) = level_abs (hw s) \<and>
     (\<forall>p. gpio_abs (hw t) p = (if p \<in> gpio_loc ` set ws then Some pin_reset else gpio_abs (hw s) p)) \<and>
     gpio_part (env t) = gpio_part (env s) \<and> led_part (env t) = led_part (env s) \<and>
     led_count (env t) = led_count (env s) \<and> spi_part (env t) = spi_part (env s)"
proof -
  obtain r t where t: "btn_lower_initialize c (k_strtok k) (k_reserve k) (Some a) ''/dev/buttons'' (as_btn s) = Some (r, t)"
    "exti_start t" "g_btnnum (the_low t) = cfg_count c" "btn_locs t = gpio_loc ` set ws"
    "level_abs (hw t) = level_abs (hw s)" "\<forall>p. gpio_abs (hw t) p = (if p \<in> gpio_loc ` set ws then Some pin_reset else gpio_abs (hw s) p)"
    using btn_start [OF assms(5,3), of "k_strtok k" "k_reserve k" a "''/dev/buttons''"] by (auto simp: as_btn_def)
  have "btn_lower.binv Map.empty t"
    using assms(3,4) by (intro init_inv [OF assms(5) _ t(1)]) (simp add: good_config_def)
  let ?u = "\<lparr>hw = hw t, g_gpio_callbacks = g_gpio_callbacks t, g_irqvector = g_irqvector t,
        env = (env s)\<lparr>btn_part := env t, nodes := b_nodes (env t)\<rparr>\<rparr>"
  have "as_btn ?u = t" by (simp add: as_btn_def)
  moreover have "nucleo_input_initialize k cfg s = Some (r, ?u)"
    using t(1) by (simp add: nucleo_input_initialize_def assms(1,2) via_btn_def of_btn_def)
  moreover have "exti_start ?u" using t(2) exti_start_env [of ?u t] by simp
  ultimately show ?thesis using t \<open>btn_lower.binv Map.empty t\<close> by simp
qed

lemma btn_keeps:
  assumes "btn_lower.binv Map.empty (as_btn s)" "exti_start s" "exti_start t" "btn_part (env t) = btn_part (env s)"
  shows "btn_lower.binv Map.empty (as_btn t)" "the_low (as_btn t) = the_low (as_btn s)"
proof -
  have low: "the_low (as_btn t) = the_low (as_btn s)" "the_upper (as_btn t) = the_upper (as_btn s)"
    using assms(4) by (simp_all add: as_btn_def the_low_def the_upper_def)
  then show "the_low (as_btn t) = the_low (as_btn s)" by simp
  have e: "exti_inv (as_btn t)" "\<forall>q < 16. callback (g_gpio_callbacks (as_btn t) ! q) = None"
    "\<forall>q < 16. callback (g_gpio_callbacks (as_btn s) ! q) = None"
    using assms(2,3) exti_start_env [of "as_btn t" t] exti_start_env [of "as_btn s" s]
    by (simp_all add: exti_start_iff) (simp_all add: as_btn_def)
  have p: "btn_pin (as_btn t) = btn_pin (as_btn s)" by (simp add: btn_pin_def low fun_eq_iff)
  have "btn_armed (as_btn t) = {}" "btn_armed (as_btn s) = {}"
    using e(2,3) by (auto simp: btn_armed_def)
  moreover have "btn_ready Map.empty (as_btn t)"
    using assms(1) e by (simp add: btn_ready_def btn_lower.binv_def p low)
  ultimately show "btn_lower.binv Map.empty (as_btn t)"
    using assms(1) by (simp add: btn_lower.binv_def btn_lower.sup_def btn_supported_def low)
qed

lemma spi_step:
  assumes "length (spi_cfgs cfg) = 6" "length (spi_part (env s)) = 6" "list_all (\<lambda>b. length (cs_pins b) = 8) (spi_part (env s))"
    "\<forall>c \<in> set (spi_cfgs cfg). spi_enable c \<longrightarrow> spec_cs 8 (cs_pins_str c) \<noteq> None" "exti_start s"
  shows "\<exists>r t. spi_start k cfg s = Some (r, t) \<and> exti_start t \<and> pin_steps (cs_locs (spi_cfgs cfg)) (hw s) (hw t) \<and>
     (\<forall>p \<in> cs_locs (spi_cfgs cfg). cs_idle (hw t) p) \<and> cs_table (spi_cfgs cfg) (spi_part (env t)) \<and>
     gpio_part (env t) = gpio_part (env s) \<and> btn_part (env t) = btn_part (env s) \<and> led_part (env t) = led_part (env s) \<and> led_count (env t) = led_count (env s)"
proof -
  have good: "\<not> (\<exists>n < 6. spi_enable (spi_cfgs cfg ! n) \<and> spec_cs 8 (cs_pins_str (spi_cfgs cfg ! n)) = None)"
    using assms(1,4) nth_mem [of _ "spi_cfgs cfg"] by auto
  obtain r bs h where init: "stm32_spi_initialize (spi_cfgs cfg) (spi_part (env s)) (k_strtok k) (hw s) = Some (r, bs, h)"
    "\<forall>n < 6. cs_ready (spi_cfgs cfg ! n, bs ! n) h" "list_all (\<lambda>b. length (cs_pins b) = 8) bs" "length bs = 6"
    using spi_initialize_result [OF assms(1-3), of "k_strtok k" "hw s"] unfolding if_not_P [OF good] by blast
  have steps: "pin_steps (cs_locs (spi_cfgs cfg)) (hw s) h" by (rule pin_steps_spi [OF assms(1-3) init(1)])
  have "cs_idle h p" if p: "p \<in> cs_locs (spi_cfgs cfg)" for p
  proof -
    obtain n c where n: "n < 6" "spi_enable (spi_cfgs cfg ! n)"
      "p \<in> (case spec_cs 8 (cs_pins_str (spi_cfgs cfg ! n)) of None \<Rightarrow> {} | Some ws \<Rightarrow> gpio_loc ` set ws)"
      using p assms(1) by (auto simp: cs_locs_def in_set_conv_nth)
    then show ?thesis using init(2) by (auto simp: cs_ready_def)
  qed
  moreover let ?t = "s\<lparr>hw := h, env := (env s)\<lparr>spi_part := bs\<rparr>\<rparr>"
  have "exti_start ?t"
    using exti_start_hw [OF assms(5) pin_steps_writes [OF steps]] exti_start_env [of ?t "on_hw (\<lambda>_. h) s"] by simp
  moreover have "spi_start k cfg s = Some (r, ?t)" by (simp add: spi_start_def via_spi_def init(1))
  ultimately show ?thesis using steps cs_ready_table [OF init(2-4)] by simp
qed

lemma gpio_step:
  assumes "dev_gpio cfg" "gpio_boot (as_gpio s)"
  shows "\<exists>t. nucleo_gpio_initialize k cfg s = Some (OK, t) \<and> exti_start t \<and> gpint_inv Map.empty (as_gpio t) \<and>
     register_count (gdev 4 (as_gpio t)) = 0 \<and> btn_part (env t) = btn_part (env s) \<and>
     led_part (env t) = led_part (env s) \<and> led_count (env t) = led_count (env s) \<and> spi_part (env t) = spi_part (env s) \<and>
     gpio_abs (hw t) = (gpio_abs (hw s))((2, 13) \<mapsto> cfg_of GPIO_BTN_BUILT_IN, (1, 0) \<mapsto> cfg_of LED_FLAGS,
       (4, 1) \<mapsto> cfg_of LED_FLAGS, (1, 14) \<mapsto> cfg_of LED_FLAGS, (4, 5) \<mapsto> pin_reset) \<and>
     level_abs (hw t) = (level_abs (hw s))((1, 0) \<mapsto> False, (4, 1) \<mapsto> False, (1, 14) \<mapsto> False)"
proof -
  let ?g = "gpio_ready_state (k_reserve k) (as_gpio s)"
  let ?t = "\<lparr>hw = hw ?g, g_gpio_callbacks = g_gpio_callbacks ?g, g_irqvector = g_irqvector ?g,
        env = (env s)\<lparr>gpio_part := env ?g, nodes := inodes (env ?g)\<rparr>\<rparr>"
  have t: "nucleo_gpio_initialize k cfg s = Some (OK, ?t)"
    by (simp add: nucleo_gpio_initialize_def assms(1) via_gpio_def of_gpio_def gpio_initialize_eq)
  have as: "as_gpio ?t = ?g" by (simp add: as_gpio_def)
  have inv: "gpint_inv Map.empty ?g" "register_count (gdev 4 ?g) = 0" using gpio_initialize_inv [OF assms(2)] by auto
  have "callback (g_gpio_callbacks ?g ! q) = None" if "q < 16" for q
    using inv that by (cases "q = 5") (simp_all add: gpint_inv_def)
  then have "exti_start ?g" using inv(1) by (simp add: exti_start_iff gpint_inv_def)
  then have "exti_start ?t" using exti_start_env [of ?t ?g] by simp
  moreover have "gpio_abs (hw ?g) = (gpio_abs (hw s))((2, 13) \<mapsto> cfg_of GPIO_BTN_BUILT_IN, (1, 0) \<mapsto> cfg_of LED_FLAGS,
       (4, 1) \<mapsto> cfg_of LED_FLAGS, (1, 14) \<mapsto> cfg_of LED_FLAGS, (4, 5) \<mapsto> pin_reset)"
    "level_abs (hw ?g) = (level_abs (hw s))((1, 0) \<mapsto> False, (4, 1) \<mapsto> False, (1, 14) \<mapsto> False)"
    by (simp_all add: gpio_ready_state_def) (simp_all add: as_gpio_def)
  ultimately show ?thesis using t as inv by (intro exI [of _ ?t]) simp
qed

subsection \<open>The board after the bring-up\<close>

lemma run_append:
  "run_steps xs s = Some (rs, t) \<Longrightarrow> run_steps ys t = Some (rs', u) \<Longrightarrow> run_steps (xs @ ys) s = Some (rs @ rs', u)"
proof (induction xs arbitrary: s rs)
  case (Cons x xs)
  obtain b f where x: "x = (b, f)" by (rule prod.exhaust)
  obtain r s1 rs1 where "f s = Some (r, s1)" "run_steps xs s1 = Some (rs1, t)" "rs = (if b then r # rs1 else rs1)"
    using Cons.prems(1) by (auto simp: x split: option.splits)
  with Cons.IH [OF this(2) Cons.prems(2)] show ?case by (simp add: x)
qed simp

lemma run_four:
  assumes "f s = Some (r, s1)" "run_steps fs s1 = Some (rs, s2)" "f' s2 = Some (r', s3)" "run_steps fs' s3 = Some (rs', s4)"
  shows "\<exists>rs. run_steps ([(b, f)] @ fs @ [(b', f')] @ fs') s = Some (rs, s4)"
  using assms run_append [OF assms(2), of "(b', f') # fs'"] by simp

lemma run_keeps:
  assumes "list_all (\<lambda>(b, f). \<forall>s. \<exists>r t. f s = Some (r, t) \<and> keeps P s t) fs"
  shows "\<exists>rs t. run_steps fs s = Some (rs, t) \<and> keeps P s t"
  using assms
proof (induction fs arbitrary: s)
  case (Cons x fs)
  obtain b f where x: "x = (b, f)" by (rule prod.exhaust)
  have "\<exists>r t. f s = Some (r, t) \<and> keeps P s t" using Cons.prems x by simp
  then obtain r t where 1: "f s = Some (r, t)" "keeps P s t" by blast
  have "list_all (\<lambda>(b, f). \<forall>s. \<exists>r t. f s = Some (r, t) \<and> keeps P s t) fs" using Cons.prems by simp
  from Cons.IH [OF this, of t] obtain rs u where 2: "run_steps fs t = Some (rs, u)" "keeps P t u" by blast
  from 1 2 show ?case using keeps_trans [OF 1(2) 2(2)] by (simp add: x)
qed simp

lemma gpio_part_keeps:
  assumes "gpio_part (env t) = gpio_part (env s)" "exti_start t"
  shows "gpio_boot (as_gpio s) \<Longrightarrow> gpio_boot (as_gpio t)"
    "gpint_inv Map.empty (as_gpio s) \<Longrightarrow> g_gpio_callbacks t = g_gpio_callbacks s \<Longrightarrow> gpint_inv Map.empty (as_gpio t)"
    "register_count (gdev 4 (as_gpio t)) = register_count (gdev 4 (as_gpio s))"
proof -
  have "exti_start (as_gpio t)" using assms(2) exti_start_env [of "as_gpio t" t] by (simp add: as_gpio_def)
  moreover have "gdev n (as_gpio t) = gdev n (as_gpio s)" "fault (env (as_gpio t)) = fault (env (as_gpio s))" for n
    using assms(1) by (simp_all add: as_gpio_def gdev_def)
  moreover have "g_gpio_callbacks (as_gpio u) = g_gpio_callbacks u" for u :: "'a board" by (simp add: as_gpio_def)
  ultimately show "gpio_boot (as_gpio s) \<Longrightarrow> gpio_boot (as_gpio t)"
    "gpint_inv Map.empty (as_gpio s) \<Longrightarrow> g_gpio_callbacks t = g_gpio_callbacks s \<Longrightarrow> gpint_inv Map.empty (as_gpio t)"
    "register_count (gdev 4 (as_gpio t)) = register_count (gdev 4 (as_gpio s))"
    by (simp_all add: gpio_boot_def gpint_inv_def exti_start_iff gpio_ready_def)
qed

definition board_boot :: "btn_config \<Rightarrow> 'e board \<Rightarrow> bool" where
  "board_boot c s \<longleftrightarrow>
     gpio_boot (as_gpio s) \<and> btn_boot c (as_btn s) \<and>
     length (spi_part (env s)) = 6 \<and> list_all (\<lambda>b. length (cs_pins b) = 8) (spi_part (env s))"

definition board_pins :: "bringup_cfg \<Rightarrow> u32 list \<Rightarrow> (nat \<times> nat) set" where
  "board_pins cfg ws = led_pins \<union> {(2, 13), (4, 5)} \<union> gpio_loc ` set ws \<union> cs_locs (spi_cfgs cfg)"

lemma built_in_cfg: "cfg_of GPIO_BTN_BUILT_IN = pin_reset"
  by (simp add: built_in_word pin_word_flags btn.flags_ok)
    (simp add: cfg_of_def pin_reset_def BTN_FLAGS_def gpio_consts reg_field_def Let_def take_bit_eq_mod drop_bit_eq_div)

text \<open>The sequence in four stretches that keep the pins, between the four drivers that are modelled.\<close>

definition steps1 :: "kernel \<Rightarrow> bringup_cfg \<Rightarrow> 'e ext_fns \<Rightarrow> (bool \<times> ('e board \<Rightarrow> (int \<times> 'e board) option)) list" where
  "steps1 k cfg ext = take 3 (drop 1 (bringup_steps k cfg ext))"
definition steps2 :: "kernel \<Rightarrow> bringup_cfg \<Rightarrow> 'e ext_fns \<Rightarrow> (bool \<times> ('e board \<Rightarrow> (int \<times> 'e board) option)) list" where
  "steps2 k cfg ext = take 2 (drop 5 (bringup_steps k cfg ext))"
definition steps3 :: "kernel \<Rightarrow> bringup_cfg \<Rightarrow> 'e ext_fns \<Rightarrow> (bool \<times> ('e board \<Rightarrow> (int \<times> 'e board) option)) list" where
  "steps3 k cfg ext = take 2 (drop 8 (bringup_steps k cfg ext))"
definition steps4 :: "kernel \<Rightarrow> bringup_cfg \<Rightarrow> 'e ext_fns \<Rightarrow> (bool \<times> ('e board \<Rightarrow> (int \<times> 'e board) option)) list" where
  "steps4 k cfg ext = drop 11 (bringup_steps k cfg ext)"

lemmas steps_defs = steps1_def steps2_def steps3_def steps4_def

lemma bringup_stretches:
  "bringup_steps k cfg ext =
     [(True, \<lambda>s. Some (nucleo_led_initialize k cfg s))] @ steps1 k cfg ext @ [(True, nucleo_input_initialize k cfg)] @
     steps2 k cfg ext @ [(False, spi_start k cfg)] @ steps3 k cfg ext @ [(True, nucleo_gpio_initialize k cfg)] @ steps4 k cfg ext"
  by (simp add: steps_defs bringup_steps_def)

lemma stretches_keep:
  assumes "ext_frame P ext" "plain_cfg cfg" "other_pins cfg \<inter> P = {}" "fs \<in> {steps1 k cfg ext, steps2 k cfg ext, steps3 k cfg ext, steps4 k cfg ext}"
  shows "\<exists>rs t. run_steps fs s = Some (rs, t) \<and> keeps P s t"
proof (rule run_keeps)
  have some: "(\<exists>r t. x = (r, t) \<and> keeps P s t) \<longleftrightarrow> keeps P s (snd x)" for x :: "int \<times> 'a board" and s
    by (cases x) simp
  note keep = early_keep [OF assms(1,2)] adc_keep [OF assms(1,3)] sensors_keep [OF assms(1,3)] late_keep [OF assms(1,2)]
  show "list_all (\<lambda>(b, f). \<forall>s. \<exists>r t. f s = Some (r, t) \<and> keeps P s t) fs"
    using assms(4) unfolding steps_defs bringup_steps_def
    by (elim insertE emptyE; hypsubst) (simp_all add: some keep)
qed

text \<open>What holds after each of the drivers, of the pins it owns and of its data.\<close>

definition leds_up :: "'e board \<Rightarrow> bool" where
  "leds_up s \<longleftrightarrow> led_part (env s) = \<lparr>lu_supported = userled_supported 3, lu_ledset = 0, lu_open = []\<rparr> \<and> led_count (env s) = 3"

definition pins_up :: "bringup_cfg \<Rightarrow> u32 list \<Rightarrow> 'e board \<Rightarrow> bool" where
  "pins_up cfg ws s \<longleftrightarrow>
     (\<forall>p \<in> cs_locs (spi_cfgs cfg). cs_idle (hw s) p) \<and>
     (\<forall>p \<in> gpio_loc ` set ws. gpio_abs (hw s) p = Some pin_reset) \<and>
     (\<forall>p \<in> led_pins. pin_view (hw s) p = (Some (cfg_of LED_FLAGS), Some False))"

lemma keepsD:
  assumes "keeps P s t" "exti_start s"
  shows "exti_start t" "gpio_part (env t) = gpio_part (env s)" "btn_part (env t) = btn_part (env s)"
    "leds_up t = leds_up s" "spi_part (env t) = spi_part (env s)" "g_gpio_callbacks t = g_gpio_callbacks s"
    "p \<in> P \<Longrightarrow> pin_view (hw t) p = pin_view (hw s) p"
  using assms by (simp_all add: keeps_def parts_def leds_up_def)

lemma idle_view: "cs_idle h p \<longleftrightarrow> pin_view h p = (Some (cfg_of SPI_FLAGS), Some True)"
  by (auto simp: cs_idle_def pin_view_def)

text \<open>
  The assumptions on a configuration: the user LEDs, the buttons and the GPIO devices are on; there is no radio, no USB host and
  no partition for firmware updates (\<open>plain_cfg\<close>); the memory for the LED and the button driver can be allocated; the pin lists
  parse, and no pin is claimed twice (the button of the board excepted, which is a GPIO device
  too), nor the interrupt line of a button by another button. The drivers that are not modelled leave the board's pins and lines alone (\<open>ext_frame\<close>).
\<close>

definition good_board :: "kernel \<Rightarrow> bringup_cfg \<Rightarrow> 'e ext_fns \<Rightarrow> btn_config \<Rightarrow> u32 list \<Rightarrow> bool" where
  "good_board k cfg ext c ws \<longleftrightarrow>
     leds_user cfg \<and> dev_gpio cfg \<and> input_buttons cfg = Some c \<and> plain_cfg cfg \<and> k_led k \<noteq> None \<and> k_btn k \<noteq> None \<and>
     spec_buttons c = Some ws \<and> distinct (map gpio_pin ws) \<and>
     length (spi_cfgs cfg) = 6 \<and> list_all (\<lambda>c. spi_enable c \<longrightarrow> spec_cs 8 (cs_pins_str c) \<noteq> None) (spi_cfgs cfg) \<and>
     cs_locs (spi_cfgs cfg) \<inter> (led_pins \<union> {(2, 13), (4, 5)} \<union> gpio_loc ` set ws) = {} \<and>
     gpio_loc ` set ws \<inter> led_pins = {} \<and> other_pins cfg \<inter> board_pins cfg ws = {} \<and> ext_frame (board_pins cfg ws) ext"

lemma front_half:
  assumes "good_board k cfg ext c ws" "board_boot c s"
  shows "\<exists>rs t. run_steps ([(True, \<lambda>s. Some (nucleo_led_initialize k cfg s))] @ steps1 k cfg ext @
       [(True, nucleo_input_initialize k cfg)] @ steps2 k cfg ext) s = Some (rs, t) \<and>
     exti_start t \<and> leds_up t \<and> btn_lower.binv Map.empty (as_btn t) \<and> g_btnnum (the_low (as_btn t)) = cfg_count c \<and>
     btn_locs (as_btn t) = gpio_loc ` set ws \<and> gpio_part (env t) = gpio_part (env s) \<and> spi_part (env t) = spi_part (env s) \<and>
     (\<forall>p \<in> gpio_loc ` set ws. gpio_abs (hw t) p = Some pin_reset)"
proof -
  let ?P = "board_pins cfg ws"
  note g = assms(1) [unfolded good_board_def]
  have keep: "\<exists>rs t. run_steps fs s = Some (rs, t) \<and> keeps ?P s t" if "fs \<in> {steps1 k cfg ext, steps2 k cfg ext, steps3 k cfg ext, steps4 k cfg ext}" for fs s
    using stretches_keep [of ?P ext cfg fs k s] g that by blast
  have cfg: "input_buttons cfg = Some c" "spec_buttons c = Some ws" "distinct (map gpio_pin ws)" "leds_user cfg"
    using g by blast+
  obtain a where a: "k_led k = Some a" using g by auto
  obtain b where b: "k_btn k = Some b" using g by auto
  have st: "exti_start s" using assms(2) exti_start_env [of "as_btn s" s] by (simp add: board_boot_def btn_boot_def as_btn_def)
  obtain r1 s1 where 1: "nucleo_led_initialize k cfg s = (r1, s1)" "exti_start s1" "leds_up s1"
    "gpio_part (env s1) = gpio_part (env s)" "btn_part (env s1) = btn_part (env s)" "spi_part (env s1) = spi_part (env s)"
    using led_step [OF cfg(4) a, of s] st by (auto simp: leds_up_def)
  obtain rs2 s2 where 2: "run_steps (steps1 k cfg ext) s1 = Some (rs2, s2)" "keeps ?P s1 s2" using keep by blast
  note k2 = keepsD [OF 2(2) 1(2)]
  have boot: "btn_boot c (as_btn s2)"
    using assms(2) k2(1,3) 1(5) exti_start_env [of "as_btn s2" s2]
    by (simp add: board_boot_def btn_boot_def as_btn_def the_low_def)
  obtain r3 s3 where 3: "nucleo_input_initialize k cfg s2 = Some (r3, s3)" "exti_start s3" "btn_lower.binv Map.empty (as_btn s3)"
    "g_btnnum (the_low (as_btn s3)) = cfg_count c" "btn_locs (as_btn s3) = gpio_loc ` set ws"
    "level_abs (hw s3) = level_abs (hw s2)"
    "\<forall>p. gpio_abs (hw s3) p = (if p \<in> gpio_loc ` set ws then Some pin_reset else gpio_abs (hw s2) p)"
    "gpio_part (env s3) = gpio_part (env s2)" "led_part (env s3) = led_part (env s2)"
    "led_count (env s3) = led_count (env s2)" "spi_part (env s3) = spi_part (env s2)"
    using btn_step [OF cfg(1) b cfg(2,3) boot] by (elim exE conjE) (rule that)
  obtain rs4 s4 where 4: "run_steps (steps2 k cfg ext) s3 = Some (rs4, s4)" "keeps ?P s3 s4" using keep by blast
  note k4 = keepsD [OF 4(2) 3(2)]
  note btn = btn_keeps [OF 3(3,2) k4(1,3)]
  have "gpio_abs (hw s4) p = Some pin_reset" if "p \<in> gpio_loc ` set ws" for p
    using k4(7) [of p] 3(7) [rule_format, of p] that by (simp add: pin_view_def board_pins_def)
  moreover obtain rs where run: "run_steps ([(True, \<lambda>s. Some (nucleo_led_initialize k cfg s))] @ steps1 k cfg ext @
       [(True, nucleo_input_initialize k cfg)] @ steps2 k cfg ext) s = Some (rs, s4)"
    using run_four [of "\<lambda>s. Some (nucleo_led_initialize k cfg s)" s r1 s1 "steps1 k cfg ext" rs2 s2
        "nucleo_input_initialize k cfg" r3 s3 "steps2 k cfg ext" rs4 s4 True True] 1(1) 2(1) 3(1) 4(1) by blast
  moreover have "leds_up s4" using k4(4) 3(9,10) k2(4) 1(3) by (simp add: leds_up_def)
  moreover have "gpio_part (env s4) = gpio_part (env s)" "spi_part (env s4) = spi_part (env s)"
    "g_btnnum (the_low (as_btn s4)) = cfg_count c" "btn_locs (as_btn s4) = gpio_loc ` set ws"
    using k4(2,5) 3(4,5,8,11) k2(2,5) 1(4,6) btn(2) by (simp_all add: btn_locs_def)
  ultimately show ?thesis using btn(1) k4(1) by blast
qed

lemma back_half:
  assumes "good_board k cfg ext c ws" "exti_start s" "leds_up s" "btn_lower.binv Map.empty (as_btn s)" "gpio_boot (as_gpio s)"
    "length (spi_part (env s)) = 6" "list_all (\<lambda>b. length (cs_pins b) = 8) (spi_part (env s))"
    "\<forall>p \<in> gpio_loc ` set ws. gpio_abs (hw s) p = Some pin_reset"
  shows "\<exists>rs t. run_steps ([(False, spi_start k cfg)] @ steps3 k cfg ext @ [(True, nucleo_gpio_initialize k cfg)] @ steps4 k cfg ext) s =
       Some (rs, t) \<and>
     exti_start t \<and> leds_up t \<and> btn_lower.binv Map.empty (as_btn t) \<and> the_low (as_btn t) = the_low (as_btn s) \<and>
     gpint_inv Map.empty (as_gpio t) \<and> register_count (gdev 4 (as_gpio t)) = 0 \<and> pins_up cfg ws t \<and>
     cs_table (spi_cfgs cfg) (spi_part (env t))"
proof -
  let ?P = "board_pins cfg ws" and ?C = "cs_locs (spi_cfgs cfg)"
  note g = assms(1) [unfolded good_board_def]
  have keep: "\<exists>rs t. run_steps fs s = Some (rs, t) \<and> keeps ?P s t" if "fs \<in> {steps1 k cfg ext, steps2 k cfg ext, steps3 k cfg ext, steps4 k cfg ext}" for fs s
    using stretches_keep [of ?P ext cfg fs k s] g that by blast
  obtain r1 s1 where 1: "spi_start k cfg s = Some (r1, s1)" "exti_start s1" "pin_steps ?C (hw s) (hw s1)"
    "\<forall>p \<in> ?C. cs_idle (hw s1) p" "gpio_part (env s1) = gpio_part (env s)" "btn_part (env s1) = btn_part (env s)" "leds_up s1"
    "cs_table (spi_cfgs cfg) (spi_part (env s1))"
    using spi_step [of cfg s k] g assms by (auto simp: leds_up_def list_all_iff)
  obtain rs2 s2 where 2: "run_steps (steps3 k cfg ext) s1 = Some (rs2, s2)" "keeps ?P s1 s2" using keep by blast
  note k2 = keepsD [OF 2(2) 1(2)]
  have "gpio_boot (as_gpio s2)" using gpio_part_keeps(1) [of s2 s] k2(1,2) 1(5) assms(5) by simp
  then obtain s3 where 3: "nucleo_gpio_initialize k cfg s2 = Some (OK, s3)" "exti_start s3" "gpint_inv Map.empty (as_gpio s3)"
    "register_count (gdev 4 (as_gpio s3)) = 0" "btn_part (env s3) = btn_part (env s2)" "leds_up s3 = leds_up s2"
    "gpio_abs (hw s3) = (gpio_abs (hw s2))((2, 13) \<mapsto> cfg_of GPIO_BTN_BUILT_IN, (1, 0) \<mapsto> cfg_of LED_FLAGS,
       (4, 1) \<mapsto> cfg_of LED_FLAGS, (1, 14) \<mapsto> cfg_of LED_FLAGS, (4, 5) \<mapsto> pin_reset)"
    "level_abs (hw s3) = (level_abs (hw s2))((1, 0) \<mapsto> False, (4, 1) \<mapsto> False, (1, 14) \<mapsto> False)"
    "spi_part (env s3) = spi_part (env s2)"
    using gpio_step [of cfg s2 k] g by (auto simp: leds_up_def)
  obtain rs4 s4 where 4: "run_steps (steps4 k cfg ext) s3 = Some (rs4, s4)" "keeps ?P s3 s4" using keep by blast
  note k4 = keepsD [OF 4(2) 3(2)]
  have cs: "pin_view (hw s3) p = pin_view (hw s1) p" if "p \<in> ?C" for p
  proof -
    have "p \<notin> led_pins \<union> {(2, 13), (4, 5)}" using g that by blast
    then show ?thesis using k2(7) [of p] that 3(7,8) by (auto simp: pin_view_def board_pins_def led_pins_def)
  qed
  have bt: "gpio_abs (hw s3) p = Some pin_reset" if "p \<in> gpio_loc ` set ws" for p
  proof -
    have "p \<notin> ?C" "p \<notin> led_pins" using g that by blast+
    then have "gpio_abs (hw s2) p = Some pin_reset"
      using pin_steps_other [OF 1(3), of p] k2(7) [of p] that assms(8) by (auto simp: pin_view_def board_pins_def)
    then show ?thesis using \<open>p \<notin> led_pins\<close> by (auto simp: 3(7) built_in_cfg led_pins_def)
  qed
  have "pin_view (hw s3) p = (Some (cfg_of LED_FLAGS), Some False)" if "p \<in> led_pins" for p
    using that by (auto simp: pin_view_def 3(7,8) led_pins_def)
  with cs bt have "pins_up cfg ws s4"
    using k4(7) 1(4) unfolding pins_up_def idle_view board_pins_def by (auto simp: pin_view_def)
  moreover obtain rs where "run_steps ([(False, spi_start k cfg)] @ steps3 k cfg ext @ [(True, nucleo_gpio_initialize k cfg)] @
      steps4 k cfg ext) s = Some (rs, s4)"
    using run_four [of "spi_start k cfg" s r1 s1 "steps3 k cfg ext" rs2 s2
        "nucleo_gpio_initialize k cfg" OK s3 "steps4 k cfg ext" rs4 s4 False True] 1(1) 2(1) 3(1) 4(1) by blast
  moreover note btn_keeps [of s s4] gpio_part_keeps [of s4 s3]
  ultimately show ?thesis using assms k4 k2 1 3 by auto
qed

lemma bringup_up:
  assumes "good_board k cfg ext c ws" "board_boot c s"
  shows "\<exists>ret s'. stm32_bringup k cfg ext s = Some (ret, s') \<and>
     gpint_inv Map.empty (as_gpio s') \<and> register_count (gdev 4 (as_gpio s')) = 0 \<and>
     btn_lower.binv Map.empty (as_btn s') \<and> btn_locs (as_btn s') = gpio_loc ` set ws \<and> g_btnnum (the_low (as_btn s')) = cfg_count c \<and>
     uled.led_ok (as_led s') \<and> lu_ledset (led_part (env s')) = 0 \<and> leds_lit (ledhw (as_led s')) = {} \<and>
     cs_table (spi_cfgs cfg) (spi_part (env s')) \<and> (\<forall>p \<in> cs_locs (spi_cfgs cfg). cs_idle (hw s') p) \<and>
     (\<forall>p \<in> gpio_loc ` set ws. gpio_abs (hw s') p = Some pin_reset) \<and>
     (\<forall>q < 16. \<not> int_enabled (exti_lines (hw s') q))"
proof -
  obtain rs t where t: "run_steps ([(True, \<lambda>s. Some (nucleo_led_initialize k cfg s))] @ steps1 k cfg ext @
       [(True, nucleo_input_initialize k cfg)] @ steps2 k cfg ext) s = Some (rs, t)"
    "exti_start t" "leds_up t" "btn_lower.binv Map.empty (as_btn t)" "g_btnnum (the_low (as_btn t)) = cfg_count c"
    "btn_locs (as_btn t) = gpio_loc ` set ws" "gpio_part (env t) = gpio_part (env s)" "spi_part (env t) = spi_part (env s)"
    "\<forall>p \<in> gpio_loc ` set ws. gpio_abs (hw t) p = Some pin_reset"
    using front_half [OF assms] by blast
  have boot: "gpio_boot (as_gpio t)" "length (spi_part (env t)) = 6" "list_all (\<lambda>b. length (cs_pins b) = 8) (spi_part (env t))"
    using assms(2) gpio_part_keeps(1) [OF t(7,2)] t(8) by (simp_all add: board_boot_def)
  obtain rs' u where u: "run_steps ([(False, spi_start k cfg)] @ steps3 k cfg ext @ [(True, nucleo_gpio_initialize k cfg)] @
      steps4 k cfg ext) t = Some (rs', u)" "exti_start u" "leds_up u" "btn_lower.binv Map.empty (as_btn u)"
    "the_low (as_btn u) = the_low (as_btn t)" "gpint_inv Map.empty (as_gpio u)" "register_count (gdev 4 (as_gpio u)) = 0" "pins_up cfg ws u"
    "cs_table (spi_cfgs cfg) (spi_part (env u))"
    using back_half [OF assms(1) t(2-4) boot t(9)] by blast
  have "run_steps (bringup_steps k cfg ext) s = Some (rs @ rs', u)"
    using run_append [OF t(1) u(1)] unfolding bringup_stretches by (simp only: append_assoc)
  then have run: "stm32_bringup k cfg ext s = Some (first_failure (rs @ rs'), u)"
    unfolding bringup_chain run_chain_steps by simp
  have led: "lu_ledset (led_part (env u)) = 0" "uled.led_ok (as_led u)"
    using u(3) by (simp_all add: leds_up_def uled.led_ok_def as_led_def leds_ready_def)
  have "led_loc i \<in> led_pins" if "i < 3" for i using that by (auto simp: below_3 led_pins_def)
  then have "leds_lit (ledhw (as_led u)) = {}"
    using u(8) by (auto simp: leds_lit_def as_led_def pins_up_def pin_view_def)
  moreover have "\<forall>q < 16. \<not> int_enabled (exti_lines (hw u) q)"
    using u(2) by (simp add: exti_start_def list_all_length)
  ultimately show ?thesis using run led u t(5,6) by (simp add: pins_up_def btn_locs_def)
qed

text \<open>
  C2. The board comes up. From the zeroed state of start-up, for a configuration with the user LEDs, the buttons and the GPIO
  devices, whose pin lists parse and claim no pin and no interrupt line of a button twice, and without the radio, the USB host and the
  partitions for firmware updates, if the memory for the drivers can be allocated, the bring-up returns, and afterwards: the GPIO devices are
  ready with nobody registered; the button driver is, for the configured number of buttons;
  the LED driver is in step with its LEDs, which are all off; every chip select is an output and
  inactive, every button a floating input; and no interrupt line is unmasked. This is so
  whatever the other subsystems return, as long as their drivers leave these pins and the lines alone. The
  three that are left out do not: the radio and the USB host attach handlers to lines of their own, and the alignment of an update partition is asserted.
\<close>

theorem bringup_board_up:
  assumes "good_board k cfg ext c ws" "board_boot c s"
  shows "\<exists>ret s'. stm32_bringup k cfg ext s = Some (ret, s') \<and>
     gpint_inv Map.empty (as_gpio s') \<and> register_count (gdev 4 (as_gpio s')) = 0 \<and>
     btn_lower.binv Map.empty (as_btn s') \<and> g_btnnum (the_low (as_btn s')) = cfg_count c \<and>
     uled.led_ok (as_led s') \<and> lu_ledset (led_part (env s')) = 0 \<and> leds_lit (ledhw (as_led s')) = {} \<and>
     (\<forall>p \<in> cs_locs (spi_cfgs cfg). cs_idle (hw s') p) \<and>
     (\<forall>p \<in> gpio_loc ` set ws. gpio_abs (hw s') p = Some pin_reset) \<and>
     (\<forall>q < 16. \<not> int_enabled (exti_lines (hw s') q))"
  using bringup_up [OF assms] by (elim exE conjE) (intro exI conjI; assumption)

definition demo_kernel :: kernel where
  "demo_kernel = \<lparr>k_reserve = eexist_reserve, k_led = Some 20, k_btn = Some 21, k_strtok = None\<rparr>"

definition demo_bringup :: bringup_cfg where
  "demo_bringup =
     \<lparr>leds_user = True, fs_procfs = Some ''/proc'', romfs = None, i2ctool = True, i2c_on = (\<lambda>n. n = 1), have_rtc = True,
      input_buttons = Some demo_cfg, usbhost_classes = None, have_usbmonitor = False, cdcacm = True, rndis_mac = None,
      pca9635pw = True, wl_nrf24l01 = False, spi_cfgs = demo_spi_cfgs, spi_driver = True, spi_port_on = (\<lambda>n. n = 1 \<or> n = 3),
      adc_on = Some (False, True, True), dev_gpio = True, lsm6dsl = True, lsm9ds1 = False, lsm303agr = False, mmcsd_minor = Some 0,
      progmem = None, pwm_on = Some True, capture_on = None, iwdg = False\<rparr>"

definition demo_board :: "nat board" where
  "demo_board =
     \<lparr>hw = hw gpio_start, g_gpio_callbacks = g_gpio_callbacks gpio_start, g_irqvector = g_irqvector gpio_start,
      env = \<lparr>gpio_part = env gpio_start, btn_part = env bstart,
             led_part = \<lparr>lu_supported = 0, lu_ledset = 0, lu_open = []\<rparr>, led_count = 0, spi_part = demo_spi_buses,
             adc_initialized = False, pwm_initialized = False, g_progmem_mtd = 0, g_usbconn = 0, nodes = []\<rparr>\<rparr>"

definition demo_ext :: "nat ext_fns" where
  "demo_ext c s = (if c = stm32_rtc_lowerhalf then 0 else 1, s)"

lemma demo_board_boot: "board_boot demo_cfg demo_board"
proof -
  have "exti_start gpio_start" using gpio_start_boot by (simp add: gpio_boot_def)
  then have e: "exti_start (as_gpio demo_board)" "exti_start (as_btn demo_board)"
    by (simp_all add: demo_board_def as_gpio_def as_btn_def exti_start_def)
  have "gdev 4 (as_gpio demo_board) = gdev 4 gpio_start" "fault (env (as_gpio demo_board)) = fault (env gpio_start)"
    "the_low (as_btn demo_board) = the_low bstart"
    by (simp_all add: demo_board_def as_gpio_def as_btn_def gdev_def the_low_def)
  with e show ?thesis
    using gpio_start_boot bstart_boot demo_spi_ok(2,3)
    by (simp add: board_boot_def gpio_boot_def btn_boot_def) (simp add: demo_board_def)
qed

lemma adc_loc: "port < 8 \<Longrightarrow> pin < 16 \<Longrightarrow> gpio_loc (adc_pin port pin) = (port, pin)"
proof -
  have "flag_word GPIO_ANALOG" by (simp add: flag_word_def gpio_consts take_bit_eq_mod)
  moreover have "adc_pin port pin = pin_word GPIO_ANALOG port pin" by (simp add: adc_pin_def pin_word_def or.assoc)
  ultimately show "port < 8 \<Longrightarrow> pin < 16 \<Longrightarrow> ?thesis" by (simp add: gpio_loc_def pin_word_parts)
qed

lemma demo_locs:
  "cs_locs demo_spi_cfgs = {(3, 14), (5, 12), (0, 4)}"
  "gpio_loc ` set [pin_word BTN_FLAGS 2 13, pin_word BTN_FLAGS 0 0, pin_word BTN_FLAGS 6 14] = {(2, 13), (0, 0), (6, 14)}"
  "other_pins demo_bringup = {(1, 10), (5, 13), (0, 6), (0, 2), (2, 4), (2, 5), (2, 1)}"
proof -
  show "cs_locs demo_spi_cfgs = {(3, 14), (5, 12), (0, 4)}"
    by (auto simp: cs_locs_def demo_spi_cfgs_def demo_spi_spec gpio_loc_def pin_word_parts spi.flags_ok)
  show "gpio_loc ` set [pin_word BTN_FLAGS 2 13, pin_word BTN_FLAGS 0 0, pin_word BTN_FLAGS 6 14] = {(2, 13), (0, 0), (6, 14)}"
    by (simp add: gpio_loc_def pin_word_parts btn.flags_ok)
  have f: "flag_word 0" by (simp add: flag_word_def)
  have w: "GPIO_LPS22HB_INT1 = pin_word 0 1 10" by (simp add: GPIO_LPS22HB_INT1_def pin_word_def gpio_consts)
  have "gpio_loc GPIO_LPS22HB_INT1 = (1, 10)" unfolding w gpio_loc_def by (simp add: pin_word_parts f)
  then show "other_pins demo_bringup = {(1, 10), (5, 13), (0, 6), (0, 2), (2, 4), (2, 5), (2, 1)}"
    by (auto simp: other_pins_def demo_bringup_def adc_table_def g_adc2_pinlist_def g_adc3_pinlist_def adc_loc)
qed

lemma demo_board_good:
  "good_board demo_kernel demo_bringup demo_ext demo_cfg [pin_word BTN_FLAGS 2 13, pin_word BTN_FLAGS 0 0, pin_word BTN_FLAGS 6 14]"
proof -
  have pins: "distinct (map gpio_pin [pin_word BTN_FLAGS 2 13, pin_word BTN_FLAGS 0 0, pin_word BTN_FLAGS 6 14])"
    by (simp add: pin_word_parts btn.flags_ok)
  have spi: "spi_cfgs demo_bringup = demo_spi_cfgs" "length demo_spi_cfgs = 6"
    "list_all (\<lambda>c. spi_enable c \<longrightarrow> spec_cs 8 (cs_pins_str c) \<noteq> None) demo_spi_cfgs"
    by (simp_all add: demo_bringup_def demo_spi_cfgs_def demo_spi_spec)
  have frame: "ext_frame P demo_ext" for P by (simp add: ext_frame_def demo_ext_def)
  have cfg: "leds_user demo_bringup" "dev_gpio demo_bringup" "input_buttons demo_bringup = Some demo_cfg" "plain_cfg demo_bringup"
    "k_led demo_kernel \<noteq> None" "k_btn demo_kernel \<noteq> None"
    by (simp_all add: demo_bringup_def demo_kernel_def plain_cfg_def)
  have disj: "cs_locs demo_spi_cfgs \<inter> (led_pins \<union> {(2, 13), (4, 5)} \<union> {(2, 13), (0, 0), (6, 14)}) = {}"
    "{(2, 13), (0, 0), (6, 14)} \<inter> led_pins = {}"
    "other_pins demo_bringup \<inter> (led_pins \<union> {(2, 13), (4, 5)} \<union> {(2, 13), (0, 0), (6, 14)} \<union> cs_locs demo_spi_cfgs) = {}"
    unfolding demo_locs led_pins_def by simp_all
  show ?thesis
    unfolding good_board_def board_pins_def demo_locs(2) spi(1) by (intro conjI cfg demo_spec pins spi(2,3) disj frame)
qed

theorem bringup_board_up_witness:
  "\<exists>ret s'. stm32_bringup demo_kernel demo_bringup demo_ext demo_board = Some (ret, s') \<and>
     cs_idle (hw s') (5, 12) \<and> gpio_abs (hw s') (6, 14) = Some pin_reset \<and> g_btnnum (the_low (as_btn s')) = cfg_count demo_cfg"
proof -
  have "spi_cfgs demo_bringup = demo_spi_cfgs" by (simp add: demo_bringup_def)
  then show ?thesis
    using bringup_board_up [OF demo_board_good demo_board_boot] unfolding demo_locs(2) by (auto simp: demo_locs(1))
qed

end
