(* ===== verification/Board_System.thy ===== *)
theory Board_System
  imports Board_Up
begin

text \<open>
  The board in operation: the button driver, the GPIO devices, the LED driver and the SPI chip selects
  on one set of registers, one table of interrupt lines and one interrupt dispatcher, after
  \<^verbatim>\<open>stm32_bringup\<close>. Tasks use the devices in any order, inputs change and lines interrupt. The invariants
  of the drivers, proved in their own theories under the assumption that the lines of others have
  given callbacks, are put together here.
\<close>

subsection \<open>The drivers on one board\<close>

text \<open>
  What the drivers see of each other: the registers, the tables of the lines, and nothing of the data
  of another driver.
\<close>

lemma as_of [simp]: "as_btn (of_btn s t) = t" "as_gpio (of_gpio s u) = u" "as_led (of_led s v) = v"
  by (simp_all add: as_btn_def of_btn_def as_gpio_def of_gpio_def as_led_def of_led_def)

lemma as_simps [simp]:
  "hw (as_btn s) = hw s" "g_gpio_callbacks (as_btn s) = g_gpio_callbacks s" "g_irqvector (as_btn s) = g_irqvector s"
  "hw (as_gpio s) = hw s" "g_gpio_callbacks (as_gpio s) = g_gpio_callbacks s" "g_irqvector (as_gpio s) = g_irqvector s"
  "led_bus (ledhw (as_led s)) = hw s" "g_lednum (ledhw (as_led s)) = led_count (env s)" "ldev (as_led s) = led_part (env s)"
  "low (env (as_btn s)) = low (btn_part (env s))" "upper (env (as_btn s)) = upper (btn_part (env s))"
  "gpio_mem (env (as_gpio s)) = gpio_mem (gpio_part (env s))" "fault (env (as_gpio s)) = fault (gpio_part (env s))"
  by (simp_all add: as_btn_def as_gpio_def as_led_def)

lemma of_simps [simp]:
  "hw (of_btn s t) = hw t" "g_gpio_callbacks (of_btn s t) = g_gpio_callbacks t" "g_irqvector (of_btn s t) = g_irqvector t"
  "hw (of_gpio s u) = hw u" "g_gpio_callbacks (of_gpio s u) = g_gpio_callbacks u" "g_irqvector (of_gpio s u) = g_irqvector u"
  "hw (of_led s v) = led_bus (ledhw v)" "g_gpio_callbacks (of_led s v) = g_gpio_callbacks s" "g_irqvector (of_led s v) = g_irqvector s"
  "gpio_part (env (of_btn s t)) = gpio_part (env s)" "led_part (env (of_btn s t)) = led_part (env s)"
  "led_count (env (of_btn s t)) = led_count (env s)" "spi_part (env (of_btn s t)) = spi_part (env s)"
  "btn_part (env (of_gpio s u)) = btn_part (env s)" "led_part (env (of_gpio s u)) = led_part (env s)"
  "led_count (env (of_gpio s u)) = led_count (env s)" "spi_part (env (of_gpio s u)) = spi_part (env s)"
  "btn_part (env (of_led s v)) = btn_part (env s)" "gpio_part (env (of_led s v)) = gpio_part (env s)"
  "spi_part (env (of_led s v)) = spi_part (env s)"
  by (simp_all add: of_btn_def of_gpio_def of_led_def)

text \<open>
  Calling a registered function through its pointer; the parameter \<open>other\<close> are the handlers of drivers
  that are not modelled.
\<close>

type_synonym 'e other_isrs = "nat \<Rightarrow> int \<Rightarrow> nat option \<Rightarrow> 'e board_env \<Rightarrow> int \<times> 'e board_env"

definition board_call :: "'e other_isrs \<Rightarrow> bool \<Rightarrow> (board_isr, nat, 'e board_env) caller" where
  "board_call other d f irq c a s =
     (case f of
        btnl_interrupt_p \<Rightarrow> let (r, t) = btnl_interrupt d f irq c a (as_btn s) in (r, of_btn s t)
      | stm32_gpio_interrupt_handler \<Rightarrow> let (r, t) = env_call gpio_interrupt_handler f irq c a (as_gpio s) in (r, of_gpio s t)
      | other_isr n \<Rightarrow> env_call (\<lambda>_. other n) f irq c a s)"

text \<open>The same on the data alone, with the registers of \<open>s\<close>.\<close>

definition btn_view :: "'e board_env \<Rightarrow> ('e, btn_low) btn_env" where
  "btn_view e = (btn_part e)\<lparr>b_nodes := nodes e\<rparr>"

definition gpio_view :: "'e board_env \<Rightarrow> 'e genv" where
  "gpio_view e = (gpio_part e)\<lparr>inodes := nodes e\<rparr>"

definition board_isr_env :: "'e other_isrs \<Rightarrow> bool \<Rightarrow> 'e board \<Rightarrow> board_isr \<Rightarrow> int \<Rightarrow> nat option \<Rightarrow> 'e board_env \<Rightarrow> int \<times> 'e board_env" where
  "board_isr_env other d s f irq a e =
     (case f of
        btnl_interrupt_p \<Rightarrow> let x = btn_isr d (as_btn s) (btn_view e) in (OK, e\<lparr>btn_part := x, nodes := b_nodes x\<rparr>)
      | stm32_gpio_interrupt_handler \<Rightarrow>
          let (r, x) = gpio_interrupt_handler f irq a (gpio_view e) in (r, e\<lparr>gpio_part := x, nodes := inodes x\<rparr>)
      | other_isr n \<Rightarrow> other n irq a e)"

lemma env_as: "env (as_btn s) = btn_view (env s)" "env (as_gpio s) = gpio_view (env s)"
  by (simp_all add: as_btn_def btn_view_def as_gpio_def gpio_view_def)

lemma board_call_env:
  assumes "same_regs (hw s) (hw t)"
  shows "board_call other d f irq c a t = env_call (board_isr_env other d s) f irq c a t"
proof (cases f)
  case btnl_interrupt_p
  have "btnl_interrupt d f irq c a (as_btn t) = (OK, (as_btn t)\<lparr>env := btn_isr d (as_btn s) (env (as_btn t))\<rparr>)"
    using assms by (intro btnl_interrupt_isr) simp
  then show ?thesis
    by (simp add: btnl_interrupt_p board_call_def env_call_def board_isr_env_def env_as Let_def of_btn_def)
next
  case stm32_gpio_interrupt_handler
  then show ?thesis
    by (simp add: board_call_def env_call_def board_isr_env_def env_as split_beta of_gpio_def)
qed (simp add: board_call_def env_call_def board_isr_env_def)

lemma board_call_only: "env_only (board_call other d)"
  unfolding env_only_def
proof (intro allI)
  fix f irq c a and s :: "'a board"
  show "\<exists>e. snd (board_call other d f irq c a s) = s\<lparr>env := e\<rparr>"
    using board_call_env [of s s other d f irq c a] by (simp add: env_call_def) blast
qed

text \<open>What a handler does to the parts of the data.\<close>

lemma btn_isr_nodes [simp]: "b_nodes (btn_isr d s e) = b_nodes e"
proof -
  let ?t = "s\<lparr>env := e\<rparr>"
  obtain press release sample where "changes g_btnlower ?t = (press, release, sample)" by (rule prod_cases3)
  from btn_sample_eq [OF this] have "b_nodes (env (btn_sample g_btnlower ?t)) = b_nodes e" by (simp add: set_client_def)
  then show ?thesis by (simp add: btn_isr_def btn_interrupt_def upd_upper_def)
qed

lemma gpio_isr_nodes [simp]: "inodes (snd (gpio_interrupt_handler f irq a e)) = inodes e"
  by (simp add: gpio_interrupt_handler_def gpio_handler_def Let_def split: option.split pin_interrupt_t.split)

lemma isr_views:
  "btn_view (snd (board_isr_env other d s btnl_interrupt_p irq a e)) = btn_isr d (as_btn s) (btn_view e)"
  "btn_view (snd (board_isr_env other d s stm32_gpio_interrupt_handler irq a e)) = btn_view e"
  "gpio_view (snd (board_isr_env other d s btnl_interrupt_p irq a e)) = gpio_view e"
  "gpio_view (snd (board_isr_env other d s stm32_gpio_interrupt_handler irq a e)) =
     snd (gpio_interrupt_handler stm32_gpio_interrupt_handler irq a (gpio_view e))"
  by (simp_all add: board_isr_env_def Let_def split_beta) (simp_all add: btn_view_def gpio_view_def)

definition rest_view :: "'e board_env \<Rightarrow> userled_upperhalf_s \<times> u32 \<times> spi_bus list" where
  "rest_view e = (led_part e, led_count e, spi_part e)"

lemma isr_rest:
  "rest_view (snd (board_isr_env other d s btnl_interrupt_p irq a e)) = rest_view e"
  "rest_view (snd (board_isr_env other d s stm32_gpio_interrupt_handler irq a e)) = rest_view e"
  by (simp_all add: board_isr_env_def Let_def split_beta rest_view_def)

subsection \<open>The invariant of the board\<close>

text \<open>
  No two drivers claim the same pin, and no button is on the line of the GPIO devices, which is the one
  of pin 5 of any port.
\<close>

definition board_apart :: "bringup_cfg \<Rightarrow> u32 list \<Rightarrow> bool" where
  "board_apart cfg ws \<longleftrightarrow>
     cs_locs (spi_cfgs cfg) \<inter> (led_pins \<union> {(4, 5)} \<union> gpio_loc ` set ws) = {} \<and>
     gpio_loc ` set ws \<inter> led_pins = {} \<and> 5 \<notin> gpio_pin ` set ws \<and> length (spi_cfgs cfg) = 6"

text \<open>The callbacks of the buttons, as the GPIO devices see them, and the other way round.\<close>

definition btn_calls :: "'e board \<Rightarrow> nat \<rightharpoonup> (board_isr, nat) gpio_callback_s" where
  "btn_calls s q = (if q \<in> btn_lines (as_btn s) then Some (g_gpio_callbacks s ! q) else None)"

definition gpio_call :: "'e board \<Rightarrow> nat \<rightharpoonup> (board_isr, nat) gpio_callback_s" where
  "gpio_call s = [5 \<mapsto> g_gpio_callbacks s ! 5]"

definition board_inv :: "bringup_cfg \<Rightarrow> u32 list \<Rightarrow> 'e board \<Rightarrow> bool" where
  "board_inv cfg ws s \<longleftrightarrow>
     board_apart cfg ws \<and> gpint_inv (btn_calls s) (as_gpio s) \<and> btn_lower.binv (gpio_call s) (as_btn s) \<and>
     btn_locs (as_btn s) = gpio_loc ` set ws \<and> uled.led_ok (as_led s) \<and> cs_table (spi_cfgs cfg) (spi_part (env s))"

lemma board_invD:
  assumes "board_inv cfg ws s"
  shows "gpint_inv (btn_calls s) (as_gpio s)" "btn_lower.binv (gpio_call s) (as_btn s)" "btn_ready (gpio_call s) (as_btn s)"
    "exti_inv (as_btn s)" "5 \<notin> btn_lines (as_btn s)" "length (g_gpio_callbacks s) = 16"
proof -
  show *: "gpint_inv (btn_calls s) (as_gpio s)" "btn_lower.binv (gpio_call s) (as_btn s)" using assms by (simp_all add: board_inv_def)
  then show rd: "btn_ready (gpio_call s) (as_btn s)" by (simp add: btn_lower.binv_def)
  then show ex: "exti_inv (as_btn s)" unfolding btn_ready_def by (rule conjunct1)
  have "btn_lines (as_btn s) \<inter> dom (gpio_call s) = {}" using rd unfolding btn_ready_def by (elim conjE)
  then show "5 \<notin> btn_lines (as_btn s)" by (simp add: gpio_call_def)
  show "length (g_gpio_callbacks s) = 16" using gpint_inv_len [OF *(1)] by simp
qed

lemma exti_inv_views [simp]: "exti_inv (as_btn s) \<longleftrightarrow> exti_inv s" "exti_inv (as_gpio s) \<longleftrightarrow> exti_inv s"
  by (simp_all add: exti_inv_def)

text \<open>The calls that a pending line leads to.\<close>

lemma board_calls:
  assumes "board_inv cfg ws s" "q < 16"
  shows "exti_calls s irq q =
    (if q = 5 then if register_count (gdev 4 (as_gpio s)) = 0 then [] else [(stm32_gpio_interrupt_handler, irq, Some 4)]
     else if callback (g_gpio_callbacks s ! q) = None then [] else [(btnl_interrupt_p, irq, None)])"
proof (cases "q = 5")
  case True
  then show ?thesis using board_invD(1) [OF assms(1)] by (simp add: gpint_inv_def exti_calls_def)
next
  case False
  show ?thesis
  proof (cases "callback (g_gpio_callbacks s ! q)")
    case (Some f)
    then have "g_gpio_callbacks s ! q = \<lparr>callback = Some btnl_interrupt_p, cbarg = None\<rparr>"
      using False btn_readyD(2) [OF board_invD(3) [OF assms(1)] assms(2)] by (simp add: gpio_call_def)
    then show ?thesis using False by (simp add: exti_calls_def)
  qed (simp add: False exti_calls_def)
qed

lemma gpio_calls_once:
  assumes "board_inv cfg ws s" "\<forall>q \<in> set qs. q < 16" "distinct qs"
  shows "length (filter (\<lambda>c. fst c = stm32_gpio_interrupt_handler) (concat (map (exti_calls s irq) qs))) =
    (if 5 \<in> set qs \<and> register_count (gdev 4 (as_gpio s)) \<noteq> 0 then 1 else 0)"
  using assms(2,3) by (induction qs) (auto simp: board_calls [OF assms(1)])

lemma btn_calls_any:
  assumes "board_inv cfg ws s" "\<forall>q \<in> set qs. q < 16"
  shows "length (filter (\<lambda>c. fst c = btnl_interrupt_p) (concat (map (exti_calls s irq) qs))) = 0 \<longleftrightarrow>
    \<not> (\<exists>q \<in> set qs. q \<noteq> 5 \<and> callback (g_gpio_callbacks s ! q) \<noteq> None)"
  using assms(2) by (induction qs) (auto simp: board_calls [OF assms(1)])

text \<open>
  One interrupt, whatever mix of lines is pending behind it: the handler of the buttons has the effect
  of one call if any served line is an armed button's, the handler of the GPIO devices is called once
  exactly if line 5 is served and somebody is registered, and every served line is acknowledged.
\<close>

lemma board_dispatch:
  fixes s :: "'e board"
  assumes "board_inv cfg ws s" "p < 16" "callback (g_gpio_callbacks s ! p) \<noteq> None"
  defines "served \<equiv> exti_served (getreg32 STM32_EXTI_CPUPR1 (hw s)) p"
  shows "\<exists>s'. irq_dispatch (board_call other d) (exti_irq p) c s = Some s' \<and> keeps_tables s s' \<and>
    env (as_btn s') = (if \<exists>q \<in> set served. q \<noteq> 5 \<and> callback (g_gpio_callbacks s ! q) \<noteq> None
                       then env (btn_interrupt d g_btnlower (as_btn s)) else env (as_btn s)) \<and>
    env (as_gpio s') = (if 5 \<in> set served \<and> register_count (gdev 4 (as_gpio s)) \<noteq> 0
                        then gpio_handler 4 (env (as_gpio s)) else env (as_gpio s)) \<and>
    rest_view (env s') = rest_view (env s) \<and> wlog (hw s') = rev (map ack served) @ wlog (hw s)"
proof -
  let ?E = "board_isr_env other d s" and ?cs = "concat (map (exti_calls s (exti_irq p)) served)"
  let ?G = "\<lambda>x. snd (gpio_interrupt_handler stm32_gpio_interrupt_handler (exti_irq p) (Some 4) x)"
  have inv: "exti_inv s" using board_invD(4) [OF assms(1)] by simp
  have less: "\<forall>q \<in> set served. q < 16" "distinct served" using served_less assms(2) by (auto simp: served_def)
  have cs: "(f, irq, a) \<in> set ?cs \<Longrightarrow> (f = btnl_interrupt_p \<or> f = stm32_gpio_interrupt_handler \<and> a = Some 4) \<and> irq = exti_irq p" for f irq a
    using less(1) by (auto simp: board_calls [OF assms(1)] split: if_splits)
  have "irq_dispatch (board_call other d) (exti_irq p) c s = irq_dispatch (env_call ?E) (exti_irq p) c s"
    by (rule dispatch_cong [OF inv assms(2,3) board_call_env])
  then obtain s' where s': "irq_dispatch (board_call other d) (exti_irq p) c s = Some s'"
    "env s' = run_calls ?E ?cs (env s)" "wlog (hw s') = rev (map ack served) @ wlog (hw s)"
    using dispatch_env [OF inv assms(2,3), of ?E c, folded served_def] by (elim exE conjE) (auto intro: that)
  have "btn_view (env s') = (btn_isr d (as_btn s) ^^ length (filter (\<lambda>c. fst c = btnl_interrupt_p) ?cs)) (btn_view (env s))"
    unfolding s'(2) by (intro run_calls_view) (drule cs, auto simp: isr_views)
  moreover have "btn_isr d (as_btn s) (env (as_btn s)) = env (btn_interrupt d g_btnlower (as_btn s))"
    if "q \<in> set served" "q \<noteq> 5" "callback (g_gpio_callbacks s ! q) \<noteq> None" for q
  proof -
    have "g_btnhandler (the_low (as_btn s)) = Some btn_interrupt_p"
      using that less btn_readyD [OF board_invD(3) [OF assms(1)], of q] by (simp add: gpio_call_def)
    then show ?thesis by (simp add: btn_isr_def the_low_def)
  qed
  ultimately have b: "env (as_btn s') = (if \<exists>q \<in> set served. q \<noteq> 5 \<and> callback (g_gpio_callbacks s ! q) \<noteq> None
                       then env (btn_interrupt d g_btnlower (as_btn s)) else env (as_btn s))"
    unfolding env_as funpow_idem [OF btn_isr_twice] btn_calls_any [OF assms(1) less(1)] by auto
  have "gpio_view (env s') = (?G ^^ length (filter (\<lambda>c. fst c = stm32_gpio_interrupt_handler) ?cs)) (gpio_view (env s))"
    unfolding s'(2) by (intro run_calls_view) (drule cs, auto simp: isr_views)
  moreover have "?G (env (as_gpio s)) = gpio_handler 4 (env (as_gpio s))" if "register_count (gdev 4 (as_gpio s)) \<noteq> 0"
    using that board_invD(1) [OF assms(1)] by (simp add: gpint_inv_def gdev_def gpio_interrupt_handler_def)
  ultimately have g: "env (as_gpio s') = (if 5 \<in> set served \<and> register_count (gdev 4 (as_gpio s)) \<noteq> 0
                        then gpio_handler 4 (env (as_gpio s)) else env (as_gpio s))"
    unfolding env_as gpio_calls_once [OF assms(1) less] by auto
  have "rest_view (env s') = ((\<lambda>x. x) ^^ length (filter (\<lambda>c. True) ?cs)) (rest_view (env s))"
    unfolding s'(2) by (intro run_calls_view) (drule cs, auto simp: isr_rest)
  then have "rest_view (env s') = rest_view (env s)" by (simp add: funpow_idem)
  with s'(1,3) keeps_tables_dispatch [OF board_call_only s'(1)] b g show ?thesis by (intro exI [of _ s'] conjI)
qed

subsection \<open>Operation\<close>

text \<open>
  The runs start from a bring-up under the assumptions of \<open>good_board\<close>, which leave out the radio, the USB host and the
  partitions for firmware updates, with no button on line 5. After it anything may happen in any order: operations of tasks on the buttons, on the
  GPIO devices and on the LEDs (by \<open>True\<close> a write to the LED device, by \<open>False\<close> any of its other
  operations), the select calls of the SPI drivers for registered chip selects, changes of the inputs
  and of the pending bits, and interrupts of unmasked lines. As in \<open>gpio_op\<close>, a task takes back a
  registration with a GPIO device only while there is one, and does not make the 256th.
\<close>

datatype board_label = Buttons | Gpio_devs | Leds bool | Select "nat \<times> nat" bool | Inputs | Irq nat

inductive board_step :: "'e other_isrs \<Rightarrow> bool \<Rightarrow> bringup_cfg \<Rightarrow> board_label \<Rightarrow> 'e board \<Rightarrow> 'e board \<Rightarrow> bool" for other d cfg where
  buttons: "btn_op d g_btnlower (as_btn s) t \<Longrightarrow> board_step other d cfg Buttons s (of_btn s t)"
| gpio: "gpio_op (as_gpio s) t \<Longrightarrow> board_step other d cfg Gpio_devs s (of_gpio s t)"
| leds: "led_op w g_userled_lower (as_led s) t \<Longrightarrow> board_step other d cfg (Leds w) s (of_led s t)"
| select: "cs_registered (spi_cfgs cfg) (spi_part (env s)) (n, k) \<Longrightarrow>
    board_step other d cfg (Select (n, k) on) s (on_hw ((spi_selects ! n) (spi_cfgs cfg) (spi_part (env s)) (of_nat k) on) s)"
| inputs: "exti_lines h = exti_lines (hw s) \<Longrightarrow> wlog h = wlog (hw s) \<Longrightarrow> pin_view h = pin_view (hw s) \<Longrightarrow>
    board_step other d cfg Inputs s (on_hw (\<lambda>_. h) s)"
| interrupt: "p < 16 \<Longrightarrow> int_enabled (exti_lines (hw s) p) \<Longrightarrow>
    irq_dispatch (board_call other d) (exti_irq p) c s = Some s' \<Longrightarrow> board_step other d cfg (Irq p) s s'"

inductive board_run :: "'e other_isrs \<Rightarrow> bool \<Rightarrow> bringup_cfg \<Rightarrow> u32 list \<Rightarrow> board_label list \<Rightarrow> 'e board \<Rightarrow> bool" for other d cfg ws where
  up: "good_board k cfg ext c ws \<Longrightarrow> 5 \<notin> gpio_pin ` set ws \<Longrightarrow> board_boot c s \<Longrightarrow>
    stm32_bringup k cfg ext s = Some (r, s') \<Longrightarrow> board_run other d cfg ws [] s'"
| step: "board_run other d cfg ws tr s \<Longrightarrow> board_step other d cfg l s s' \<Longrightarrow> board_run other d cfg ws (tr @ [l]) s'"

text \<open>What the invariant depends on, besides what the drivers say themselves.\<close>

lemma board_inv_same:
  assumes "board_inv cfg ws s" "exti_inv s'" "g_gpio_callbacks s' = g_gpio_callbacks s"
    "low (btn_part (env s')) = low (btn_part (env s))" "upper (btn_part (env s')) = upper (btn_part (env s))"
    "gpio_mem (gpio_part (env s')) = gpio_mem (gpio_part (env s))" "fault (gpio_part (env s')) = fault (gpio_part (env s))"
    "uled.led_ok (as_led s')" "spi_part (env s') = spi_part (env s)"
  shows "board_inv cfg ws s'"
proof -
  have low: "the_low (as_btn s') = the_low (as_btn s)" using assms(4) by (simp add: the_low_def)
  then have lines: "btn_lines (as_btn s') = btn_lines (as_btn s)" "btn_locs (as_btn s') = btn_locs (as_btn s)"
    by (simp_all add: btn_lines_locs btn_locs_def)
  then have k: "btn_calls s' = btn_calls s" "gpio_call s' = gpio_call s"
    using assms(3) by (simp_all add: btn_calls_def gpio_call_def fun_eq_iff)
  have "gpint_inv (btn_calls s) (as_gpio s')"
  proof (rule gpint_inv_keep [OF board_invD(1) [OF assms(1)]])
    show "\<not> fault (env (as_gpio s'))" using gpint_no_fault [OF board_invD(1) [OF assms(1)]] assms(7) by simp
  qed (use assms(2,3,6) in \<open>simp_all add: gdev_def same_dev_def\<close>)
  moreover have "btn_lower.binv (gpio_call s) (as_btn s')"
    using assms(2-5) by (intro binv_same [OF board_invD(2) [OF assms(1)]]) simp_all
  ultimately show ?thesis using assms(1,8,9) by (simp add: board_inv_def k lines)
qed

text \<open>The pins a step may configure or drive.\<close>

fun owned :: "bringup_cfg \<Rightarrow> u32 list \<Rightarrow> board_label \<Rightarrow> (nat \<times> nat) set" where
  "owned cfg ws Buttons = gpio_loc ` set ws"
| "owned cfg ws Gpio_devs = insert (4, 5) led_pins"
| "owned cfg ws (Leds w) = led_pins"
| "owned cfg ws (Select nk on) = cs_locs (spi_cfgs cfg)"
| "owned cfg ws Inputs = {}"
| "owned cfg ws (Irq p) = {}"

lemma led_ok_cong:
  "led_part (env s') = led_part (env s) \<Longrightarrow> led_count (env s') = led_count (env s) \<Longrightarrow>
   uled.led_ok (as_led s') \<longleftrightarrow> uled.led_ok (as_led s)"
proof -
  have "ll_supported g_userled_lower l = userled_supported (g_lednum l)" for l by (simp add: g_userled_lower_def)
  then show "led_part (env s') = led_part (env s) \<Longrightarrow> led_count (env s') = led_count (env s) \<Longrightarrow> ?thesis"
    by (simp add: uled.led_ok_def leds_ready_def)
qed

lemma buttons_inv:
  assumes "board_inv cfg ws s" "btn_op d g_btnlower (as_btn s) t"
  shows "board_inv cfg ws (of_btn s t)" "p \<notin> gpio_loc ` set ws \<Longrightarrow> pin_view (hw t) p = pin_view (hw s) p"
proof -
  note op = btn_op_inv [OF assms(2) board_invD(2) [OF assms(1)]]
  then have rd: "btn_ready (gpio_call s) t" by (simp add: btn_lower.binv_def)
  have five: "g_gpio_callbacks t ! 5 = g_gpio_callbacks s ! 5" using rd by (simp add: btn_ready_def gpio_call_def)
  have "gpint_inv (btn_calls (of_btn s t)) (as_gpio (of_btn s t))"
  proof (rule gpint_frame [OF board_invD(1) [OF assms(1)]])
    show "exti_inv (as_gpio (of_btn s t))" using rd by (simp add: btn_ready_def exti_inv_def)
    fix q :: nat assume q: "q < 16" "q \<noteq> 5"
    show "btn_calls (of_btn s t) q = None \<Longrightarrow> callback (g_gpio_callbacks (as_gpio (of_btn s t)) ! q) = None"
      using btn_readyD(1) [OF rd q(1)] q(2) by (cases "callback (g_gpio_callbacks t ! q)") (auto simp: btn_calls_def gpio_call_def split: if_splits)
    show "btn_calls (of_btn s t) q = Some x \<Longrightarrow> g_gpio_callbacks (as_gpio (of_btn s t)) ! q = x" for x
      by (auto simp: btn_calls_def split: if_splits)
  qed (simp_all add: five)
  moreover have "gpio_call (of_btn s t) = gpio_call s" by (simp add: gpio_call_def five)
  moreover have "uled.led_ok (as_led (of_btn s t))" using assms(1) led_ok_cong [of "of_btn s t" s] by (simp add: board_inv_def)
  ultimately show "board_inv cfg ws (of_btn s t)" using assms(1) op(1,3) by (simp add: board_inv_def)
  show "p \<notin> gpio_loc ` set ws \<Longrightarrow> pin_view (hw t) p = pin_view (hw s) p"
    using op(4) [of p] assms(1) by (simp add: board_inv_def)
qed

lemma gpio_inv:
  assumes "board_inv cfg ws s" "gpio_op (as_gpio s) t"
  shows "board_inv cfg ws (of_gpio s t)" "p \<notin> insert (4, 5) led_pins \<Longrightarrow> pin_view (hw t) p = pin_view (hw s) p"
proof -
  have t: "gpint_inv (btn_calls s) t" using gpio_op_inv [OF assms(2) board_invD(1) [OF assms(1)]] .
  have low: "the_low (as_btn (of_gpio s t)) = the_low (as_btn s)" by (simp add: the_low_def)
  then have lines: "btn_lines (as_btn (of_gpio s t)) = btn_lines (as_btn s)" "btn_locs (as_btn (of_gpio s t)) = btn_locs (as_btn s)"
    by (simp_all add: btn_lines_locs btn_locs_def)
  have less: "q \<in> btn_lines (as_btn s) \<Longrightarrow> q < 16" for q by (auto simp: btn_lines_def)
  have same: "g_gpio_callbacks t ! q = g_gpio_callbacks s ! q" if "q \<in> btn_lines (as_btn s)" for q
    using t less [OF that] that board_invD(5) [OF assms(1)] unfolding gpint_inv_def btn_calls_def by auto
  have none: "callback (g_gpio_callbacks t ! q) = None" if "q < 16" "q \<notin> btn_lines (as_btn s)" "q \<noteq> 5" for q
    using t that by (simp add: gpint_inv_def btn_calls_def)
  have "btn_lower.binv (gpio_call (of_gpio s t)) (as_btn (of_gpio s t))"
  proof (rule binv_frame [OF board_invD(2) [OF assms(1)]])
    show "exti_inv (as_btn (of_gpio s t))" using t by (simp add: gpint_inv_def exti_inv_def)
    show "\<forall>q \<in> btn_lines (as_btn s). g_gpio_callbacks (as_btn (of_gpio s t)) ! q = g_gpio_callbacks (as_btn s) ! q"
      using same by simp
    show "btn_lines (as_btn s) \<inter> dom (gpio_call (of_gpio s t)) = {}"
      using board_invD(5) [OF assms(1)] by (simp add: gpio_call_def)
    show "\<forall>q < 16. q \<notin> btn_lines (as_btn s) \<longrightarrow>
        (case gpio_call (of_gpio s t) q of None \<Rightarrow> callback (g_gpio_callbacks (as_btn (of_gpio s t)) ! q) = None
         | Some x \<Rightarrow> g_gpio_callbacks (as_btn (of_gpio s t)) ! q = x)"
      using none by (simp add: gpio_call_def)
  qed simp_all
  moreover have "btn_calls (of_gpio s t) = btn_calls s" using same by (simp add: btn_calls_def lines fun_eq_iff)
  moreover have "uled.led_ok (as_led (of_gpio s t))" using assms(1) led_ok_cong [of "of_gpio s t" s] by (simp add: board_inv_def)
  ultimately show "board_inv cfg ws (of_gpio s t)" using assms(1) t by (simp add: board_inv_def lines)
  show "p \<notin> insert (4, 5) led_pins \<Longrightarrow> pin_view (hw t) p = pin_view (hw s) p"
    using gpio_op_view [OF assms(2), of p] board_invD(1) [OF assms(1)] by (simp add: gpint_inv_def)
qed

lemma pins_inv: "board_inv cfg ws s \<Longrightarrow> pin_steps L (hw s) h \<Longrightarrow> exti_inv (on_hw (\<lambda>_. h) s)"
  using exti_inv_hw [of s "\<lambda>_. h"] pin_steps_writes board_invD(4) [of cfg ws s] by simp

lemma leds_inv:
  assumes "board_inv cfg ws s" "led_op w g_userled_lower (as_led s) t"
  shows "board_inv cfg ws (of_led s t)" "pin_steps led_pins (hw s) (led_bus (ledhw t))"
proof -
  show p: "pin_steps led_pins (hw s) (led_bus (ledhw t))" using led_op_pins [OF assms(2)] by simp
  show "board_inv cfg ws (of_led s t)"
  proof (rule board_inv_same [OF assms(1)])
    show "exti_inv (of_led s t)" using pins_inv [OF assms(1) p] by (simp add: exti_inv_def)
    show "uled.led_ok (as_led (of_led s t))" using uled.op_ok(1) [OF assms(2)] assms(1) by (simp add: board_inv_def)
  qed simp_all
qed

lemma hw_inv:
  assumes "board_inv cfg ws s" "exti_inv (on_hw (\<lambda>_. h) s)" shows "board_inv cfg ws (on_hw (\<lambda>_. h) s)"
proof (rule board_inv_same [OF assms])
  show "uled.led_ok (as_led (on_hw (\<lambda>_. h) s))" using assms(1) led_ok_cong [of "on_hw (\<lambda>_. h) s" s] by (simp add: board_inv_def on_hw_def)
qed (simp_all add: on_hw_def)

lemma interrupt_board_inv:
  assumes "board_inv cfg ws s" "p < 16" "int_enabled (exti_lines (hw s) p)"
    "irq_dispatch (board_call other d) (exti_irq p) c s = Some s'"
  shows "board_inv cfg ws s'" "rest_view (env s') = rest_view (env s)" "pin_view (hw s') = pin_view (hw s)"
proof -
  have ex: "exti_inv s" using board_invD(4) [OF assms(1)] by simp
  then have cb: "callback (g_gpio_callbacks s ! p) \<noteq> None" using assms(2,3) by (simp add: exti_inv_def)
  have k: "keeps_tables s s'" "rest_view (env s') = rest_view (env s)"
    and b: "env (as_btn s') = env (btn_interrupt d g_btnlower (as_btn s)) \<or> env (as_btn s') = env (as_btn s)"
    and g: "env (as_gpio s') = gpio_handler 4 (env (as_gpio s)) \<or> env (as_gpio s') = env (as_gpio s)"
    using board_dispatch [OF assms(1,2) cb, of other d c] assms(4) by (auto split: if_splits)
  have s': "exti_inv s'" "g_gpio_callbacks s' = g_gpio_callbacks s"
    using keeps_tables_inv [OF k(1) ex] k(1) by (simp_all add: keeps_tables_def)
  have low: "the_low (as_btn s') = the_low (as_btn s)"
    using b interrupt_low [of d "as_btn s"] by (auto simp: the_low_def simp del: as_simps(10,11))
  then have lines: "btn_lines (as_btn s') = btn_lines (as_btn s)" "btn_locs (as_btn s') = btn_locs (as_btn s)"
    by (simp_all add: btn_lines_locs btn_locs_def)
  have calls: "btn_calls s' = btn_calls s" "gpio_call s' = gpio_call s"
    by (simp_all add: btn_calls_def gpio_call_def lines s'(2) fun_eq_iff)
  have "gpint_inv (btn_calls s) (as_gpio s')"
  proof (rule gpint_inv_keep [OF board_invD(1) [OF assms(1)]])
    show "\<not> fault (env (as_gpio s'))" using g gpint_no_fault [OF board_invD(1) [OF assms(1)]] by (auto simp: gpio_handler_same simp del: as_simps(12,13))
    show "same_dev (gdev a (as_gpio s)) (gdev a (as_gpio s'))" for a
      using g by (auto simp: gdev_def gpio_handler_same simp del: as_simps) (simp add: same_dev_def)
  qed (simp_all add: s')
  moreover have "btn_lower.binv (gpio_call s) (as_btn s')"
    using b binv_same [OF btn_lower.interrupt_inv [OF board_invD(2) [OF assms(1)], of d]]
      binv_same [OF board_invD(2) [OF assms(1)]] s' by (auto simp del: as_simps(10,11))
  moreover have "uled.led_ok (as_led s')" "spi_part (env s') = spi_part (env s)"
    using assms(1) k(2) led_ok_cong [of s' s] by (simp_all add: board_inv_def rest_view_def)
  ultimately show "board_inv cfg ws s'" using assms(1) by (simp add: board_inv_def calls lines)
  show "rest_view (env s') = rest_view (env s)" "pin_view (hw s') = pin_view (hw s)" using k dispatch_view by simp_all
qed

lemma board_step_inv:
  assumes "board_step other d cfg l s s'" "board_inv cfg ws s"
  shows "board_inv cfg ws s'" "p \<notin> owned cfg ws l \<Longrightarrow> pin_view (hw s') p = pin_view (hw s) p"
    "spi_part (env s') = spi_part (env s)" "\<forall>w. l \<noteq> Leds w \<Longrightarrow> led_part (env s') = led_part (env s)"
proof -
  have tab: "cs_table (spi_cfgs cfg) (spi_part (env s))" "length (spi_cfgs cfg) = 6"
    using assms(2) by (simp_all add: board_inv_def board_apart_def)
  have "board_inv cfg ws s' \<and> (p \<notin> owned cfg ws l \<longrightarrow> pin_view (hw s') p = pin_view (hw s) p) \<and>
    spi_part (env s') = spi_part (env s) \<and> ((\<forall>w. l \<noteq> Leds w) \<longrightarrow> led_part (env s') = led_part (env s))"
    using assms(1)
  proof cases
    case (buttons t)
    then show ?thesis using buttons_inv [OF assms(2)] by simp
  next
    case (gpio t)
    then show ?thesis using gpio_inv [OF assms(2)] by simp
  next
    case (leds w t)
    then show ?thesis using leds_inv [OF assms(2) leds(3)] pin_steps_other [OF leds_inv(2) [OF assms(2) leds(3)], of p] by auto
  next
    case (select n k on)
    then have "n < 6" by (simp add: cs_registered_def)
    note sel = select_pins [OF tab this, of "hw s" "of_nat k" on]
    show ?thesis using hw_inv [OF assms(2) pins_inv [OF assms(2) sel]] pin_steps_other [OF sel] select by (simp add: on_hw_def)
  next
    case (inputs h)
    have "exti_inv (on_hw (\<lambda>_. h) s)" using board_invD(4) [OF assms(2)] inputs by (simp add: exti_inv_def)
    then show ?thesis using hw_inv [OF assms(2)] inputs by (simp add: on_hw_def)
  next
    case (interrupt q c)
    then show ?thesis using interrupt_board_inv [OF assms(2)] by (simp add: rest_view_def)
  qed
  then show "board_inv cfg ws s'" "p \<notin> owned cfg ws l \<Longrightarrow> pin_view (hw s') p = pin_view (hw s) p"
    "spi_part (env s') = spi_part (env s)" "\<forall>w. l \<noteq> Leds w \<Longrightarrow> led_part (env s') = led_part (env s)" by blast+
qed

lemma up_inv:
  assumes "gpint_inv Map.empty (as_gpio s)" "btn_lower.binv Map.empty (as_btn s)" "btn_locs (as_btn s) = gpio_loc ` set ws"
    "uled.led_ok (as_led s)" "cs_table (spi_cfgs cfg) (spi_part (env s))" "board_apart cfg ws"
  shows "board_inv cfg ws s"
proof -
  have rd: "btn_ready Map.empty (as_btn s)" using assms(2) by (simp add: btn_lower.binv_def)
  have "snd (gpio_loc w) = gpio_pin w" for w by (simp add: gpio_loc_def)
  then have lines: "5 \<notin> btn_lines (as_btn s)" using assms(3,6) by (simp add: btn_lines_locs image_image board_apart_def)
  have "gpint_inv (btn_calls s) (as_gpio s)"
  proof (rule gpint_frame [OF assms(1)])
    show "exti_inv (as_gpio s)" using assms(1) by (simp add: gpint_inv_def)
    fix q :: nat assume "q < 16" "q \<noteq> 5"
    then show "callback (g_gpio_callbacks (as_gpio s) ! q) = None" using assms(1) by (simp add: gpint_inv_def)
  qed (auto simp: btn_calls_def split: if_splits)
  moreover have "btn_lower.binv (gpio_call s) (as_btn s)"
  proof (rule binv_frame [OF assms(2)])
    show "exti_inv (as_btn s)" using assms(1) by (simp add: gpint_inv_def)
    show "\<forall>q < 16. q \<notin> btn_lines (as_btn s) \<longrightarrow>
        (case gpio_call s q of None \<Rightarrow> callback (g_gpio_callbacks (as_btn s) ! q) = None
         | Some x \<Rightarrow> g_gpio_callbacks (as_btn s) ! q = x)"
      using btn_readyD(1) [OF rd] by (fastforce simp: gpio_call_def)
  qed (use lines in \<open>simp_all add: gpio_call_def\<close>)
  ultimately show ?thesis using assms by (simp add: board_inv_def)
qed

lemma board_up:
  assumes "good_board k cfg ext c ws" "5 \<notin> gpio_pin ` set ws" "board_boot c s" "stm32_bringup k cfg ext s = Some (r, s')"
  shows "board_inv cfg ws s'" "uled.in_step (as_led s')" "cs_active (spi_cfgs cfg) (spi_part (env s')) (hw s') = {}"
proof -
  have up: "gpint_inv Map.empty (as_gpio s')" "btn_lower.binv Map.empty (as_btn s')" "btn_locs (as_btn s') = gpio_loc ` set ws"
    "uled.led_ok (as_led s')" "lu_ledset (led_part (env s')) = 0" "leds_lit (ledhw (as_led s')) = {}"
    "cs_table (spi_cfgs cfg) (spi_part (env s'))" "\<forall>p \<in> cs_locs (spi_cfgs cfg). cs_idle (hw s') p"
    using bringup_up [OF assms(1,3)] unfolding assms(4) by (auto simp del: as_simps)
  have len: "length (spi_cfgs cfg) = 6" using assms(1) by (simp add: good_board_def)
  have "board_apart cfg ws" using assms(1,2) by (auto simp: board_apart_def good_board_def)
  with up show "board_inv cfg ws s'" by (intro up_inv)
  show "uled.in_step (as_led s')" using up(5,6) by (simp add: uled.in_step_def set_bits_def)
  show "cs_active (spi_cfgs cfg) (spi_part (env s')) (hw s') = {}"
    using up(8) cs_table_at(1) [OF up(7) len] by (fastforce simp: cs_active_def cs_idle_def)
qed

lemma board_run_inv: "board_run other d cfg ws tr s \<Longrightarrow> board_inv cfg ws s"
  by (induction rule: board_run.induct) (blast intro: board_up board_step_inv)+

subsection \<open>What the composition shows\<close>

lemma board_armed:
  assumes "board_inv cfg ws s" "q < 16" "q \<noteq> 5"
  shows "callback (g_gpio_callbacks s ! q) \<noteq> None \<longleftrightarrow>
    (\<exists>i < g_btnnum (the_low (as_btn s)). q = btn_pin (as_btn s) i \<and> i \<in> want (bu_open (the_upper (as_btn s))))"
proof -
  have rd: "btn_ready (gpio_call s) (as_btn s)" using assms(1) by (rule board_invD)
  have sup: "btn_lower.sup (as_btn s) = {i. i < g_btnnum (the_low (as_btn s))}"
    by (simp add: btn_lower.sup_def supported_bits [OF rd])
  have "btn_armed (as_btn s) = want (bu_open (the_upper (as_btn s))) \<inter> btn_lower.sup (as_btn s)"
    using board_invD(2) [OF assms(1)] by (simp add: btn_lower.binv_def)
  moreover have "q \<in> btn_lines (as_btn s)" if "callback (g_gpio_callbacks s ! q) \<noteq> None"
    using btn_readyD(1) [OF rd assms(2)] that assms(3) by (simp add: gpio_call_def)
  ultimately show ?thesis unfolding sup by (auto simp: btn_lines_def btn_armed_def)
qed

text \<open>
  C4. The interrupt lines of the whole board: in every state it can get into, a line is unmasked
  exactly if it is line 5 and somebody is registered with the GPIO interrupt device, or if it is
  the line of a button that some open file of the button driver waits for. So what one driver
  does never takes a line from the other; and no interrupt calls through a NULL pointer.
\<close>

theorem board_lines_follow:
  assumes "board_run other d cfg ws tr s"
  shows "(\<forall>q < 16. int_enabled (exti_lines (hw s) q) \<longleftrightarrow>
       (if q = 5 then register_count (gdev 4 (as_gpio s)) \<noteq> 0
        else \<exists>i < g_btnnum (the_low (as_btn s)). q = btn_pin (as_btn s) i \<and>
               i \<in> press_set (bu_open (the_upper (as_btn s))) \<union> release_set (bu_open (the_upper (as_btn s))))) \<and>
     (\<forall>i < g_btnnum (the_low (as_btn s)). btn_pin (as_btn s) i \<noteq> 5) \<and>
     sig_inv (gp_signals (gdev 4 (as_gpio s))) \<and> distinct (map fst (bu_open (the_upper (as_btn s)))) \<and>
     \<not> fault (gpio_part (env s))"
proof -
  have inv: "board_inv cfg ws s" using assms by (rule board_run_inv)
  have lines: "int_enabled (exti_lines (hw s) q) \<longleftrightarrow> callback (g_gpio_callbacks s ! q) \<noteq> None" if "q < 16" for q
    using board_invD(4) [OF inv] that by (simp add: exti_inv_def)
  have five: "callback (g_gpio_callbacks s ! 5) \<noteq> None \<longleftrightarrow> register_count (gdev 4 (as_gpio s)) \<noteq> 0" "sig_inv (gp_signals (gdev 4 (as_gpio s)))"
    "\<not> fault (gpio_part (env s))"
    using board_invD(1) [OF inv] by (simp_all add: gpint_inv_def)
  have "\<forall>i < g_btnnum (the_low (as_btn s)). btn_pin (as_btn s) i \<noteq> 5" "distinct (map fst (bu_open (the_upper (as_btn s))))"
    using board_invD(5) [OF inv] board_invD(2) [OF inv] by (auto simp: btn_lines_def btn_lower.binv_def)
  with five board_armed [OF inv] show ?thesis by (simp add: lines want_def)
qed

text \<open>
  C1. Interrupts of the whole board: in every state it can get into, the interrupt of an unmasked
  line does not panic. Whatever mix of lines is pending behind it, each of them is acknowledged; the handler
  of the button driver takes effect, as if called once, exactly if a line of a button that a file waits for is
  among them; the handler of the GPIO interrupt device is called exactly if line 5 is and somebody
  is registered, and then once; the data of the LEDs and of the chip selects and all pins are as before.
\<close>

theorem board_interrupt_delivers:
  assumes "board_run other d cfg ws tr s" "p < 16" "int_enabled (exti_lines (hw s) p)"
  defines "served \<equiv> exti_served (getreg32 STM32_EXTI_CPUPR1 (hw s)) p"
  shows "\<exists>s'. irq_dispatch (board_call other d) (exti_irq p) c s = Some s' \<and> board_run other d cfg ws (tr @ [Irq p]) s' \<and>
     wlog (hw s') = rev (map ack served) @ wlog (hw s) \<and>
     env (as_btn s') = (if \<exists>q \<in> set served \<inter> btn_lines (as_btn s). int_enabled (exti_lines (hw s) q)
                        then env (btn_interrupt d g_btnlower (as_btn s)) else env (as_btn s)) \<and>
     env (as_gpio s') = (if 5 \<in> set served \<and> register_count (gdev 4 (as_gpio s)) \<noteq> 0
                         then gpio_handler 4 (env (as_gpio s)) else env (as_gpio s)) \<and>
     led_part (env s') = led_part (env s) \<and> led_count (env s') = led_count (env s) \<and> spi_part (env s') = spi_part (env s) \<and>
     (\<forall>q. pin_view (hw s') q = pin_view (hw s) q)"
proof -
  have inv: "board_inv cfg ws s" using assms(1) by (rule board_run_inv)
  have lines: "int_enabled (exti_lines (hw s) q) \<longleftrightarrow> callback (g_gpio_callbacks s ! q) \<noteq> None" if "q < 16" for q
    using board_invD(4) [OF inv] that by (simp add: exti_inv_def)
  have btn: "(\<exists>q \<in> set served. q \<noteq> 5 \<and> callback (g_gpio_callbacks s ! q) \<noteq> None) \<longleftrightarrow>
      (\<exists>q \<in> set served \<inter> btn_lines (as_btn s). int_enabled (exti_lines (hw s) q))"
  proof -
    have "q \<noteq> 5 \<and> callback (g_gpio_callbacks s ! q) \<noteq> None \<longleftrightarrow> q \<in> btn_lines (as_btn s) \<and> int_enabled (exti_lines (hw s) q)" if "q < 16" for q
      using btn_readyD(1) [OF board_invD(3) [OF inv] that] board_invD(5) [OF inv] lines [OF that] by (auto simp: gpio_call_def)
    then show ?thesis using served_less(1) [OF _ assms(2)] unfolding served_def by blast
  qed
  have cb: "callback (g_gpio_callbacks s ! p) \<noteq> None" using lines [OF assms(2)] assms(3) by simp
  obtain s' where s': "irq_dispatch (board_call other d) (exti_irq p) c s = Some s'" "keeps_tables s s'"
    "env (as_btn s') = (if \<exists>q \<in> set served \<inter> btn_lines (as_btn s). int_enabled (exti_lines (hw s) q)
                        then env (btn_interrupt d g_btnlower (as_btn s)) else env (as_btn s))"
    "env (as_gpio s') = (if 5 \<in> set served \<and> register_count (gdev 4 (as_gpio s)) \<noteq> 0
                         then gpio_handler 4 (env (as_gpio s)) else env (as_gpio s))"
    "rest_view (env s') = rest_view (env s)" "wlog (hw s') = rev (map ack served) @ wlog (hw s)"
    using board_dispatch [OF inv assms(2) cb, of other d c, folded served_def] unfolding btn by (elim exE conjE) (rule that)
  have "board_run other d cfg ws (tr @ [Irq p]) s'" using board_run.step [OF assms(1) board_step.interrupt [OF assms(2,3) s'(1)]] .
  moreover have "pin_view (hw s') = pin_view (hw s)" using interrupt_board_inv(3) [OF inv assms(2,3) s'(1)] .
  ultimately show ?thesis using s' by (intro exI [of _ s']) (simp add: rest_view_def)
qed

text \<open>
  C9. Each driver keeps to its pins: in every state the board can get into, whatever a step does, it changes the
  configuration and the level of no pin but those of the driver that takes it. So only a select
  call moves a chip select, only an operation of the button driver touches a button, only the LED
  and the GPIO devices an LED, and interrupts touch no pin at all.
\<close>

theorem board_pins_owned:
  assumes "board_run other d cfg ws tr s" "board_step other d cfg l s s'"
  shows "(p \<notin> owned cfg ws l \<longrightarrow> pin_view (hw s') p = pin_view (hw s) p) \<and>
     (p \<in> cs_locs (spi_cfgs cfg) \<and> p \<in> owned cfg ws l \<longrightarrow> (\<exists>nk on. l = Select nk on)) \<and>
     (p \<in> gpio_loc ` set ws \<and> p \<in> owned cfg ws l \<longrightarrow> l = Buttons) \<and>
     (p \<in> led_pins \<and> p \<in> owned cfg ws l \<longrightarrow> l = Gpio_devs \<or> (\<exists>w. l = Leds w))"
proof -
  have inv: "board_inv cfg ws s" using assms(1) by (rule board_run_inv)
  have "gpio_loc w \<noteq> (4, 5)" if "w \<in> set ws" for w
    using inv that by (auto simp: board_inv_def board_apart_def gpio_loc_def)
  moreover have "cs_locs (spi_cfgs cfg) \<inter> (led_pins \<union> {(4, 5)} \<union> gpio_loc ` set ws) = {}" "gpio_loc ` set ws \<inter> led_pins = {}"
    using inv by (simp_all add: board_inv_def board_apart_def)
  ultimately show ?thesis
    using board_step_inv(2) [OF assms(2) inv, of p] by (cases l) auto
qed

text \<open>The select calls of a run.\<close>

fun selects :: "board_label list \<Rightarrow> ((nat \<times> nat) \<times> bool) list" where
  "selects [] = []"
| "selects (Select nk on # ls) = (nk, on) # selects ls"
| "selects (_ # ls) = selects ls"

lemma selects_append: "selects (ls @ ls') = selects ls @ selects ls'"
  by (induction ls rule: selects.induct) simp_all

lemma spec_select_append: "spec_select (cs @ cs') A = spec_select cs' (spec_select cs A)"
  by (induction cs A rule: spec_select.induct) simp_all

lemma step_active:
  assumes "board_step other d cfg l s s'" "board_inv cfg ws s" "cs_good (spi_cfgs cfg) (spi_part (env s))"
  shows "cs_active (spi_cfgs cfg) (spi_part (env s')) (hw s') =
    spec_select (selects [l]) (cs_active (spi_cfgs cfg) (spi_part (env s)) (hw s))"
proof (cases "\<exists>nk on. l = Select nk on")
  case True
  then show ?thesis using assms(1) by (auto elim!: board_step.cases simp: select_active [OF assms(3)] on_hw_def)
next
  case False
  then have sel: "selects [l] = []" by (cases l) simp_all
  have "pin_view (hw s') (cs_loc (spi_part (env s)) nk) = pin_view (hw s) (cs_loc (spi_part (env s)) nk)"
    if "cs_registered (spi_cfgs cfg) (spi_part (env s)) nk" for nk
  proof (rule board_step_inv(2) [OF assms(1,2)])
    have "cs_loc (spi_part (env s)) nk \<in> cs_locs (spi_cfgs cfg)"
      using assms(2) cs_table_at(1) that by (simp add: board_inv_def board_apart_def)
    then show "cs_loc (spi_part (env s)) nk \<notin> owned cfg ws l"
      using assms(2) False by (cases l) (auto simp: board_inv_def board_apart_def)
  qed
  then show ?thesis
    by (auto simp: sel board_step_inv(3) [OF assms(1,2)] cs_active_def pin_view_def)
qed

text \<open>
  C8. The chip selects under interleaving: if no pin is listed twice, then in every state the board can
  get into, whatever the other drivers, the inputs and interrupts did in between, exactly those
  chip selects are active whose last select call selected them.
\<close>

theorem board_selects_refine:
  assumes "board_run other d cfg ws tr s"
    "inj_on (cs_loc (spi_part (env s))) (Collect (cs_registered (spi_cfgs cfg) (spi_part (env s))))"
  shows "cs_active (spi_cfgs cfg) (spi_part (env s)) (hw s) = spec_select (selects tr) {}"
  using assms
proof (induction rule: board_run.induct)
  case (up k ext c s r s')
  then show ?case using board_up(3) by simp
next
  case (step tr s l s')
  have inv: "board_inv cfg ws s" using step(1) by (rule board_run_inv)
  have same: "spi_part (env s') = spi_part (env s)" using board_step_inv(3) [OF step(2) inv] .
  then have "cs_good (spi_cfgs cfg) (spi_part (env s))"
    using step(4) inv cs_table_at(2,3) by (auto simp: cs_good_def board_inv_def board_apart_def)
  then show ?case using step_active [OF step(2) inv] step(3,4) same by (simp add: selects_append spec_select_append)
qed

text \<open>Nobody has written to the LED device, or used the GPIO devices.\<close>

fun led_quiet :: "board_label \<Rightarrow> bool" where
  "led_quiet Gpio_devs \<longleftrightarrow> False"
| "led_quiet (Leds w) \<longleftrightarrow> \<not> w"
| "led_quiet _ \<longleftrightarrow> True"

lemma led_loc_pin: "i < 3 \<Longrightarrow> led_loc i \<in> led_pins"
  by (auto simp: below_3 led_pins_def)

lemma step_in_step:
  assumes "board_step other d cfg l s s'" "board_inv cfg ws s" "led_quiet l" "uled.in_step (as_led s)"
  shows "uled.in_step (as_led s')"
proof (cases "\<exists>w. l = Leds w")
  case True
  then show ?thesis
    using assms by (auto elim!: board_step.cases simp: board_inv_def intro: uled.op_ok(2))
next
  case False
  have "pin_view (hw s') (led_loc i) = pin_view (hw s) (led_loc i)" if "i < 3" for i
  proof (rule board_step_inv(2) [OF assms(1,2)])
    show "led_loc i \<notin> owned cfg ws l"
      using assms(2,3) False led_loc_pin [OF that] by (cases l) (auto simp: board_inv_def board_apart_def)
  qed
  then have "leds_lit (ledhw (as_led s')) = leds_lit (ledhw (as_led s))" by (auto simp: leds_lit_def pin_view_def)
  then show ?thesis using assms(4) board_step_inv(4) [OF assms(1,2)] False by (simp add: uled.in_step_def)
qed

lemma run_in_step: "board_run other d cfg ws tr s \<Longrightarrow> list_all led_quiet tr \<Longrightarrow> uled.in_step (as_led s)"
proof (induction rule: board_run.induct)
  case (step tr s l s')
  then show ?case using step_in_step [OF step(2) board_run_inv [OF step(1)]] by simp
qed (simp add: board_up)

lemma gpout_lit:
  assumes "i < 3"
  shows "leds_lit \<lparr>g_lednum = n, led_bus = stm32_gpiowrite (g_gpiooutputs ! i) on h\<rparr> =
    (if on then insert i (leds_lit \<lparr>g_lednum = n, led_bus = h\<rparr>) else leds_lit \<lparr>g_lednum = n, led_bus = h\<rparr> - {i})"
proof -
  have "gpio_valid (g_gpiooutputs ! i)" "gpio_loc (g_gpiooutputs ! i) = led_loc i"
    using assms by (auto simp: below_3 g_gpiooutputs_def led_loc_def g_ledcfg_def)
  then show ?thesis using assms by (auto simp: leds_lit_def gpio.wr_level led_loc_inj)
qed

text \<open>
  C30. Two drivers on the same LEDs: as long as nobody has written to the LED device or used the GPIO devices,
  in every state the board can get into the request for the state of the LEDs answers with exactly
  those that are lit, whatever happens elsewhere. But writing a digit to one of the three GPIO output devices
  always switches the LED, and the LED driver goes on answering what it did before.
\<close>

theorem board_leds_shared:
  assumes "board_run other d cfg ws tr s"
  shows "(list_all led_quiet tr \<longrightarrow> (\<exists>w. userled_ioctl g_userled_lower False effects 0 (ULEDIOC_GETALL True) (as_led s) =
        Some (OK, Out_set w, as_led s) \<and> set_bits w = leds_lit (ledhw (as_led s)))) \<and>
     (i < 3 \<longrightarrow> (\<exists>t. gpio_write board_ops \<lparr>f_dev = Suc i, f_pos = n, f_priv = a\<rparr> (if on then ''1'' else ''0'') (as_gpio s) = Some (1, t) \<and>
        board_run other d cfg ws (tr @ [Gpio_devs]) (of_gpio s t) \<and>
        leds_lit (ledhw (as_led (of_gpio s t))) =
          (if on then insert i (leds_lit (ledhw (as_led s))) else leds_lit (ledhw (as_led s)) - {i}) \<and>
        userled_ioctl g_userled_lower False effects 0 (ULEDIOC_GETALL True) (as_led (of_gpio s t)) =
          Some (OK, Out_set (lu_ledset (ldev (as_led s))), as_led (of_gpio s t))))"
proof -
  have inv: "board_inv cfg ws s" using assms by (rule board_run_inv)
  have "\<exists>w. userled_ioctl g_userled_lower False effects 0 (ULEDIOC_GETALL True) (as_led s) = Some (OK, Out_set w, as_led s) \<and>
      set_bits w = leds_lit (ledhw (as_led s))" if "list_all led_quiet tr"
    using run_in_step [OF assms that] by (simp add: uled.getall_eq uled.in_step_def)
  moreover have "\<exists>t. gpio_write board_ops \<lparr>f_dev = Suc i, f_pos = n, f_priv = a\<rparr> (if on then ''1'' else ''0'') (as_gpio s) = Some (1, t) \<and>
        board_run other d cfg ws (tr @ [Gpio_devs]) (of_gpio s t) \<and>
        leds_lit (ledhw (as_led (of_gpio s t))) =
          (if on then insert i (leds_lit (ledhw (as_led s))) else leds_lit (ledhw (as_led s)) - {i}) \<and>
        userled_ioctl g_userled_lower False effects 0 (ULEDIOC_GETALL True) (as_led (of_gpio s t)) =
          Some (OK, Out_set (lu_ledset (ldev (as_led s))), as_led (of_gpio s t))" if i: "i < 3"
  proof -
    let ?t = "on_hw (stm32_gpiowrite (g_gpiooutputs ! i) on) (as_gpio s)"
    have "gpio_ready (as_gpio s)" using board_invD(1) [OF inv] by (simp add: gpint_inv_def)
    then have "is_dev GPIO_OUTPUT_PIN g_gpout_ops i (gdev (Suc i) (as_gpio s))" using gpout_device [of "as_gpio s" "Suc i"] i by simp
    then have w: "gpio_write board_ops \<lparr>f_dev = Suc i, f_pos = n, f_priv = a\<rparr> (if on then ''1'' else ''0'') (as_gpio s) = Some (1, ?t)"
      by (cases on) (simp_all add: gpio_write_def is_dev_def stm32_gpout_write_def)
    have "gpio_op (as_gpio s) ?t" using i by (intro gpio_op.put [OF _ w]) simp
    then have "board_run other d cfg ws (tr @ [Gpio_devs]) (of_gpio s ?t)"
      using board_run.step [OF assms board_step.gpio] by blast
    moreover have "leds_lit (ledhw (as_led (of_gpio s ?t))) =
        (if on then insert i (leds_lit (ledhw (as_led s))) else leds_lit (ledhw (as_led s)) - {i})"
      using gpout_lit [OF i, of "led_count (env s)" on "hw s"] by (simp add: as_led_def of_gpio_def on_hw_def)
    ultimately show ?thesis using w by (intro exI [of _ ?t]) (simp add: uled.getall_eq)
  qed
  ultimately show ?thesis by blast
qed

subsection \<open>A run of the board\<close>

text \<open>
  The bring-up of the board with three buttons and three chip selects, and then the button device is
  opened; there are no handlers but those of the modelled drivers.
\<close>

definition no_isrs :: "nat other_isrs" where
  "no_isrs n irq a e = (OK, e)"

definition demo_pins :: "u32 list" where
  "demo_pins = [pin_word BTN_FLAGS 2 13, pin_word BTN_FLAGS 0 0, pin_word BTN_FLAGS 6 14]"

lemma demo_pins_locs: "gpio_loc ` set demo_pins = {(2, 13), (0, 0), (6, 14)}" "gpio_pin ` set demo_pins = {13, 0, 14}"
  using demo_locs(2) by (simp_all add: demo_pins_def pin_word_parts btn.flags_ok)

lemma demo_up:
  "\<exists>s. board_run no_isrs d demo_bringup demo_pins [] s \<and> leds_lit (ledhw (as_led s)) = {} \<and> cs_idle (hw s) (5, 12)"
proof -
  have sp: "spi_cfgs demo_bringup = demo_spi_cfgs" by (simp add: demo_bringup_def)
  obtain r s where s: "stm32_bringup demo_kernel demo_bringup demo_ext demo_board = Some (r, s)" "leds_lit (ledhw (as_led s)) = {}"
    "\<forall>p \<in> cs_locs demo_spi_cfgs. cs_idle (hw s) p"
    using bringup_up [OF demo_board_good demo_board_boot] unfolding sp by (elim exE conjE) (rule that)
  have "board_run no_isrs d demo_bringup demo_pins [] s"
    using demo_board_good demo_pins_locs(2) unfolding demo_pins_def by (intro board_run.up [OF _ _ demo_board_boot s(1)]) simp_all
  then show ?thesis using s by (intro exI [of _ s]) (simp add: demo_locs(1))
qed

text \<open>In any state of a run the button device can be opened, and then all buttons are armed.\<close>

lemma run_open:
  assumes "board_run other d cfg ws tr (s :: nat board)"
  shows "\<exists>s'. board_step other d cfg Buttons s s' \<and> board_run other d cfg ws (tr @ [Buttons]) s' \<and>
    (\<forall>q \<in> gpio_pin ` set ws. int_enabled (exti_lines (hw s') q)) \<and> btn_lines (as_btn s') = gpio_pin ` set ws"
proof -
  have inv: "board_inv cfg ws s" using assms by (rule board_run_inv)
  obtain a where a: "a \<notin> fst ` set (bu_open (the_upper (as_btn s)))"
    using ex_new_if_finite [OF infinite_UNIV_nat] by fastforce
  obtain p t where t: "btn_open g_btnlower 2 0 (Some a) \<lparr>bf_priv = 0\<rparr> (as_btn s) = (OK, \<lparr>bf_priv = 0\<rparr>\<lparr>bf_priv := a\<rparr>, t)"
    "btn_armed t = {..<g_btnnum (the_low (as_btn s))}"
    using open_arms [OF board_invD(3) [OF inv], of 2 0 a "\<lparr>bf_priv = 0\<rparr>"] by blast
  have op: "btn_op d g_btnlower (as_btn s) t" using a by (intro btn_op.opened [OF _ t(1)]) simp
  then have st: "board_step other d cfg Buttons s (of_btn s t)" by (rule board_step.buttons)
  have inv': "board_inv cfg ws (of_btn s t)" by (rule board_step_inv(1) [OF st inv])
  have sl: "btn_lines (as_btn (of_btn s t)) = gpio_pin ` set ws"
    using inv' by (simp add: board_inv_def btn_lines_locs image_image gpio_loc_def)
  have "g_btnnum (the_low t) = g_btnnum (the_low (as_btn s))"
    using btn_op_inv(5) [OF op board_invD(2) [OF inv]] .
  then have "callback (g_gpio_callbacks t ! q) \<noteq> None" if "q \<in> btn_lines t" for q
    using t(2) that by (auto simp: btn_lines_def btn_armed_def)
  moreover have "q < 16" if "q \<in> btn_lines t" for q using that by (auto simp: btn_lines_def)
  ultimately have "\<forall>q \<in> gpio_pin ` set ws. int_enabled (exti_lines (hw (of_btn s t)) q)"
    using board_invD(4) [OF inv'] sl by (simp add: exti_inv_def)
  with st sl board_run.step [OF assms st] show ?thesis by blast
qed

lemma demo_opened:
  "\<exists>s. board_run no_isrs d demo_bringup demo_pins [Buttons] s \<and>
     (\<forall>q \<in> {13, 0, 14}. int_enabled (exti_lines (hw s) q)) \<and> btn_lines (as_btn s) = {13, 0, 14}"
proof -
  obtain s where s: "board_run no_isrs d demo_bringup demo_pins [] s" using demo_up by blast
  from run_open [OF s] show ?thesis unfolding demo_pins_locs(2) append_Nil by blast
qed

theorem board_lines_follow_witness:
  "\<exists>s. board_run no_isrs False demo_bringup demo_pins [Buttons] s \<and> int_enabled (exti_lines (hw s) 14) \<and>
     (\<exists>i < g_btnnum (the_low (as_btn s)). 14 = btn_pin (as_btn s) i \<and>
        i \<in> press_set (bu_open (the_upper (as_btn s))) \<union> release_set (bu_open (the_upper (as_btn s))))"
proof -
  obtain s where s: "board_run no_isrs False demo_bringup demo_pins [Buttons] s" "int_enabled (exti_lines (hw s) 14)"
    using demo_opened by blast
  with board_lines_follow [OF s(1), THEN conjunct1, rule_format, of 14] show ?thesis by (intro exI [of _ s]) simp
qed

theorem board_interrupt_delivers_witness:
  "\<exists>s s'. board_run no_isrs False demo_bringup demo_pins [Buttons] s \<and>
     irq_dispatch (board_call no_isrs False) (exti_irq 0) None s = Some s' \<and>
     board_run no_isrs False demo_bringup demo_pins [Buttons, Irq 0] s' \<and>
     wlog (hw s') = ack 0 # wlog (hw s) \<and> env (as_btn s') = env (btn_interrupt False g_btnlower (as_btn s)) \<and>
     env (as_gpio s') = env (as_gpio s)"
proof -
  obtain s where s: "board_run no_isrs False demo_bringup demo_pins [Buttons] s" "int_enabled (exti_lines (hw s) 0)"
    "btn_lines (as_btn s) = {13, 0, 14}"
    using demo_opened by blast
  have "exti_served pr 0 = [0]" for pr by (simp add: exti_served_def)
  then show ?thesis using board_interrupt_delivers [OF s(1) _ s(2), of None] s by auto
qed

theorem board_pins_owned_witness:
  "\<exists>s s'. board_run no_isrs False demo_bringup demo_pins [] s \<and> board_step no_isrs False demo_bringup Buttons s s' \<and>
     pin_view (hw s') (5, 12) = pin_view (hw s) (5, 12)"
proof -
  obtain s where s: "board_run no_isrs False demo_bringup demo_pins [] s" using demo_up by blast
  obtain s' where s': "board_step no_isrs False demo_bringup Buttons s s'" using run_open [OF s] by blast
  have "(5, 12) \<notin> owned demo_bringup demo_pins Buttons" by (simp add: demo_pins_locs)
  with board_pins_owned [OF s s', of "(5, 12)"] s s' show ?thesis by blast
qed

lemma run_select:
  assumes "board_run other d demo_bringup ws tr s" "nk \<in> {(0, 0), (0, 1), (2, 0)}"
  shows "\<exists>s'. board_run other d demo_bringup ws (tr @ [Select nk on]) s'"
proof -
  have "cs_table demo_spi_cfgs (spi_part (env s))" using board_run_inv [OF assms(1)] by (simp add: board_inv_def demo_bringup_def)
  from demo_registered(1) [OF this] have "cs_registered (spi_cfgs demo_bringup) (spi_part (env s)) nk"
    using assms(2) by (auto simp: demo_bringup_def)
  then show ?thesis using board_run.step [OF assms(1) board_step.select] by (cases nk) blast
qed

theorem board_selects_refine_witness:
  "\<exists>s. board_run no_isrs False demo_bringup demo_pins [Select (0, 1) True, Select (2, 0) True, Buttons, Select (0, 1) False] s \<and>
     cs_active demo_spi_cfgs (spi_part (env s)) (hw s) = {(2, 0)}"
proof -
  obtain s0 where "board_run no_isrs False demo_bringup demo_pins [] s0" using demo_up by blast
  from run_select [OF this, of "(0, 1)" True] obtain s1 where "board_run no_isrs False demo_bringup demo_pins [Select (0, 1) True] s1" by auto
  from run_select [OF this, of "(2, 0)" True]
  obtain s2 where "board_run no_isrs False demo_bringup demo_pins [Select (0, 1) True, Select (2, 0) True] s2" by auto
  from run_open [OF this]
  obtain s3 where "board_run no_isrs False demo_bringup demo_pins [Select (0, 1) True, Select (2, 0) True, Buttons] s3" by auto
  from run_select [OF this, of "(0, 1)" False]
  obtain s where s: "board_run no_isrs False demo_bringup demo_pins [Select (0, 1) True, Select (2, 0) True, Buttons, Select (0, 1) False] s"
    by auto
  have sp: "spi_cfgs demo_bringup = demo_spi_cfgs" by (simp add: demo_bringup_def)
  have "cs_table demo_spi_cfgs (spi_part (env s))" using board_run_inv [OF s] by (simp add: board_inv_def sp)
  from demo_registered [OF this] have "inj_on (cs_loc (spi_part (env s))) (Collect (cs_registered demo_spi_cfgs (spi_part (env s))))" by simp
  with board_selects_refine [OF s, unfolded sp] s show ?thesis by auto
qed

theorem board_leds_shared_witness:
  "\<exists>s t. board_run no_isrs False demo_bringup demo_pins [] s \<and>
     gpio_write board_ops \<lparr>f_dev = 2, f_pos = 0, f_priv = 0\<rparr> ''1'' (as_gpio s) = Some (1, t) \<and>
     leds_lit (ledhw (as_led s)) = {} \<and> leds_lit (ledhw (as_led (of_gpio s t))) = {1} \<and>
     (\<exists>w. userled_ioctl g_userled_lower False False 0 (ULEDIOC_GETALL True) (as_led s) = Some (OK, Out_set w, as_led s) \<and> set_bits w = {})"
proof -
  obtain s where s: "board_run no_isrs False demo_bringup demo_pins [] s" "leds_lit (ledhw (as_led s)) = {}" using demo_up by blast
  from board_leds_shared [OF s(1), of False 1 0 0 True] s show ?thesis by (auto simp: numeral_2_eq_2)
qed

end
