(* ===== verification/Poll_Call.thy ===== *)
theory Poll_Call
  imports Nx_Poll
begin

text \<open>
  Waiting for devices: \<^verbatim>\<open>poll\<close> of \<^verbatim>\<open>fs/vfs/fs_poll.c\<close>, with the descriptors and reference counts of
  \<^verbatim>\<open>fs/inode/fs_files.c\<close> that it uses. The \<^verbatim>\<open>poll\<close> operations of the drivers, and what they keep of the
  \<^verbatim>\<open>pollfd\<close> structures, are an interface; the button and GPIO drivers are shown to keep it in \<open>Poll_Devices\<close>.

  The state of the files has the descriptor table of the task, the reference counts of the files, and the
  devices. The environment says what lies behind a file and where the devices have the store of
  the \<^verbatim>\<open>pollfd\<close> structures. The array passed to \<^verbatim>\<open>poll\<close> is a list of pairs, the descriptor and the address of
  the structure. What happens while the task waits is the parameter \<open>wait\<close>, with the result of waiting for the
  semaphore; the build is the flat one, so the structures are used where they are.
\<close>

definition EBADF :: int where "EBADF = 9"
definition ETIMEDOUT :: int where "ETIMEDOUT = 110"

datatype (plugins only: code size) 's inode =
  Inode_poll "nat \<Rightarrow> bool \<Rightarrow> 's \<Rightarrow> (int \<times> 's) option"
| Inode_plain
| Inode_other

record 's fs_env =
  f_inode :: "nat \<Rightarrow> 's inode option"
  f_close :: "nat \<Rightarrow> 's \<Rightarrow> 's"
  get_polls :: "'s \<Rightarrow> poll_world"
  on_polls :: "(poll_world \<Rightarrow> poll_world) \<Rightarrow> 's \<Rightarrow> 's"

record 's fs_state =
  fl_fds :: "int \<Rightarrow> nat option"
  f_refs :: "nat \<Rightarrow> int"
  devs :: 's

definition upd_pollfd :: "nat \<Rightarrow> (pollfd \<Rightarrow> pollfd) \<Rightarrow> poll_world \<Rightarrow> poll_world" where
  "upd_pollfd p g w = w\<lparr>pollfds := (pollfds w)(p := g (pollfds w p))\<rparr>"

definition on_fd :: "'s fs_env \<Rightarrow> nat \<Rightarrow> (pollfd \<Rightarrow> pollfd) \<Rightarrow> 's fs_state \<Rightarrow> 's fs_state" where
  "on_fd E p g s = s\<lparr>devs := on_polls E (upd_pollfd p g) (devs s)\<rparr>"

definition the_fd :: "'s fs_env \<Rightarrow> nat \<Rightarrow> 's fs_state \<Rightarrow> pollfd" where
  "the_fd E p s = pollfds (get_polls E (devs s)) p"

subsection \<open>Files\<close>

text \<open>The list of descriptors is that of a running task, which has one; a descriptor out of its range has no file.\<close>

definition file_get :: "int \<Rightarrow> 's fs_state \<Rightarrow> int \<times> nat \<times> 's fs_state" where
  "file_get fd s =
     (case fl_fds s fd of
        None \<Rightarrow> (- EBADF, 0, s)
      | Some f \<Rightarrow> (OK, f, s\<lparr>f_refs := (f_refs s)(f := f_refs s f + 1)\<rparr>))"

definition file_put :: "'s fs_env \<Rightarrow> nat \<Rightarrow> 's fs_state \<Rightarrow> 's fs_state" where
  "file_put E f s =
     (let n = f_refs s f; s = s\<lparr>f_refs := (f_refs s)(f := n - 1)\<rparr> in
      if n = 1 then s\<lparr>devs := f_close E f (devs s)\<rparr> else s)"

definition file_poll :: "'s fs_env \<Rightarrow> nat \<Rightarrow> nat \<Rightarrow> bool \<Rightarrow> 's fs_state \<Rightarrow> (int \<times> 's fs_state) option" where
  "file_poll E f p setup s =
     (let notify = (\<lambda>eventset. s\<lparr>devs := on_polls E (poll_notify [Some p] eventset) (devs s)\<rparr>) in
      case f_inode E f of
        Some (Inode_poll op) \<Rightarrow> map_option (\<lambda>(ret, d). (ret, s\<lparr>devs := d\<rparr>)) (op p setup (devs s))
      | Some Inode_plain \<Rightarrow> Some (OK, if setup then notify (POLLIN OR POLLOUT) else s)
      | Some Inode_other \<Rightarrow> Some (- ENOSYS, s)
      | None \<Rightarrow> Some (OK, notify (POLLERR OR POLLHUP)))"

subsection \<open>Polling\<close>

definition add_err :: "pollfd \<Rightarrow> pollfd" where
  "add_err f = f\<lparr>revents := revents f OR POLLERR\<rparr>"

definition teardown_one :: "'s fs_env \<Rightarrow> int \<Rightarrow> nat \<Rightarrow> 's fs_state \<Rightarrow> 's fs_state option" where
  "teardown_one E fd p s =
     (if 0 \<le> fd then
        let (ret, f, s) = file_get fd s in
        if 0 \<le> ret then
          (case file_poll E f p False s of
             None \<Rightarrow> None
           | Some (ret, s) \<Rightarrow>
               let s = file_put E f (file_put E f s) in Some (if ret < 0 then on_fd E p add_err s else s))
        else Some (on_fd E p add_err s)
      else Some s)"

fun poll_teardown :: "'s fs_env \<Rightarrow> (int \<times> nat) list \<Rightarrow> 's fs_state \<Rightarrow> (nat \<times> 's fs_state) option" where
  "poll_teardown E [] s = Some (0, s)"
| "poll_teardown E ((fd, p) # fds) s =
     (case teardown_one E fd p s of
        None \<Rightarrow> None
      | Some s \<Rightarrow>
          let n = (if revents (the_fd E p s) \<noteq> 0 then 1 else 0) in
          map_option (\<lambda>(count, s). (n + count, s)) (poll_teardown E fds (on_fd E p (\<lambda>f. f\<lparr>cb := False\<rparr>) s)))"

text \<open>
  The loop of \<^verbatim>\<open>poll_setup\<close>, with the descriptors before \<open>i\<close> as \<open>before\<close>; the flag says that it has returned from
  within the loop. \<open>num\<close> is what the code computes: one less than \<open>i\<close> if there is no such descriptor.
\<close>

fun setup_loop ::
  "'s fs_env \<Rightarrow> (int \<times> nat) list \<Rightarrow> (int \<times> nat) list \<Rightarrow> nat \<Rightarrow> 's fs_state \<Rightarrow> (nat \<times> bool \<times> 's fs_state) option" where
  "setup_loop E before [] count s = Some (count, False, s)"
| "setup_loop E before ((fd, p) # fds) count s =
     (let s = on_fd E p (\<lambda>f. f\<lparr>cb := True, revents := 0, priv := None\<rparr>) s in
      if 0 \<le> fd then
        let (ret, f, s) = file_get fd s;
            num = (if ret < 0 then int (length before) - 1 else int (length before))
        in case (if ret < 0 then Some (ret, s) else file_poll E f p True s) of
             None \<Rightarrow> None
           | Some (ret, s) \<Rightarrow>
               if ret < 0 then
                 (case (if 0 \<le> num then poll_teardown E (take (nat num) before) s else Some (count, s)) of
                    None \<Rightarrow> None
                  | Some (count, s) \<Rightarrow> Some (count + 1, True, on_fd E p (\<lambda>f. (add_err f)\<lparr>cb := False\<rparr>) s))
               else setup_loop E (before @ [(fd, p)]) fds (if revents (the_fd E p s) \<noteq> 0 then count + 1 else count) s
      else setup_loop E (before @ [(fd, p)]) fds count s)"

definition poll_setup :: "'s fs_env \<Rightarrow> (int \<times> nat) list \<Rightarrow> 's fs_state \<Rightarrow> (nat \<times> 's fs_state) option" where
  "poll_setup E fds s =
     (case setup_loop E [] fds 0 s of
        None \<Rightarrow> None
      | Some (count, failed, s) \<Rightarrow> if \<not> failed \<and> count > 0 then poll_teardown E fds s else Some (count, s))"

definition poll_wait :: "int \<Rightarrow> ('s fs_state \<Rightarrow> int \<times> 's fs_state) \<Rightarrow> 's fs_state \<Rightarrow> int \<times> 's fs_state" where
  "poll_wait timeout wait s =
     (if timeout > 0 then let (ret, s) = wait s in (if ret = - ETIMEDOUT then OK else ret, s)
      else if timeout < 0 then wait s else (OK, s))"

text \<open>The result holds the return value and \<^verbatim>\<open>errno\<close>, which is 0 if it is not set.\<close>

definition poll ::
  "'s fs_env \<Rightarrow> (int \<times> nat) list \<Rightarrow> int \<Rightarrow> ('s fs_state \<Rightarrow> int \<times> 's fs_state) \<Rightarrow> 's fs_state \<Rightarrow>
   (int \<times> int \<times> 's fs_state) option" where
  "poll E fds timeout wait s =
     (case poll_setup E fds s of
        None \<Rightarrow> None
      | Some (count, s) \<Rightarrow>
          if count = 0 then
            let (ret, s) = poll_wait timeout wait s in
            (case poll_teardown E fds s of
               None \<Rightarrow> None
             | Some (count, s) \<Rightarrow> Some (if ret < 0 then (- 1, - ret, s) else (int count, 0, s)))
          else Some (int count, 0, s))"

subsection \<open>What polling relies on and promises\<close>

text \<open>
  The interface of a driver: \<open>held d\<close> are the addresses of the structures it has stored, and \<open>ok\<close> its own
  invariant. The file \<open>f\<close> has its slots with \<open>chan f\<close>, which may be shared by files, and \<open>room d k\<close> of the slots of
  \<open>k\<close> are free. Setting up takes a slot and stores the structure, and fails without storing it exactly if no slot is free; it touches no other structure.
  Tearing down forgets it and touches no events. The driver does not mind changes of structures that it
  has not stored, or that leave the pointer of the driver in them alone.
\<close>

locale poll_device =
  fixes E :: "'s fs_env" and ok :: "'s \<Rightarrow> bool" and held :: "'s \<Rightarrow> nat set"
    and chan :: "nat \<Rightarrow> nat" and room :: "'s \<Rightarrow> nat \<Rightarrow> nat"
  assumes get_on: "get_polls E (on_polls E g d) = g (get_polls E d)"
    and write_other: "ok d \<Longrightarrow> p \<notin> held d \<Longrightarrow>
      ok (on_polls E (upd_pollfd p h) d) \<and> held (on_polls E (upd_pollfd p h) d) = held d"
    and write_keep: "ok d \<Longrightarrow> (\<And>w q. priv (pollfds (g w) q) = priv (pollfds w q)) \<Longrightarrow>
      ok (on_polls E g d) \<and> held (on_polls E g d) = held d"
    and write_room: "room (on_polls E g d) = room d"
    and dev_setup: "ok d \<Longrightarrow> p \<notin> held d \<Longrightarrow> f_inode E f = Some (Inode_poll op) \<Longrightarrow>
      \<exists>r d'. op p True d = Some (r, d') \<and> ok d' \<and>
        (if 0 < room d (chan f)
         then r = OK \<and> held d' = insert p (held d) \<and> room d' = (room d)(chan f := room d (chan f) - 1)
         else r < 0 \<and> held d' = held d \<and> room d' = room d) \<and>
        (\<forall>q. q \<noteq> p \<longrightarrow> pollfds (get_polls E d') q = pollfds (get_polls E d) q)"
    and dev_teardown: "ok d \<Longrightarrow> p \<in> held d \<Longrightarrow> f_inode E f = Some (Inode_poll op) \<Longrightarrow>
      \<exists>d'. op p False d = Some (OK, d') \<and> ok d' \<and> held d' = held d - {p} \<and>
        (\<forall>q. revents (pollfds (get_polls E d') q) = revents (pollfds (get_polls E d) q))"

text \<open>The references a list of descriptors holds.\<close>

definition uses :: "(int \<Rightarrow> nat option) \<Rightarrow> (int \<times> nat) list \<Rightarrow> nat \<Rightarrow> int" where
  "uses T fds f = int (length (filter (\<lambda>x. 0 \<le> fst x \<and> T (fst x) = Some f) fds))"

lemma uses_simps [simp]:
  "uses T [] f = 0" "uses T (x # fds) f = (if 0 \<le> fst x \<and> T (fst x) = Some f then 1 else 0) + uses T fds f"
  "uses T (fds @ fds') f = uses T fds f + uses T fds' f" "0 \<le> uses T fds f"
  by (simp_all add: uses_def)

text \<open>The descriptors that are ignored, or have a file that can be polled and that the table holds open.\<close>

definition good_fd :: "'s fs_env \<Rightarrow> 's fs_state \<Rightarrow> int \<times> nat \<Rightarrow> bool" where
  "good_fd E s x \<longleftrightarrow> (0 \<le> fst x \<longrightarrow> (\<exists>f. fl_fds s (fst x) = Some f \<and> 1 \<le> f_refs s f \<and> f_inode E f \<noteq> Some Inode_other \<and> f_inode E f \<noteq> None))"

definition ready_count :: "'s fs_env \<Rightarrow> (int \<times> nat) list \<Rightarrow> 's fs_state \<Rightarrow> nat" where
  "ready_count E fds s = length (filter (\<lambda>x. revents (the_fd E (snd x) s) \<noteq> 0) fds)"

text \<open>The descriptors whose structure a driver stores.\<close>

definition stored :: "'s fs_env \<Rightarrow> (int \<Rightarrow> nat option) \<Rightarrow> int \<times> nat \<Rightarrow> bool" where
  "stored E T x \<longleftrightarrow> 0 \<le> fst x \<and> (\<exists>f op. T (fst x) = Some f \<and> f_inode E f = Some (Inode_poll op))"

text \<open>The slots that a list of descriptors needs with \<open>k\<close>, and that there are enough of them, \<open>R\<close> being those that are free.\<close>

definition demand :: "'s fs_env \<Rightarrow> (nat \<Rightarrow> nat) \<Rightarrow> (int \<Rightarrow> nat option) \<Rightarrow> (int \<times> nat) list \<Rightarrow> nat \<Rightarrow> nat" where
  "demand E chan T fds k = length (filter (\<lambda>x. stored E T x \<and> map_option chan (T (fst x)) = Some k) fds)"

definition fits :: "'s fs_env \<Rightarrow> (nat \<Rightarrow> nat) \<Rightarrow> (int \<Rightarrow> nat option) \<Rightarrow> (nat \<Rightarrow> nat) \<Rightarrow> (int \<times> nat) list \<Rightarrow> bool" where
  "fits E chan T R fds \<longleftrightarrow> (\<forall>k. demand E chan T fds k \<le> R k)"

lemma demand_simps [simp]:
  "demand E chan T [] k = 0"
  "demand E chan T (x # fds) k = (if stored E T x \<and> map_option chan (T (fst x)) = Some k then 1 else 0) + demand E chan T fds k"
  "demand E chan T (fds @ fds') k = demand E chan T fds k + demand E chan T fds' k"
  by (simp_all add: demand_def)

lemma fits_prefix: "fits E chan T R (pre @ x # post) \<Longrightarrow> fits E chan T R (pre @ [x])"
  unfolding fits_def by (auto elim: allE [THEN order_trans [rotated]])

text \<open>
  The result once all descriptors are set up, in state \<open>t\<close>: the call waits unless some have events already; what it returns is
  the error of the wait, or the number of descriptors with events, and the events are those at the end of the wait.
\<close>

definition poll_outcome ::
  "'s fs_env \<Rightarrow> (int \<times> nat) list \<Rightarrow> int \<Rightarrow> ('s fs_state \<Rightarrow> int \<times> 's fs_state) \<Rightarrow> 's fs_state \<Rightarrow> int \<times> int \<times> 's fs_state \<Rightarrow> bool" where
  "poll_outcome E fds timeout wait t res \<longleftrightarrow>
     (let (ret, u) = (if ready_count E fds t = 0 then poll_wait timeout wait t else (OK, t)); (v, e, s') = res in
      (\<forall>q. revents (the_fd E q s') = revents (the_fd E q u)) \<and>
      v = (if ret < 0 then - 1 else int (ready_count E fds s')) \<and> e = (if ret < 0 then - ret else 0))"

lemma good_fdE:
  assumes "good_fd E s (fd, p)" "0 \<le> fd"
  obtains f op where "fl_fds s fd = Some f" "1 \<le> f_refs s f" "f_inode E f = Some (Inode_poll op)"
  | f where "fl_fds s fd = Some f" "1 \<le> f_refs s f" "f_inode E f = Some Inode_plain"
proof -
  obtain f where f: "fl_fds s fd = Some f" "1 \<le> f_refs s f" "f_inode E f \<noteq> Some Inode_other" "f_inode E f \<noteq> None"
    using assms by (auto simp: good_fd_def)
  then obtain i where "f_inode E f = Some i" by auto
  with f show thesis by (cases i) (auto intro: that)
qed

lemma good_fd_cong: "fl_fds s' = fl_fds s \<Longrightarrow> (\<And>f. f_refs s f \<le> f_refs s' f) \<Longrightarrow> good_fd E s x \<Longrightarrow> good_fd E s' x"
  unfolding good_fd_def by (metis order_trans)

lemma on_fd_simps [simp]: "fl_fds (on_fd E p g s) = fl_fds s" "f_refs (on_fd E p g s) = f_refs s"
  "devs (on_fd E p g s) = on_polls E (upd_pollfd p g) (devs s)"
  by (simp_all add: on_fd_def)

lemma setup_loop_append:
  "setup_loop E before (fds @ fds') count s =
     (case setup_loop E before fds count s of
        None \<Rightarrow> None
      | Some (c, b, t) \<Rightarrow> if b then Some (c, b, t) else setup_loop E (before @ fds) fds' c t)"
proof (induction fds arbitrary: before count s)
  case (Cons x fds)
  obtain fd p where x: "x = (fd, p)" by (rule prod.exhaust)
  let ?s = "on_fd E p (\<lambda>f. f\<lparr>cb := True, revents := 0, priv := None\<rparr>) s"
  obtain ret f t where g: "file_get fd ?s = (ret, f, t)" by (rule prod_cases3)
  show ?case
  proof (cases "0 \<le> fd")
    case True
    note step = x append_Cons setup_loop.simps Let_def g prod.case if_P [OF True]
    show ?thesis
    proof (cases "if ret < 0 then Some (ret, t) else file_poll E f p True t")
      case None
      show ?thesis unfolding step None option.case by (rule refl)
    next
      case (Some res)
      obtain r u where r: "res = (r, u)" by (rule prod.exhaust)
      show ?thesis
      proof (cases "r < 0")
        case neg: True
        show ?thesis unfolding step Some r option.case prod.case if_P [OF neg] by (simp split: option.split)
      next
        case pos: False
        show ?thesis unfolding step Some r option.case prod.case if_not_P [OF pos] Cons.IH append_assoc append_Nil by (rule refl)
      qed
    qed
  next
    case False
    show ?thesis unfolding x append_Cons setup_loop.simps Let_def if_not_P [OF False] Cons.IH append_assoc append_Nil by (rule refl)
  qed
qed simp

context poll_device
begin

lemma the_fd_on [simp]: "the_fd E q (on_fd E p g s) = (if q = p then g (the_fd E p s) else the_fd E q s)"
  by (simp add: the_fd_def get_on upd_pollfd_def)

lemma teardown_one_ok:
  assumes "ok (devs s)" "good_fd E s (fd, p)" "snd (fd, p) \<in> held (devs s) \<longleftrightarrow> stored E (fl_fds s) (fd, p)"
    "\<And>f. fl_fds s fd = Some f \<Longrightarrow> 0 \<le> fd \<Longrightarrow> 2 \<le> f_refs s f"
  shows "\<exists>s'. teardown_one E fd p s = Some s' \<and> ok (devs s') \<and> held (devs s') = held (devs s) - {p} \<and> fl_fds s' = fl_fds s \<and>
    f_refs s' = (\<lambda>f. f_refs s f - uses (fl_fds s) [(fd, p)] f) \<and> (\<forall>q. revents (the_fd E q s') = revents (the_fd E q s))"
proof (cases "0 \<le> fd")
  case False
  then show ?thesis using assms(1,3) by (auto simp: teardown_one_def stored_def)
next
  case fd: True
  from assms(2) fd show ?thesis
  proof (cases rule: good_fdE)
    case (1 f op)
    let ?s = "s\<lparr>f_refs := (f_refs s)(f := f_refs s f + 1)\<rparr>"
    have "p \<in> held (devs s)" using assms(3) 1 fd by (auto simp: stored_def)
    then obtain d where d: "op p False (devs s) = Some (OK, d)" "ok d" "held d = held (devs s) - {p}"
      "\<forall>q. revents (pollfds (get_polls E d) q) = revents (pollfds (get_polls E (devs s)) q)"
      using dev_teardown [OF assms(1) _ 1(3)] by blast
    moreover have "2 \<le> f_refs s f" using assms(4) 1 fd by simp
    ultimately show ?thesis
      using 1 fd by (simp add: teardown_one_def file_get_def file_poll_def file_put_def the_fd_def fun_eq_iff Let_def)
  next
    case (2 f)
    have "p \<notin> held (devs s)" using assms(3) 2 fd by (auto simp: stored_def)
    moreover have "2 \<le> f_refs s f" using assms(4) 2 fd by simp
    ultimately show ?thesis
      using 2 fd assms(1) by (simp add: teardown_one_def file_get_def file_poll_def file_put_def the_fd_def fun_eq_iff Let_def)
  qed
qed

lemma poll_teardown_ok:
  assumes "ok (devs s)" "distinct (map snd fds)" "\<forall>x \<in> set fds. good_fd E (s\<lparr>f_refs := r\<rparr>) x \<and> (snd x \<in> held (devs s) \<longleftrightarrow> stored E (fl_fds s) x)"
    "f_refs s = (\<lambda>f. r f + uses (fl_fds s) fds f)"
  shows "\<exists>s'. poll_teardown E fds s = Some (ready_count E fds s, s') \<and> ok (devs s') \<and> held (devs s') = held (devs s) - snd ` set fds \<and>
    fl_fds s' = fl_fds s \<and> f_refs s' = r \<and> (\<forall>q. revents (the_fd E q s') = revents (the_fd E q s))"
  using assms
proof (induction fds arbitrary: s)
  case Nil
  then show ?case by (simp add: ready_count_def)
next
  case (Cons x fds)
  obtain fd p where x: "x = (fd, p)" by (rule prod.exhaust)
  have good: "good_fd E (s\<lparr>f_refs := r\<rparr>) (fd, p)" using Cons.prems(3) x by simp
  have "good_fd E s (fd, p)" using good by (rule good_fd_cong [rotated 2]) (simp_all add: Cons.prems(4))
  moreover have "2 \<le> f_refs s f" if "fl_fds s fd = Some f" "0 \<le> fd" for f
  proof -
    have "1 \<le> r f" using good that by (auto simp: good_fd_def)
    moreover have "0 \<le> uses (fl_fds s) fds f" by simp
    ultimately show ?thesis using that by (simp add: Cons.prems(4) x del: uses_simps(4))
  qed
  ultimately obtain s1 where s1: "teardown_one E fd p s = Some s1" "ok (devs s1)" "held (devs s1) = held (devs s) - {p}" "fl_fds s1 = fl_fds s"
    "f_refs s1 = (\<lambda>f. f_refs s f - uses (fl_fds s) [(fd, p)] f)" "\<forall>q. revents (the_fd E q s1) = revents (the_fd E q s)"
    using teardown_one_ok [OF Cons.prems(1), of fd p] Cons.prems(3) x by auto
  let ?s2 = "on_fd E p (\<lambda>f. f\<lparr>cb := False\<rparr>) s1"
  have w: "ok (devs ?s2)" "held (devs ?s2) = held (devs s1)"
    using write_keep [OF s1(2), of "upd_pollfd p (\<lambda>f. f\<lparr>cb := False\<rparr>)"] by (simp_all add: upd_pollfd_def)
  have rc: "ready_count E fds ?s2 = ready_count E fds s"
  proof -
    have "revents (the_fd E q ?s2) = revents (the_fd E q s)" for q using s1(6) by simp
    then show ?thesis by (simp add: ready_count_def del: the_fd_on)
  qed
  have "p \<notin> snd ` set fds" using Cons.prems(2) x by simp
  then have "\<forall>x \<in> set fds. good_fd E (?s2\<lparr>f_refs := r\<rparr>) x \<and> (snd x \<in> held (devs ?s2) \<longleftrightarrow> stored E (fl_fds ?s2) x)"
    using Cons.prems(3) unfolding w s1(3) by (auto simp: good_fd_def s1(4))
  moreover have "f_refs ?s2 = (\<lambda>f. r f + uses (fl_fds ?s2) fds f)" unfolding on_fd_simps s1(4,5) Cons.prems(4) by (simp add: x)
  ultimately obtain s' where s': "poll_teardown E fds ?s2 = Some (ready_count E fds ?s2, s')" "ok (devs s')"
    "held (devs s') = held (devs ?s2) - snd ` set fds" "fl_fds s' = fl_fds ?s2" "f_refs s' = r"
    "\<forall>q. revents (the_fd E q s') = revents (the_fd E q ?s2)"
    using Cons.IH [OF w(1)] Cons.prems(2) by auto
  have "ready_count E (x # fds) s = (if revents (the_fd E p s1) \<noteq> 0 then 1 else 0) + ready_count E fds s"
    using s1(6) by (simp add: ready_count_def x)
  then show ?case using s1 s' w rc by (auto simp: x)
qed

text \<open>What one descriptor does that is set up: the driver takes it, or refuses it and nothing of it stays but the reference.\<close>

lemma file_poll_ok:
  assumes "ok (devs s)" "f_inode E f = Some (Inode_poll op) \<or> f_inode E f = Some Inode_plain" "p \<notin> held (devs s)"
  shows "\<exists>r s'. file_poll E f p True s = Some (r, s') \<and> ok (devs s') \<and> fl_fds s' = fl_fds s \<and> f_refs s' = f_refs s \<and>
    (\<forall>q. q \<noteq> p \<longrightarrow> the_fd E q s' = the_fd E q s) \<and>
    (if f_inode E f = Some Inode_plain then 0 \<le> r \<and> held (devs s') = held (devs s) \<and> room (devs s') = room (devs s)
     else if 0 < room (devs s) (chan f) then 0 \<le> r \<and> held (devs s') = insert p (held (devs s)) \<and>
       room (devs s') = (room (devs s))(chan f := room (devs s) (chan f) - 1)
     else r < 0 \<and> held (devs s') = held (devs s) \<and> room (devs s') = room (devs s))"
  using assms(2)
proof
  assume i: "f_inode E f = Some (Inode_poll op)"
  obtain r d where "op p True (devs s) = Some (r, d)" "ok d"
    "if 0 < room (devs s) (chan f)
     then r = OK \<and> held d = insert p (held (devs s)) \<and> room d = (room (devs s))(chan f := room (devs s) (chan f) - 1)
     else r < 0 \<and> held d = held (devs s) \<and> room d = room (devs s)"
    "\<forall>q. q \<noteq> p \<longrightarrow> pollfds (get_polls E d) q = pollfds (get_polls E (devs s)) q"
    using dev_setup [OF assms(1,3) i] by blast
  then show ?thesis by (simp add: file_poll_def i the_fd_def split: if_splits)
next
  assume i: "f_inode E f = Some Inode_plain"
  let ?g = "poll_notify [Some p] (POLLIN OR POLLOUT)"
  have "ok (on_polls E ?g (devs s))" "held (on_polls E ?g (devs s)) = held (devs s)"
    using write_keep [OF assms(1), of ?g] by (simp_all del: poll_notify.simps)
  moreover have "pollfds (?g w) q = pollfds w q" if "q \<noteq> p" for w q using that by simp
  ultimately show ?thesis by (simp add: file_poll_def i the_fd_def get_on write_room del: poll_notify.simps)
qed

definition set_up :: "(nat \<Rightarrow> int) \<Rightarrow> nat set \<Rightarrow> (int \<Rightarrow> nat option) \<Rightarrow> (int \<times> nat) list \<Rightarrow> 's fs_state \<Rightarrow> bool" where
  "set_up r H T fds s \<longleftrightarrow> ok (devs s) \<and> fl_fds s = T \<and> f_refs s = (\<lambda>f. r f + uses T fds f) \<and>
     held (devs s) = H \<union> snd ` {x \<in> set fds. stored E T x}"

lemma set_up_snoc:
  "set_up r H T (fds @ [x]) s \<longleftrightarrow> set_up (\<lambda>f. r f + uses T [x] f) (H \<union> (if stored E T x then {snd x} else {})) T fds s"
proof -
  have "{y \<in> set (fds @ [x]). stored E T y} = {y \<in> set fds. stored E T y} \<union> (if stored E T x then {x} else {})" by auto
  then have "snd ` {y \<in> set (fds @ [x]). stored E T y} = snd ` {y \<in> set fds. stored E T y} \<union> (if stored E T x then {snd x} else {})"
    by (simp add: image_Un)
  then show ?thesis by (simp add: set_up_def Un_ac add.assoc add.commute [of "uses T fds _"])
qed

lemma set_up_teardown:
  assumes "set_up r H T fds s" "distinct (map snd fds)" "H \<inter> snd ` set fds = {}" "\<forall>x \<in> set fds. good_fd E (s\<lparr>f_refs := r\<rparr>) x"
  shows "\<exists>s'. poll_teardown E fds s = Some (ready_count E fds s, s') \<and> set_up r H T [] s' \<and>
    (\<forall>q. revents (the_fd E q s') = revents (the_fd E q s))"
proof -
  have s: "ok (devs s)" "fl_fds s = T" "f_refs s = (\<lambda>f. r f + uses (fl_fds s) fds f)" "held (devs s) = H \<union> snd ` {x \<in> set fds. stored E T x}"
    using assms(1) by (auto simp: set_up_def)
  have "snd x \<in> held (devs s) \<longleftrightarrow> stored E T x" if "x \<in> set fds" for x
  proof
    assume "snd x \<in> held (devs s)"
    moreover have "snd x \<notin> H" using that assms(3) by blast
    ultimately obtain y where "y \<in> set fds" "stored E T y" "snd y = snd x" unfolding s(4) by auto
    then show "stored E T x" using assms(2) that by (auto simp: distinct_map dest: inj_onD)
  qed (use that s(4) in auto)
  then obtain s' where "poll_teardown E fds s = Some (ready_count E fds s, s')" "ok (devs s')" "held (devs s') = held (devs s) - snd ` set fds"
    "fl_fds s' = fl_fds s" "f_refs s' = r" "\<forall>q. revents (the_fd E q s') = revents (the_fd E q s)"
    using poll_teardown_ok [OF s(1) assms(2) _ s(3)] assms(4) s(2) by blast
  moreover have "held (devs s) - snd ` set fds = H" using assms(3) unfolding s(4) by auto
  ultimately show ?thesis using s(2) by (simp add: set_up_def)
qed

text \<open>
  The loop while there are slots; and how it ends: with all descriptors set up, or with the first of them refused that finds no
  free slot, which is then counted and marked.
\<close>

definition taken :: "(int \<Rightarrow> nat option) \<Rightarrow> (nat \<Rightarrow> nat) \<Rightarrow> (int \<times> nat) list \<Rightarrow> 's fs_state \<Rightarrow> bool" where
  "taken T R fds s \<longleftrightarrow> (\<forall>k. room (devs s) k + demand E chan T fds k = R k)"

lemma taken_fits: "taken T R fds s \<Longrightarrow> fits E chan T R fds"
  unfolding taken_def fits_def by (metis le_add2)

definition loop_post ::
  "(nat \<Rightarrow> int) \<Rightarrow> nat set \<Rightarrow> (int \<Rightarrow> nat option) \<Rightarrow> (nat \<Rightarrow> nat) \<Rightarrow> (int \<times> nat) list \<Rightarrow> nat \<times> bool \<times> 's fs_state \<Rightarrow> bool" where
  "loop_post r H T R fds res \<longleftrightarrow>
     (case res of (c, b, s) \<Rightarrow>
        if b then \<exists>pre x post. fds = pre @ x # post \<and> 0 \<le> fst x \<and> fits E chan T R pre \<and> \<not> fits E chan T R (pre @ [x]) \<and>
          set_up (\<lambda>f. r f + uses T [x] f) H T [] s \<and> c = ready_count E pre s + 1 \<and>
          revents (the_fd E (snd x) s) AND POLLERR = POLLERR
        else set_up r H T fds s \<and> c = ready_count E fds s \<and> fits E chan T R fds)"

abbreviation fresh :: "nat \<Rightarrow> 's fs_state \<Rightarrow> 's fs_state" where
  "fresh p \<equiv> on_fd E p (\<lambda>f. f\<lparr>cb := True, revents := 0, priv := None\<rparr>)"

lemma ready_count_same:
  "p \<notin> snd ` set fds \<Longrightarrow> (\<And>q. q \<noteq> p \<Longrightarrow> revents (the_fd E q t) = revents (the_fd E q s)) \<Longrightarrow> ready_count E fds t = ready_count E fds s"
  unfolding ready_count_def by (intro arg_cong [of _ _ length] filter_cong refl) (auto simp: image_iff)

lemma set_up_fresh:
  assumes "set_up r H T fds s" "p \<notin> held (devs s)"
  shows "set_up r H T fds (fresh p s)" "taken T R fds (fresh p s) \<longleftrightarrow> taken T R fds s"
  using assms write_other [of "devs s" p] by (auto simp: set_up_def taken_def write_room)

text \<open>A descriptor that is set up: it takes a slot, or there is none and the driver refuses it.\<close>

lemma setup_poll:
  assumes up: "set_up r H T before s" and tk: "taken T R before s" and p: "p \<notin> held (devs s)"
    and fd: "0 \<le> fd" and good: "good_fd E (s\<lparr>f_refs := r\<rparr>) (fd, p)"
  shows "\<exists>f t ret u. file_get fd s = (OK, f, t) \<and> file_poll E f p True t = Some (ret, u) \<and>
    (\<forall>q. q \<noteq> p \<longrightarrow> the_fd E q u = the_fd E q s) \<and>
    (if ret < 0 then set_up (\<lambda>f. r f + uses T [(fd, p)] f) H T before u \<and> \<not> fits E chan T R (before @ [(fd, p)])
     else set_up r H T (before @ [(fd, p)]) u \<and> taken T R (before @ [(fd, p)]) u)"
proof -
  have s: "ok (devs s)" "fl_fds s = T" "f_refs s = (\<lambda>f. r f + uses T before f)" "held (devs s) = H \<union> snd ` {x \<in> set before. stored E T x}"
    using up by (auto simp: set_up_def)
  obtain f op where f: "T fd = Some f" "f_inode E f = Some (Inode_poll op) \<or> f_inode E f = Some Inode_plain"
    using good fd by (elim good_fdE) (auto simp: s(2))
  let ?t = "s\<lparr>f_refs := (f_refs s)(f := f_refs s f + 1)\<rparr>"
  have t: "ok (devs ?t)" "p \<notin> held (devs ?t)" using s(1) p by simp_all
  obtain ret u where u: "file_poll E f p True ?t = Some (ret, u)" "ok (devs u)" "fl_fds u = fl_fds ?t" "f_refs u = f_refs ?t"
    "\<forall>q. q \<noteq> p \<longrightarrow> the_fd E q u = the_fd E q ?t"
    and k: "if f_inode E f = Some Inode_plain then 0 \<le> ret \<and> held (devs u) = held (devs ?t) \<and> room (devs u) = room (devs ?t)
     else if 0 < room (devs ?t) (chan f) then 0 \<le> ret \<and> held (devs u) = insert p (held (devs ?t)) \<and>
       room (devs u) = (room (devs ?t))(chan f := room (devs ?t) (chan f) - 1)
     else ret < 0 \<and> held (devs u) = held (devs ?t) \<and> room (devs u) = room (devs ?t)"
    using file_poll_ok [OF t(1) f(2) t(2)] by blast
  have st: "stored E T (fd, p) \<longleftrightarrow> f_inode E f \<noteq> Some Inode_plain" using f fd by (auto simp: stored_def)
  have refs: "f_refs u = (\<lambda>g. r g + uses T [(fd, p)] g + uses T before g)" using u(4) s(3) f(1) fd by (auto simp: fun_eq_iff)
  have tk_j: "room (devs s) j + demand E chan T before j = R j" for j using tk by (simp add: taken_def)
  have "if ret < 0 then set_up (\<lambda>f. r f + uses T [(fd, p)] f) H T before u \<and> \<not> fits E chan T R (before @ [(fd, p)])
     else set_up r H T (before @ [(fd, p)]) u \<and> taken T R (before @ [(fd, p)]) u"
  proof (cases "ret < 0")
    case True
    then have full: "f_inode E f \<noteq> Some Inode_plain" "room (devs s) (chan f) = 0" "held (devs u) = held (devs s)"
      using k by (auto split: if_splits)
    then have "R (chan f) < demand E chan T (before @ [(fd, p)]) (chan f)" using st f(1) tk_j [of "chan f"] by simp
    then have "\<not> fits E chan T R (before @ [(fd, p)])" unfolding fits_def by (meson not_less)
    with True show ?thesis using u full(3) refs s by (simp add: set_up_def)
  next
    case False
    then have new: "held (devs u) = held (devs s) \<union> (if stored E T (fd, p) then {p} else {})"
      "room (devs u) j + (if stored E T (fd, p) \<and> chan f = j then 1 else 0) = room (devs s) j" for j
      using k st by (auto split: if_splits)
    have "room (devs u) j + demand E chan T (before @ [(fd, p)]) j = R j" for j using new(2) [of j] tk_j [of j] f(1) by auto
    moreover have "set_up r H T (before @ [(fd, p)]) u"
      unfolding set_up_snoc using u refs s new(1) by (simp add: set_up_def Un_ac)
    ultimately show ?thesis using False by (simp add: taken_def)
  qed
  moreover have "file_get fd s = (OK, f, ?t)" by (simp add: file_get_def s(2) f(1))
  moreover have "\<forall>q. q \<noteq> p \<longrightarrow> the_fd E q u = the_fd E q s" using u(5) by (simp add: the_fd_def)
  ultimately show ?thesis using u(1) by blast
qed

text \<open>A descriptor that is refused: the loop ends, and those before it are taken back.\<close>

lemma setup_refused:
  assumes "set_up (\<lambda>f. r f + uses T [(fd, p)] f) H T before u" "distinct (map snd before)" "H \<inter> snd ` set before = {}"
    "p \<notin> H" "p \<notin> snd ` set before" "\<forall>x \<in> set before. good_fd E (u\<lparr>f_refs := r\<rparr>) x"
    "fits E chan T R before" "\<not> fits E chan T R (before @ [(fd, p)])" "0 \<le> fd"
  shows "\<exists>c v. poll_teardown E before u = Some (c, v) \<and>
    loop_post r H T R (before @ (fd, p) # fds) (c + 1, True, on_fd E p (\<lambda>f. (add_err f)\<lparr>cb := False\<rparr>) v)"
proof -
  have "\<forall>x \<in> set before. good_fd E (u\<lparr>f_refs := \<lambda>f. r f + uses T [(fd, p)] f\<rparr>) x"
    using assms(6) by (auto intro: good_fd_cong [rotated 2])
  then obtain v where v: "poll_teardown E before u = Some (ready_count E before u, v)" "set_up (\<lambda>f. r f + uses T [(fd, p)] f) H T [] v"
    "\<forall>q. revents (the_fd E q v) = revents (the_fd E q u)"
    using set_up_teardown [OF assms(1-3)] by blast
  let ?v = "on_fd E p (\<lambda>f. (add_err f)\<lparr>cb := False\<rparr>) v"
  have "p \<notin> held (devs v)" "ok (devs v)" using v(2) assms(4) by (auto simp: set_up_def)
  then have "set_up (\<lambda>f. r f + uses T [(fd, p)] f) H T [] ?v" using v(2) write_other by (auto simp: set_up_def)
  moreover have "ready_count E before u = ready_count E before ?v"
    using v(3) by (intro ready_count_same [OF assms(5)]) simp
  moreover have "revents (the_fd E p ?v) AND POLLERR = POLLERR" by (simp add: add_err_def and.assoc)
  ultimately have "loop_post r H T R (before @ (fd, p) # fds) (ready_count E before u + 1, True, ?v)"
    unfolding loop_post_def using assms(7-9)
    by (simp only: prod.case if_True) (rule exI [of _ before], rule exI [of _ "(fd, p)"], rule exI [of _ fds], simp del: uses_simps the_fd_on)
  with v(1) show ?thesis by blast
qed

lemma setup_loop_ok:
  assumes "set_up r H T before s" "distinct (map snd (before @ fds))" "H \<inter> snd ` set (before @ fds) = {}"
    "\<forall>x \<in> set (before @ fds). good_fd E (s\<lparr>f_refs := r\<rparr>) x" "count = ready_count E before s" "taken T R before s"
  shows "\<exists>res. setup_loop E before fds count s = Some res \<and> loop_post r H T R (before @ fds) res"
  using assms
proof (induction fds arbitrary: before count s)
  case Nil
  then show ?case by (simp add: loop_post_def taken_fits)
next
  case (Cons x fds)
  obtain fd p where x: "x = (fd, p)" by (rule prod.exhaust)
  have p: "p \<notin> held (devs s)" "p \<notin> snd ` set before" "p \<notin> H"
    using Cons.prems(1-3) by (auto simp: set_up_def x)
  note s = set_up_fresh [OF Cons.prems(1) p(1)]
  have T: "fl_fds s = T" using Cons.prems(1) by (simp add: set_up_def)
  have good: "\<forall>y \<in> set (before @ x # fds). good_fd E (u\<lparr>f_refs := r\<rparr>) y" if "fl_fds u = T" for u
    using Cons.prems(4) that T by (auto simp: good_fd_def)
  have rc: "ready_count E before u = count" if "\<forall>q. q \<noteq> p \<longrightarrow> the_fd E q u = the_fd E q (fresh p s)" for u
    using that Cons.prems(5) by (simp add: ready_count_same [OF p(2), of u s])
  have step: ?case if "set_up r H T (before @ [(fd, p)]) u" "taken T R (before @ [(fd, p)]) u"
    "setup_loop E before (x # fds) count s = setup_loop E (before @ [(fd, p)]) fds (ready_count E (before @ [(fd, p)]) u) u" for u
  proof -
    have "fl_fds u = T" using that(1) by (simp add: set_up_def)
    then show ?thesis
      using Cons.IH [OF that(1) _ _ _ refl that(2)] Cons.prems(2,3) good [of u] that(3) by (simp add: x)
  qed
  show ?case
  proof (cases "0 \<le> fd")
    case False
    show ?thesis
    proof (rule step)
      show "set_up r H T (before @ [(fd, p)]) (fresh p s)" "taken T R (before @ [(fd, p)]) (fresh p s)"
        using s(1) iffD2 [OF s(2) Cons.prems(6)] False by (auto simp: set_up_def taken_def stored_def)
      show "setup_loop E before (x # fds) count s =
          setup_loop E (before @ [(fd, p)]) fds (ready_count E (before @ [(fd, p)]) (fresh p s)) (fresh p s)"
        using False rc [of "fresh p s"] by (simp add: x ready_count_def)
    qed
  next
    case fd: True
    have "good_fd E ((fresh p s)\<lparr>f_refs := r\<rparr>) (fd, p)" using good [of "fresh p s"] T by (simp add: x)
    then obtain f t ret u where u: "file_get fd (fresh p s) = (OK, f, t)" "file_poll E f p True t = Some (ret, u)"
      "\<forall>q. q \<noteq> p \<longrightarrow> the_fd E q u = the_fd E q (fresh p s)"
      "if ret < 0 then set_up (\<lambda>f. r f + uses T [(fd, p)] f) H T before u \<and> \<not> fits E chan T R (before @ [(fd, p)])
       else set_up r H T (before @ [(fd, p)]) u \<and> taken T R (before @ [(fd, p)]) u"
      using setup_poll [OF s(1) iffD2 [OF s(2) Cons.prems(6)] _ fd, of p] s(1) p Cons.prems(1) by (auto simp: set_up_def)
    show ?thesis
    proof (cases "ret < 0")
      case True
      then have u4: "set_up (\<lambda>f. r f + uses T [(fd, p)] f) H T before u" "\<not> fits E chan T R (before @ [(fd, p)])" using u(4) by simp_all
      then have "\<forall>y \<in> set before. good_fd E (u\<lparr>f_refs := r\<rparr>) y" using good [of u] by (simp add: set_up_def)
      moreover have "distinct (map snd before)" "H \<inter> snd ` set before = {}" using Cons.prems(2,3) by auto
      ultimately obtain c v where "poll_teardown E before u = Some (c, v)"
        "loop_post r H T R (before @ (fd, p) # fds) (c + 1, True, on_fd E p (\<lambda>f. (add_err f)\<lparr>cb := False\<rparr>) v)"
        using setup_refused [OF u4(1) _ _ p(3,2) _ taken_fits [OF Cons.prems(6)] u4(2) fd, of fds] by blast
      then show ?thesis using True u(1,2) fd by (simp add: x)
    next
      case False
      with u rc [OF u(3)] fd show ?thesis by (intro step [of u]) (simp_all add: x ready_count_def)
    qed
  qed
qed

text \<open>
  The system call leaves the driver and the references as they were, and returns the number of
  descriptors with events, or the error of the wait. The exception is a driver without a slot for one of the descriptors:
  then the call returns at once, all structures are withdrawn, but the reference to that file is not given back.
\<close>

lemma set_up_down:
  assumes "set_up r H T fds u" "distinct (map snd fds)" "H \<inter> snd ` set fds = {}" "\<forall>x \<in> set fds. good_fd E (u\<lparr>f_refs := r\<rparr>) x"
  shows "\<exists>s'. poll_teardown E fds u = Some (ready_count E fds s', s') \<and> set_up r H T [] s' \<and>
    ready_count E fds u = ready_count E fds s' \<and> (\<forall>q. revents (the_fd E q s') = revents (the_fd E q u))"
proof -
  obtain s' where s': "poll_teardown E fds u = Some (ready_count E fds u, s')" "set_up r H T [] s'"
    "\<forall>q. revents (the_fd E q s') = revents (the_fd E q u)"
    using set_up_teardown [OF assms] by blast
  then have "ready_count E fds u = ready_count E fds s'" by (simp add: ready_count_def)
  with s' show ?thesis by auto
qed

lemma poll_set_up:
  assumes "setup_loop E [] fds 0 s = Some (ready_count E fds t, False, t)" "set_up r H T fds t"
    "distinct (map snd fds)" "H \<inter> snd ` set fds = {}" "\<And>t. fl_fds t = T \<Longrightarrow> \<forall>x \<in> set fds. good_fd E (t\<lparr>f_refs := r\<rparr>) x"
    "ok (devs t) \<Longrightarrow> ok (devs (snd (wait t))) \<and> held (devs (snd (wait t))) = held (devs t) \<and>
       fl_fds (snd (wait t)) = fl_fds t \<and> f_refs (snd (wait t)) = f_refs t"
  shows "\<exists>v e s'. poll E fds timeout wait s = Some (v, e, s') \<and> set_up r H T [] s' \<and> poll_outcome E fds timeout wait t (v, e, s')"
proof (cases "ready_count E fds t = 0")
  case False
  have "fl_fds t = T" using assms(2) by (simp add: set_up_def)
  then obtain s' where s': "poll_teardown E fds t = Some (ready_count E fds s', s')" "set_up r H T [] s'"
    "ready_count E fds t = ready_count E fds s'" "\<forall>q. revents (the_fd E q s') = revents (the_fd E q t)"
    using set_up_down [OF assms(2-4)] assms(5) by blast
  have "poll E fds timeout wait s = Some (int (ready_count E fds s'), 0, s')"
    using assms(1) False s'(1,3) by (simp add: poll_def poll_setup_def)
  then show ?thesis using s' False by (simp add: poll_outcome_def)
next
  case True
  obtain ret u where w: "poll_wait timeout wait t = (ret, u)" by (rule prod.exhaust)
  then have "u = t \<or> u = snd (wait t)" by (auto simp: poll_wait_def split_beta split: if_splits)
  then have u: "set_up r H T fds u" "fl_fds u = T" using assms(2,6) by (auto simp: set_up_def)
  then obtain s' where s': "poll_teardown E fds u = Some (ready_count E fds s', s')" "set_up r H T [] s'"
    "\<forall>q. revents (the_fd E q s') = revents (the_fd E q u)"
    using set_up_down [OF u(1) assms(3,4)] assms(5) by blast
  have "poll E fds timeout wait s = Some (if ret < 0 then (- 1, - ret, s') else (int (ready_count E fds s'), 0, s'))"
    using assms(1) True s'(1) w by (simp add: poll_def poll_setup_def)
  then show ?thesis using s' True w by (simp add: poll_outcome_def)
qed

lemma poll_ok:
  assumes "ok (devs s)" "distinct (map snd fds)" "held (devs s) \<inter> snd ` set fds = {}" "\<forall>x \<in> set fds. good_fd E s x"
    "\<And>t. ok (devs t) \<Longrightarrow> ok (devs (snd (wait t))) \<and> held (devs (snd (wait t))) = held (devs t) \<and>
       fl_fds (snd (wait t)) = fl_fds t \<and> f_refs (snd (wait t)) = f_refs t"
  shows "\<exists>v e s'. poll E fds timeout wait s = Some (v, e, s') \<and> ok (devs s') \<and> held (devs s') = held (devs s) \<and> fl_fds s' = fl_fds s \<and>
    (if fits E chan (fl_fds s) (room (devs s)) fds
     then f_refs s' = f_refs s \<and>
       (\<exists>t. setup_loop E [] fds 0 s = Some (ready_count E fds t, False, t) \<and> poll_outcome E fds timeout wait t (v, e, s'))
     else \<exists>pre x post. fds = pre @ x # post \<and> 0 \<le> fst x \<and>
       fits E chan (fl_fds s) (room (devs s)) pre \<and> \<not> fits E chan (fl_fds s) (room (devs s)) (pre @ [x]) \<and>
       f_refs s' = (\<lambda>f. f_refs s f + uses (fl_fds s) [x] f) \<and>
       v = int (ready_count E pre s') + 1 \<and> e = 0 \<and> revents (the_fd E (snd x) s') AND POLLERR = POLLERR)"
proof -
  let ?r = "f_refs s" and ?H = "held (devs s)" and ?T = "fl_fds s" and ?R = "room (devs s)"
  have s: "set_up ?r ?H ?T [] s" "taken ?T ?R [] s" using assms(1) by (simp_all add: set_up_def taken_def)
  have g: "\<forall>x \<in> set fds. good_fd E (t\<lparr>f_refs := ?r\<rparr>) x" if "fl_fds t = ?T" for t
    using assms(4) that by (auto simp: good_fd_def)
  have "\<exists>res. setup_loop E [] fds 0 s = Some res \<and> loop_post ?r ?H ?T ?R ([] @ fds) res"
    using assms(2,3) g [of s] s(2) by (intro setup_loop_ok [OF s(1)]) (simp_all add: ready_count_def)
  then obtain c b t where t: "setup_loop E [] fds 0 s = Some (c, b, t)" "loop_post ?r ?H ?T ?R fds (c, b, t)"
    by (auto intro: that)
  show ?thesis
  proof (cases b)
    case True
    then obtain pre x post where x: "fds = pre @ x # post" "0 \<le> fst x" "fits E chan ?T ?R pre" "\<not> fits E chan ?T ?R (pre @ [x])"
      "set_up (\<lambda>f. ?r f + uses ?T [x] f) ?H ?T [] t" "c = ready_count E pre t + 1" "revents (the_fd E (snd x) t) AND POLLERR = POLLERR"
      using t(2) unfolding loop_post_def prod.case if_P [OF True] by blast
    have "\<not> fits E chan ?T ?R fds" using x(1,4) fits_prefix by blast
    moreover have "poll E fds timeout wait s = Some (int (ready_count E pre t) + 1, 0, t)"
      using t(1) True x(6) by (simp add: poll_def poll_setup_def)
    moreover have "\<exists>pre' x post. fds = pre' @ x # post \<and> 0 \<le> fst x \<and> fits E chan ?T ?R pre' \<and> \<not> fits E chan ?T ?R (pre' @ [x]) \<and>
       f_refs t = (\<lambda>f. ?r f + uses ?T [x] f) \<and> int (ready_count E pre t) + 1 = int (ready_count E pre' t) + 1 \<and> (0 :: int) = 0 \<and>
       revents (the_fd E (snd x) t) AND POLLERR = POLLERR"
      by (rule exI [of _ pre], rule exI [of _ x], rule exI [of _ post]) (use x in \<open>simp add: set_up_def del: uses_simps(2)\<close>)
    ultimately show ?thesis
      using x(5) by (intro exI [of _ "int (ready_count E pre t) + 1"] exI [of _ 0] exI [of _ t]) (simp add: set_up_def del: uses_simps(2))
  next
    case False
    then have up: "set_up ?r ?H ?T fds t" "c = ready_count E fds t" "fits E chan ?T ?R fds" using t(2) by (simp_all add: loop_post_def)
    have l: "setup_loop E [] fds 0 s = Some (ready_count E fds t, False, t)" using t(1) False up(2) by simp
    obtain v e s' where "poll E fds timeout wait s = Some (v, e, s')" "set_up ?r ?H ?T [] s'" "poll_outcome E fds timeout wait t (v, e, s')"
      using poll_set_up [where wait = wait and timeout = timeout, OF l up(1) assms(2,3) g assms(5)] by blast
    then show ?thesis using up(3) l by (auto simp: set_up_def)
  qed
qed

text \<open>
  A bad descriptor: it is counted and marked, and those before it are withdrawn, all but the last of them. The driver of that one keeps its structure, and
  the reference to its file is not given back, although the call has returned.
\<close>

lemma poll_bad_fd:
  assumes "ok (devs s)" "distinct (map snd (fds @ [(fd, p)]))" "held (devs s) \<inter> snd ` set (fds @ [(fd, p)]) = {}"
    "\<forall>x \<in> set (fds @ [(fd, p)]). good_fd E s x" "setup_loop E [] (fds @ [(fd, p)]) 0 s = Some (c, False, t)"
    "0 \<le> fd'" "fl_fds s fd' = None" "p' \<notin> held (devs s) \<union> snd ` set (fds @ [(fd, p)])"
  shows "\<exists>v s'. poll E (fds @ (fd, p) # (fd', p') # rest) timeout wait s = Some (v, 0, s') \<and> ok (devs s') \<and> fl_fds s' = fl_fds s \<and>
    v = int (ready_count E fds s') + 1 \<and> revents (the_fd E p' s') AND POLLERR = POLLERR \<and>
    held (devs s') = held (devs s) \<union> (if stored E (fl_fds s) (fd, p) then {p} else {}) \<and>
    f_refs s' = (\<lambda>f. f_refs s f + uses (fl_fds s) [(fd, p)] f)"
proof -
  let ?r = "f_refs s" and ?H = "held (devs s)" and ?T = "fl_fds s" and ?P = "if stored E (fl_fds s) (fd, p) then {p} else {}"
  have "set_up ?r ?H ?T [] s" using assms(1) by (simp add: set_up_def)
  then have "loop_post ?r ?H ?T (room (devs s)) (fds @ [(fd, p)]) (c, False, t)"
    using setup_loop_ok [of ?r ?H ?T "[]" s "fds @ [(fd, p)]" 0 "room (devs s)"] assms(2-5) by (simp add: ready_count_def good_fd_def taken_def)
  then have up: "set_up ?r ?H ?T (fds @ [(fd, p)]) t" by (simp add: loop_post_def)
  let ?t = "on_fd E p' (\<lambda>f. f\<lparr>cb := True, revents := 0, priv := None\<rparr>) t"
  have "p' \<notin> held (devs t)" "ok (devs t)" using up assms(8) by (auto simp: set_up_def)
  then have "set_up (\<lambda>f. ?r f + uses ?T [(fd, p)] f) (?H \<union> ?P) ?T fds ?t"
    using up [unfolded set_up_snoc] write_other by (simp add: set_up_def)
  moreover have "good_fd E (?t\<lparr>f_refs := \<lambda>f. ?r f + uses ?T [(fd, p)] f\<rparr>) y" if "y \<in> set fds" for y
  proof (rule good_fd_cong)
    show "good_fd E s y" using assms(4) that by simp
    show "fl_fds (?t\<lparr>f_refs := \<lambda>f. ?r f + uses ?T [(fd, p)] f\<rparr>) = ?T" using up by (simp add: set_up_def)
  qed simp
  moreover have "distinct (map snd fds)" "(?H \<union> ?P) \<inter> snd ` set fds = {}" using assms(2,3) by (auto split: if_splits)
  ultimately obtain u where u: "poll_teardown E fds ?t = Some (ready_count E fds ?t, u)"
    "set_up (\<lambda>f. ?r f + uses ?T [(fd, p)] f) (?H \<union> ?P) ?T [] u" "\<forall>q. revents (the_fd E q u) = revents (the_fd E q ?t)"
    using set_up_teardown [of "\<lambda>f. ?r f + uses ?T [(fd, p)] f" "?H \<union> ?P" ?T fds ?t] by blast
  let ?u = "on_fd E p' (\<lambda>f. (add_err f)\<lparr>cb := False\<rparr>) u"
  have "p' \<notin> held (devs u)" "ok (devs u)" using u(2) assms(8) by (auto simp: set_up_def split: if_splits)
  then have v: "set_up (\<lambda>f. ?r f + uses ?T [(fd, p)] f) (?H \<union> ?P) ?T [] ?u" using u(2) write_other by (auto simp: set_up_def)
  have "fl_fds t fd' = None" using up assms(7) by (simp add: set_up_def)
  then have "setup_loop E (fds @ [(fd, p)]) ((fd', p') # rest) c t = Some (ready_count E fds ?t + 1, True, ?u)"
    using assms(6) u(1) by (simp add: file_get_def EBADF_def)
  then have "setup_loop E [] (fds @ (fd, p) # (fd', p') # rest) 0 s = Some (ready_count E fds ?t + 1, True, ?u)"
    using setup_loop_append [of E "[]" "fds @ [(fd, p)]" "(fd', p') # rest" 0 s] assms(5) by simp
  then have "poll E (fds @ (fd, p) # (fd', p') # rest) timeout wait s = Some (int (ready_count E fds ?t + 1), 0, ?u)"
    by (simp add: poll_def poll_setup_def)
  moreover have "ready_count E fds ?t = ready_count E fds ?u"
    unfolding ready_count_def using u(3) assms(8) by (intro arg_cong [of _ _ length] filter_cong refl) (auto simp: image_iff)
  moreover have "revents (the_fd E p' ?u) AND POLLERR = POLLERR" by (simp add: add_err_def and.assoc)
  ultimately show ?thesis using v by (simp add: set_up_def)
qed

end

subsection \<open>Slots\<close>

text \<open>
  The drivers keep the structures in numbered slots of their devices or open files, and the pointer in the
  structure leads back to the slot.
\<close>

definition linked :: "poll_world \<Rightarrow> (nat \<times> nat \<rightharpoonup> nat) \<Rightarrow> bool" where
  "linked w m \<longleftrightarrow> (\<forall>k p. m k = Some p \<longrightarrow> priv (pollfds w p) = Some k)"

lemma linkedD: "linked w m \<Longrightarrow> m k = Some p \<Longrightarrow> priv (pollfds w p) = Some k"
  unfolding linked_def by blast

lemma linked_once: "linked w m \<Longrightarrow> m k = Some p \<Longrightarrow> m k' = Some p \<Longrightarrow> k' = k"
  using linkedD [of w m k p] linkedD [of w m k' p] by simp

lemma linked_clear:
  assumes "linked w m" "m k = Some p" shows "ran (m(k := None)) = ran m - {p}"
proof (rule set_eqI)
  fix q
  have "(\<exists>k'. (m(k := None)) k' = Some q) \<longleftrightarrow> (\<exists>k'. m k' = Some q) \<and> q \<noteq> p"
    using linked_once [OF assms] assms(2) by (metis fun_upd_apply option.distinct(1) option.inject)
  then show "q \<in> ran (m(k := None)) \<longleftrightarrow> q \<in> ran m - {p}" by (simp add: ran_def)
qed

lemma linked_set_priv:
  assumes "\<And>k' q. m' k' = Some q \<Longrightarrow> q \<noteq> p \<Longrightarrow> m k' = Some q" "\<And>k'. m' k' = Some p \<Longrightarrow> v = Some k'" "linked w m"
  shows "linked (set_priv p v w) m'"
  unfolding linked_def
proof (intro allI impI)
  fix k' q assume "m' k' = Some q"
  then show "priv (pollfds (set_priv p v w) q) = Some k'"
    using assms linkedD [OF assms(3)] by (cases "q = p") (simp_all add: set_priv_def)
qed

lemma linked_free:
  assumes "linked w m" "m k = Some p" shows "linked (set_priv p v w) (m(k := None))"
proof (rule linked_set_priv [OF _ _ assms(1)])
  show "(m(k := None)) k' = Some q \<Longrightarrow> q \<noteq> p \<Longrightarrow> m k' = Some q" for k' q by (simp split: if_splits)
  show "(m(k := None)) k' = Some p \<Longrightarrow> v = Some k'" for k'
    using linked_once [OF assms, of k'] by (cases "k' = k") simp_all
qed

lemma linked_store:
  assumes "linked w m" "p \<notin> ran m" "m k = None"
  shows "linked (set_priv p (Some k) w) (m(k \<mapsto> p))" "ran (m(k \<mapsto> p)) = insert p (ran m)"
proof -
  show "linked (set_priv p (Some k) w) (m(k \<mapsto> p))"
    using assms(2) by (intro linked_set_priv [OF _ _ assms(1)]) (auto split: if_splits intro: ranI)
qed (use assms(3) in simp)

lemma linked_other: 
  assumes "linked w m" "p \<notin> ran m" shows "linked (upd_pollfd p h w) m" "linked (set_priv p v w) m"
proof -
  show "linked (set_priv p v w) m" using assms(2) by (intro linked_set_priv [OF _ _ assms(1)]) (auto intro: ranI)
  show "linked (upd_pollfd p h w) m"
    unfolding linked_def
  proof (intro allI impI)
    fix k q assume m: "m k = Some q"
    then have "q \<noteq> p" using assms(2) by (auto intro: ranI)
    then show "priv (pollfds (upd_pollfd p h w) q) = Some k" using linkedD [OF assms(1) m] by (simp add: upd_pollfd_def)
  qed
qed

lemma linked_cong: "(\<And>q. priv (pollfds w' q) = priv (pollfds w q)) \<Longrightarrow> linked w' m \<longleftrightarrow> linked w m"
  by (simp add: linked_def)

definition slot_of :: "nat option list \<Rightarrow> nat \<Rightarrow> nat option" where
  "slot_of xs i = (if i < length xs then xs ! i else None)"

lemma slot_of_update: "i < length xs \<Longrightarrow> slot_of (xs[i := v]) j = (if j = i then v else slot_of xs j)"
  by (simp add: slot_of_def nth_list_update)

lemma free_slot_of: "free_slot xs = Some i \<Longrightarrow> i < length xs \<and> slot_of xs i = None"
proof (induction xs arbitrary: i)
  case (Cons x xs)
  show ?case
  proof (cases "x = None")
    case True
    then show ?thesis using Cons.prems by (simp add: slot_of_def)
  next
    case False
    then obtain j where "i = Suc j" "free_slot xs = Some j" using Cons.prems by auto
    with Cons.IH [of j] show ?thesis by (simp add: slot_of_def split: if_splits)
  qed
qed simp

definition free_count :: "nat option list \<Rightarrow> nat" where
  "free_count xs = length (filter (\<lambda>x. x = None) xs)"

lemma free_count_none: "free_slot xs = None \<Longrightarrow> free_count xs = 0"
  by (induction xs) (auto simp: free_count_def split: if_splits)

lemma free_count_some: "free_slot xs = Some i \<Longrightarrow> free_count xs = Suc (free_count (xs[i := Some p]))"
proof (induction xs arbitrary: i)
  case (Cons x xs)
  then show ?case by (cases "x = None") (auto simp: free_count_def)
qed simp

end
