(* ===== verification/Poll_Devices.thy ===== *)
theory Poll_Devices
  imports Poll_Call Board_Gpio Button_Lower
begin

text \<open>
  The GPIO and the button driver keep the interface of \<^verbatim>\<open>poll\<close>, so that waiting for their devices leaves
  nothing behind.
\<close>

subsection \<open>The GPIO devices\<close>

text \<open>The files are those of GPIO devices, which have no close operation; other files have no inode here.\<close>

definition gpio_files :: "(nat \<Rightarrow> gfile option) \<Rightarrow> 'e gstate fs_env" where
  "gpio_files F =
     \<lparr>f_inode = (\<lambda>f. map_option (\<lambda>filep. Inode_poll (\<lambda>p setup s. Some (gpio_poll filep p setup s))) (F f)),
      f_close = (\<lambda>f s. s), get_polls = (\<lambda>s. pw (env s)), on_polls = on_pw\<rparr>"

definition gpio_slot :: "'e gstate \<Rightarrow> nat \<times> nat \<Rightarrow> nat option" where
  "gpio_slot s k = slot_of (fds (gdev (fst k) s)) (snd k)"

definition gpio_linked :: "'e gstate \<Rightarrow> bool" where
  "gpio_linked s \<longleftrightarrow> linked (pw (env s)) (gpio_slot s)"

definition gpio_held :: "'e gstate \<Rightarrow> nat set" where
  "gpio_held s = ran (gpio_slot s)"

text \<open>The slots belong to the device, and are shared by its files.\<close>

definition gpio_chan :: "(nat \<Rightarrow> gfile option) \<Rightarrow> nat \<Rightarrow> nat" where
  "gpio_chan F f = (case F f of None \<Rightarrow> 0 | Some filep \<Rightarrow> f_dev filep)"

definition gpio_room :: "'e gstate \<Rightarrow> nat \<Rightarrow> nat" where
  "gpio_room s a = free_count (fds (gdev a s))"

lemma gpio_room_simps [simp]: "gpio_room (on_pw g s) = gpio_room s"
  by (simp add: gpio_room_def on_pw_def gdev_def fun_eq_iff)

lemma gpio_room_upd:
  assumes "free_slot (fds (gdev a s)) = Some i"
  shows "gpio_room (upd_dev a (\<lambda>d. d\<lparr>fds := (fds d)[i := Some p]\<rparr>) s) = (gpio_room s)(a := gpio_room s a - 1)"
  using free_count_some [OF assms, of p] by (simp add: gpio_room_def fun_eq_iff)

lemma gpio_slot_simps [simp]:
  "gpio_slot (on_pw g s) = gpio_slot s" "pw (env (on_pw g s)) = g (pw (env s))"
  by (simp_all add: gpio_slot_def on_pw_def gdev_def fun_eq_iff)

lemma gpio_slot_upd:
  assumes "i < length (fds (gdev a s))"
  shows "gpio_slot (upd_dev a (\<lambda>d. d\<lparr>fds := (fds d)[i := v]\<rparr>) s) = (gpio_slot s)((a, i) := v)"
proof (rule ext)
  fix k show "gpio_slot (upd_dev a (\<lambda>d. d\<lparr>fds := (fds d)[i := v]\<rparr>) s) k = ((gpio_slot s)((a, i) := v)) k"
    using assms by (cases k) (simp add: gpio_slot_def slot_of_update)
qed

lemma set_priv_other: "q \<noteq> p \<Longrightarrow> pollfds (set_priv p v w) q = pollfds w q" "revents (pollfds (set_priv p v w) q) = revents (pollfds w q)"
  by (simp_all add: set_priv_def)

lemma notify_other: "q \<noteq> p \<Longrightarrow> pollfds (poll_notify [Some p] e w) q = pollfds w q"
  by simp

interpretation gpoll: poll_device "gpio_files F" gpio_linked gpio_held "gpio_chan F" gpio_room for F
proof unfold_locales
  fix s :: "'a gstate" and g p h f op
  show "get_polls (gpio_files F) (on_polls (gpio_files F) g s) = g (get_polls (gpio_files F) s)"
    by (simp add: gpio_files_def)
  show "gpio_linked s \<Longrightarrow> p \<notin> gpio_held s \<Longrightarrow>
      gpio_linked (on_polls (gpio_files F) (upd_pollfd p h) s) \<and> gpio_held (on_polls (gpio_files F) (upd_pollfd p h) s) = gpio_held s"
    by (simp add: gpio_files_def gpio_linked_def gpio_held_def linked_other)
  show "gpio_linked s \<Longrightarrow> (\<And>w q. priv (pollfds (g w) q) = priv (pollfds w q)) \<Longrightarrow>
      gpio_linked (on_polls (gpio_files F) g s) \<and> gpio_held (on_polls (gpio_files F) g s) = gpio_held s"
    by (simp add: gpio_files_def gpio_linked_def gpio_held_def linked_cong [of "g (pw (env s))" "pw (env s)"])
  show "gpio_room (on_polls (gpio_files F) g s) = gpio_room s" by (simp add: gpio_files_def)
next
  fix s :: "'a gstate" and p f and op :: "nat \<Rightarrow> bool \<Rightarrow> 'a gstate \<Rightarrow> (int \<times> 'a gstate) option"
  assume s: "gpio_linked s" "p \<notin> gpio_held s" "f_inode (gpio_files F) f = Some (Inode_poll op)"
  then obtain filep where op: "op = (\<lambda>p setup s. Some (gpio_poll filep p setup s))" "gpio_chan F f = f_dev filep"
    by (auto simp: gpio_files_def gpio_chan_def)
  let ?a = "f_dev filep"
  have l: "linked (pw (env s)) (gpio_slot s)" "p \<notin> ran (gpio_slot s)" using s by (simp_all add: gpio_linked_def gpio_held_def)
  have "\<exists>r s'. gpio_poll filep p True s = (r, s') \<and> gpio_linked s' \<and>
      (if 0 < gpio_room s ?a
       then r = OK \<and> gpio_held s' = insert p (gpio_held s) \<and> gpio_room s' = (gpio_room s)(?a := gpio_room s ?a - 1)
       else r < 0 \<and> gpio_held s' = gpio_held s \<and> gpio_room s' = gpio_room s) \<and>
      (\<forall>q. q \<noteq> p \<longrightarrow> pollfds (pw (env s')) q = pollfds (pw (env s)) q)"
  proof (cases "free_slot (fds (gdev ?a s))")
    case None
    then have "gpio_room s ?a = 0" by (simp add: gpio_room_def free_count_none)
    then show ?thesis
      using l None by (simp add: gpio_poll_def gpio_linked_def gpio_held_def linked_other set_priv_other EBUSY_def)
  next
    case (Some i)
    from free_slot_of [OF this] have i: "i < length (fds (gdev ?a s))" "gpio_slot s (?a, i) = None" by (simp_all add: gpio_slot_def)
    let ?s = "on_pw (set_priv p (Some (?a, i))) (upd_dev ?a (\<lambda>d. d\<lparr>fds := (fds d)[i := Some p]\<rparr>) s)"
    have "linked (pw (env ?s)) (gpio_slot ?s)" "ran (gpio_slot ?s) = insert p (ran (gpio_slot s))"
      using linked_store [OF l i(2)] by (simp_all add: gpio_slot_upd [OF i(1)])
    moreover have "0 < gpio_room s ?a" "gpio_room ?s = (gpio_room s)(?a := gpio_room s ?a - 1)"
      using gpio_room_upd [OF Some, of p] free_count_some [OF Some, of p] by (simp_all add: gpio_room_def)
    moreover have "linked (poll_notify [Some p] POLLIN w) m \<longleftrightarrow> linked w m" for w m by (rule linked_cong) (simp del: poll_notify.simps)
    moreover have "snd (gpio_poll filep p True s) = ?s \<or> snd (gpio_poll filep p True s) = on_pw (poll_notify [Some p] POLLIN) ?s"
      "fst (gpio_poll filep p True s) = OK"
      using Some by (simp_all add: gpio_poll_def Let_def del: poll_notify.simps)
    ultimately show ?thesis
      by (intro exI [of _ OK] exI [of _ "snd (gpio_poll filep p True s)"])
        (auto simp: gpio_linked_def gpio_held_def prod_eq_iff set_priv_other notify_other simp del: poll_notify.simps)
  qed
  then show "\<exists>r d'. op p True s = Some (r, d') \<and> gpio_linked d' \<and>
      (if 0 < gpio_room s (gpio_chan F f)
       then r = OK \<and> gpio_held d' = insert p (gpio_held s) \<and> gpio_room d' = (gpio_room s)(gpio_chan F f := gpio_room s (gpio_chan F f) - 1)
       else r < 0 \<and> gpio_held d' = gpio_held s \<and> gpio_room d' = gpio_room s) \<and>
      (\<forall>q. q \<noteq> p \<longrightarrow> pollfds (get_polls (gpio_files F) d') q = pollfds (get_polls (gpio_files F) s) q)"
    unfolding op by (simp add: gpio_files_def)
next
  fix s :: "'a gstate" and p f and op :: "nat \<Rightarrow> bool \<Rightarrow> 'a gstate \<Rightarrow> (int \<times> 'a gstate) option"
  assume s: "gpio_linked s" "p \<in> gpio_held s" "f_inode (gpio_files F) f = Some (Inode_poll op)"
  then obtain filep where op: "op = (\<lambda>p setup s. Some (gpio_poll filep p setup s))" by (auto simp: gpio_files_def)
  have l: "linked (pw (env s)) (gpio_slot s)" using s(1) by (simp add: gpio_linked_def)
  obtain k where k: "gpio_slot s k = Some p" using s(2) by (auto simp: gpio_held_def ran_def)
  obtain a i where ai: "k = (a, i)" by (rule prod.exhaust)
  have pr: "priv (pollfds (pw (env s)) p) = Some (a, i)" using linkedD [OF l k] ai by simp
  have i: "i < length (fds (gdev a s))" using k ai by (simp add: gpio_slot_def slot_of_def split: if_splits)
  have "linked (set_priv p None (pw (env s))) ((gpio_slot s)((a, i) := None))" "ran ((gpio_slot s)((a, i) := None)) = ran (gpio_slot s) - {p}"
    using linked_free [OF l k] linked_clear [OF l k] ai by simp_all
  then show "\<exists>d'. op p False s = Some (OK, d') \<and> gpio_linked d' \<and> gpio_held d' = gpio_held s - {p} \<and>
      (\<forall>q. revents (pollfds (get_polls (gpio_files F) d') q) = revents (pollfds (get_polls (gpio_files F) s) q))"
    by (simp add: op gpio_poll_def pr gpio_files_def gpio_linked_def gpio_held_def gpio_slot_upd [OF i] set_priv_other)
qed

subsection \<open>The buttons\<close>

definition btn_files :: "bool \<Rightarrow> (nat \<Rightarrow> bfile option) \<Rightarrow> 'e bstate fs_env" where
  "btn_files d F =
     \<lparr>f_inode = (\<lambda>f. map_option (\<lambda>filep. Inode_poll (btn_poll g_btnlower filep)) (F f)),
      f_close = (\<lambda>f s. case F f of None \<Rightarrow> s | Some filep \<Rightarrow> snd (btn_close d g_btnlower filep s)),
      get_polls = (\<lambda>s. b_pw (env s)), on_polls = on_bpw\<rparr>"

definition btn_slot :: "'e bstate \<Rightarrow> nat \<times> nat \<Rightarrow> nat option" where
  "btn_slot s k = (case open_at (fst k) s of None \<Rightarrow> None | Some opriv \<Rightarrow> slot_of (bo_fds opriv) (snd k))"

text \<open>The driver is in order, its slots are linked, and the files are open.\<close>

definition btn_linked ::
  "(nat \<rightharpoonup> (board_isr, nat) gpio_callback_s) \<Rightarrow> (nat \<Rightarrow> bfile option) \<Rightarrow> 'e bstate \<Rightarrow> bool" where
  "btn_linked K F s \<longleftrightarrow> btn_lower.binv K s \<and> linked (b_pw (env s)) (btn_slot s) \<and>
     (\<forall>f filep. F f = Some filep \<longrightarrow> open_at (bf_priv filep) s \<noteq> None)"

definition btn_held :: "'e bstate \<Rightarrow> nat set" where
  "btn_held s = ran (btn_slot s)"

text \<open>The slots belong to the structure of the open file.\<close>

definition btn_chan :: "(nat \<Rightarrow> bfile option) \<Rightarrow> nat \<Rightarrow> nat" where
  "btn_chan F f = (case F f of None \<Rightarrow> 0 | Some filep \<Rightarrow> bf_priv filep)"

definition btn_room :: "'e bstate \<Rightarrow> nat \<Rightarrow> nat" where
  "btn_room s a = (case open_at a s of None \<Rightarrow> 0 | Some opriv \<Rightarrow> free_count (bo_fds opriv))"

lemma open_at_simps [simp]:
  "open_at a (on_bpw g s) = open_at a s" "open_at a (btn_enable g_btnlower s) = open_at a s"
  by (simp_all add: open_at_def btn_lower.btn_enable_rest)

lemma open_at_upd: "open_at b (upd_open a g s) = (if b = a then map_option g (open_at b s) else open_at b s)"
proof -
  have "map_of (map (\<lambda>(b, p). (b, if b = a then g p else p)) os) b = (if b = a then map_option g (map_of os b) else map_of os b)" for os
    by (induction os) auto
  then show ?thesis by (simp add: open_at_def upd_open_def)
qed

lemma btn_slot_simps [simp]:
  "btn_slot (on_bpw g s) = btn_slot s" "b_pw (env (on_bpw g s)) = g (b_pw (env s))"
  "btn_slot (btn_enable g_btnlower s) = btn_slot s" "b_pw (env (upd_open a u s)) = b_pw (env s)"
  by (simp_all add: btn_slot_def fun_eq_iff upd_open_def)

lemma btn_slot_upd:
  assumes "open_at a s = Some opriv" "i < length (bo_fds opriv)"
  shows "btn_slot (upd_open a (\<lambda>q. q\<lparr>bo_fds := (bo_fds q)[i := v]\<rparr>) s) = (btn_slot s)((a, i) := v)"
proof (rule ext)
  fix k show "btn_slot (upd_open a (\<lambda>q. q\<lparr>bo_fds := (bo_fds q)[i := v]\<rparr>) s) k = ((btn_slot s)((a, i) := v)) k"
    using assms by (cases k) (simp add: btn_slot_def open_at_upd slot_of_update)
qed

lemma btn_room_simps [simp]: "btn_room (on_bpw g s) = btn_room s" "btn_room (btn_enable g_btnlower s) = btn_room s"
  by (simp_all add: btn_room_def fun_eq_iff)

lemma btn_room_upd:
  assumes "open_at a s = Some opriv" "free_slot (bo_fds opriv) = Some i"
  shows "btn_room (upd_open a (\<lambda>q. q\<lparr>bo_fds := (bo_fds q)[i := Some p]\<rparr>) s) = (btn_room s)(a := btn_room s a - 1)"
  using free_count_some [OF assms(2), of p] by (simp add: btn_room_def open_at_upd assms(1) fun_eq_iff)

lemma btn_pw_inv: "btn_lower.binv K s \<Longrightarrow> btn_lower.binv K (on_bpw g s)"
  by (rule btn_lower.bpw_inv)

interpretation bpoll: poll_device "btn_files d F" "btn_linked K F" btn_held "btn_chan F" btn_room for d K F
proof unfold_locales
  fix s :: "'a bstate" and g p h
  show "get_polls (btn_files d F) (on_polls (btn_files d F) g s) = g (get_polls (btn_files d F) s)"
    by (simp add: btn_files_def)
  show "btn_linked K F s \<Longrightarrow> p \<notin> btn_held s \<Longrightarrow>
      btn_linked K F (on_polls (btn_files d F) (upd_pollfd p h) s) \<and> btn_held (on_polls (btn_files d F) (upd_pollfd p h) s) = btn_held s"
    by (simp add: btn_files_def btn_linked_def btn_held_def linked_other btn_pw_inv)
  show "btn_linked K F s \<Longrightarrow> (\<And>w q. priv (pollfds (g w) q) = priv (pollfds w q)) \<Longrightarrow>
      btn_linked K F (on_polls (btn_files d F) g s) \<and> btn_held (on_polls (btn_files d F) g s) = btn_held s"
    by (simp add: btn_files_def btn_linked_def btn_held_def btn_pw_inv linked_cong [of "g (b_pw (env s))" "b_pw (env s)"])
  show "btn_room (on_polls (btn_files d F) g s) = btn_room s" by (simp add: btn_files_def)
next
  fix s :: "'a bstate" and p f and op :: "nat \<Rightarrow> bool \<Rightarrow> 'a bstate \<Rightarrow> (int \<times> 'a bstate) option"
  assume s: "btn_linked K F s" "p \<notin> btn_held s" "f_inode (btn_files d F) f = Some (Inode_poll op)"
  then obtain filep where op: "op = btn_poll g_btnlower filep" "F f = Some filep" "btn_chan F f = bf_priv filep"
    by (auto simp: btn_files_def btn_chan_def)
  let ?a = "bf_priv filep"
  have l: "linked (b_pw (env s)) (btn_slot s)" "p \<notin> ran (btn_slot s)" "btn_lower.binv K s"
    "\<forall>f filep. F f = Some filep \<longrightarrow> open_at (bf_priv filep) s \<noteq> None"
    using s by (simp_all add: btn_linked_def btn_held_def)
  obtain opriv where o: "open_at ?a s = Some opriv" using l(4) op(2) by blast
  have "\<exists>r s'. btn_poll g_btnlower filep p True s = Some (r, s') \<and> btn_linked K F s' \<and>
      (if 0 < btn_room s ?a
       then r = OK \<and> btn_held s' = insert p (btn_held s) \<and> btn_room s' = (btn_room s)(?a := btn_room s ?a - 1)
       else r < 0 \<and> btn_held s' = btn_held s \<and> btn_room s' = btn_room s) \<and>
      (\<forall>q. q \<noteq> p \<longrightarrow> pollfds (b_pw (env s')) q = pollfds (b_pw (env s)) q)"
  proof (cases "free_slot (bo_fds opriv)")
    case None
    then have "btn_room s ?a = 0" by (simp add: btn_room_def o free_count_none)
    then show ?thesis
      using l o None by (simp add: btn_poll_def btn_linked_def btn_held_def linked_other set_priv_other EBUSY_def btn_pw_inv)
  next
    case (Some i)
    from free_slot_of [OF this] have i: "i < length (bo_fds opriv)" "btn_slot s (?a, i) = None" by (simp_all add: btn_slot_def o)
    let ?s = "on_bpw (set_priv p (Some (?a, i))) (upd_open ?a (\<lambda>q. q\<lparr>bo_fds := (bo_fds q)[i := Some p]\<rparr>) s)"
    have st: "linked (b_pw (env ?s)) (btn_slot ?s)" "ran (btn_slot ?s) = insert p (ran (btn_slot s))"
      using linked_store [OF l(1,2) i(2)] by (simp_all add: btn_slot_upd [OF o i(1)])
    obtain u where u: "btn_poll g_btnlower filep p True s = Some (OK, btn_enable g_btnlower u)"
      "u = ?s \<or> u = on_bpw (poll_notify [Some p] POLLIN) ?s"
      using Some o by (simp add: btn_poll_def Let_def del: poll_notify.simps)
    have "0 < btn_room s ?a" "btn_room u = (btn_room s)(?a := btn_room s ?a - 1)"
      using btn_room_upd [OF o Some, of p] free_count_some [OF Some, of p] u(2) by (auto simp: btn_room_def o simp del: poll_notify.simps)
    moreover have "btn_lower.binv K (btn_enable g_btnlower u)" using btn_lower.poll_inv [OF l(3) u(1)] .
    moreover have "linked (poll_notify [Some p] POLLIN w) m \<longleftrightarrow> linked w m" for w m by (rule linked_cong) (simp del: poll_notify.simps)
    then have "linked (b_pw (env u)) (btn_slot u)" "ran (btn_slot u) = insert p (ran (btn_slot s))"
      using u(2) st by (auto simp del: poll_notify.simps)
    moreover have "open_at (bf_priv x) u \<noteq> None" if "F g = Some x" for g x
      using u(2) l(4) o that by (auto simp: open_at_upd simp del: poll_notify.simps)
    moreover have "pollfds (b_pw (env u)) q = pollfds (b_pw (env s)) q" if "q \<noteq> p" for q
      using u(2) that by (auto simp: set_priv_other notify_other simp del: poll_notify.simps)
    ultimately show ?thesis
      using u(1) by (simp add: btn_linked_def btn_held_def btn_lower.btn_enable_rest)
  qed
  then show "\<exists>r d'. op p True s = Some (r, d') \<and> btn_linked K F d' \<and>
      (if 0 < btn_room s (btn_chan F f)
       then r = OK \<and> btn_held d' = insert p (btn_held s) \<and> btn_room d' = (btn_room s)(btn_chan F f := btn_room s (btn_chan F f) - 1)
       else r < 0 \<and> btn_held d' = btn_held s \<and> btn_room d' = btn_room s) \<and>
      (\<forall>q. q \<noteq> p \<longrightarrow> pollfds (get_polls (btn_files d F) d') q = pollfds (get_polls (btn_files d F) s) q)"
    unfolding op(1,3) by (simp add: btn_files_def)
next
  fix s :: "'a bstate" and p f and op :: "nat \<Rightarrow> bool \<Rightarrow> 'a bstate \<Rightarrow> (int \<times> 'a bstate) option"
  assume s: "btn_linked K F s" "p \<in> btn_held s" "f_inode (btn_files d F) f = Some (Inode_poll op)"
  then obtain filep where op: "op = btn_poll g_btnlower filep" by (auto simp: btn_files_def)
  have l: "linked (b_pw (env s)) (btn_slot s)" "btn_lower.binv K s" "\<forall>f filep. F f = Some filep \<longrightarrow> open_at (bf_priv filep) s \<noteq> None"
    using s(1) by (simp_all add: btn_linked_def)
  obtain k where k: "btn_slot s k = Some p" using s(2) by (auto simp: btn_held_def ran_def)
  obtain a i where ai: "k = (a, i)" by (rule prod.exhaust)
  have pr: "priv (pollfds (b_pw (env s)) p) = Some (a, i)" using linkedD [OF l(1) k] ai by simp
  obtain opriv where o: "open_at a s = Some opriv" "i < length (bo_fds opriv)"
    using k ai by (auto simp: btn_slot_def slot_of_def split: option.splits if_splits)
  let ?s = "on_bpw (set_priv p None) (upd_open a (\<lambda>q. q\<lparr>bo_fds := (bo_fds q)[i := None]\<rparr>) s)"
  have p: "btn_poll g_btnlower filep p False s = Some (OK, btn_enable g_btnlower ?s)" by (simp add: btn_poll_def pr o(1) Let_def)
  have "linked (b_pw (env ?s)) (btn_slot ?s)" "ran (btn_slot ?s) = ran (btn_slot s) - {p}"
    using linked_free [OF l(1) k] linked_clear [OF l(1) k] ai by (simp_all add: btn_slot_upd [OF o])
  moreover have "open_at (bf_priv x) ?s \<noteq> None" if "F g = Some x" for g x using l(3) that by (auto simp: open_at_upd)
  ultimately show "\<exists>d'. op p False s = Some (OK, d') \<and> btn_linked K F d' \<and> btn_held d' = btn_held s - {p} \<and>
      (\<forall>q. revents (pollfds (get_polls (btn_files d F) d') q) = revents (pollfds (get_polls (btn_files d F) s) q))"
    using p btn_lower.poll_inv [OF l(2) p]
    by (simp add: op btn_files_def btn_linked_def btn_held_def btn_lower.btn_enable_rest set_priv_other)
qed

subsection \<open>The system call on the devices\<close>

text \<open>
  C15. Waiting for buttons leaves nothing behind: in a state of the button driver that is in order, for descriptors
  that are ignored or open button files and structures the driver does not know yet, \<^verbatim>\<open>poll\<close> returns, whatever
  happens meanwhile in the wait as long as the slots, the descriptors and the references stay as they are. Afterwards the driver is in
  order and knows the same structures as before. If each open file has a free slot for each of the descriptors that lead to it, the reference counts
  of the files are as before too; the call has waited unless a button event was pending at once, and the result is
  -1 with the error of the wait as \<^verbatim>\<open>errno\<close> if that failed (a timeout is no failure), and otherwise the number of descriptors with events, which
  are those at the end of the wait. If there are not enough slots, the call returns at
  once, with the first descriptor counted and marked that found none, and has lost a reference to the file of that one.
\<close>

theorem btn_poll_restores:
  fixes s :: "'e bstate fs_state" and F :: "nat \<Rightarrow> bfile option" and d :: bool
  defines "enough \<equiv> fits (btn_files d F :: 'e bstate fs_env) (btn_chan F) (fl_fds s) (btn_room (devs s))"
  assumes "btn_linked K F (devs s)" "distinct (map snd polls)" "btn_held (devs s) \<inter> snd ` set polls = {}"
    "\<forall>x \<in> set polls. good_fd (btn_files d F) s x"
    "\<And>t. btn_linked K F (devs t) \<Longrightarrow> btn_linked K F (devs (snd (wait t))) \<and> btn_held (devs (snd (wait t))) = btn_held (devs t) \<and>
       fl_fds (snd (wait t)) = fl_fds t \<and> f_refs (snd (wait t)) = f_refs t"
  shows "\<exists>v e s'. poll (btn_files d F) polls timeout wait s = Some (v, e, s') \<and>
     btn_linked K F (devs s') \<and> btn_held (devs s') = btn_held (devs s) \<and> fl_fds s' = fl_fds s \<and>
     (if enough polls
      then f_refs s' = f_refs s \<and>
        (\<exists>t. setup_loop (btn_files d F) [] polls 0 s = Some (ready_count (btn_files d F) polls t, False, t) \<and>
             poll_outcome (btn_files d F) polls timeout wait t (v, e, s'))
      else \<exists>pre x post. polls = pre @ x # post \<and> 0 \<le> fst x \<and> enough pre \<and> \<not> enough (pre @ [x]) \<and>
        f_refs s' = (\<lambda>f. f_refs s f + uses (fl_fds s) [x] f) \<and>
        v = int (ready_count (btn_files d F) pre s') + 1 \<and> e = 0 \<and>
        revents (the_fd (btn_files d F) (snd x) s') AND POLLERR = POLLERR)"
  unfolding enough_def by (rule bpoll.poll_ok [OF assms(2-6)])

text \<open>
  C16. A bad descriptor in the list: if the descriptors before it, GPIO devices, could all be set up, \<^verbatim>\<open>poll\<close> returns at
  once. It does not return -1 with EBADF, as its description says, but leaves \<^verbatim>\<open>errno\<close> alone, marks the bad descriptor with POLLERR and returns
  one more than the number of those with events before the descriptor that precedes it. And it takes back only these: the driver keeps the
  structure of the descriptor that precedes the bad one, which is gone when the caller returns, and will write to it at the next interrupt; and
  the reference to its file is never given back.
\<close>

theorem gpio_poll_bad_fd:
  assumes "gpio_linked (devs s)" "distinct (map snd (polls @ [(fd, p)]))" "gpio_held (devs s) \<inter> snd ` set (polls @ [(fd, p)]) = {}"
    "\<forall>x \<in> set (polls @ [(fd, p)]). good_fd (gpio_files F) s x"
    "setup_loop (gpio_files F) [] (polls @ [(fd, p)]) 0 s = Some (c, False, t)"
    "0 \<le> fd" "0 \<le> fd'" "fl_fds s fd' = None" "p' \<notin> gpio_held (devs s) \<union> snd ` set (polls @ [(fd, p)])"
  shows "\<exists>f s'. fl_fds s fd = Some f \<and>
     poll (gpio_files F) (polls @ (fd, p) # (fd', p') # rest) timeout wait s =
       Some (int (ready_count (gpio_files F) polls s') + 1, 0, s') \<and>
     revents (the_fd (gpio_files F) p' s') AND POLLERR = POLLERR \<and>
     gpio_held (devs s') = insert p (gpio_held (devs s)) \<and> f_refs s' = (f_refs s)(f := f_refs s f + 1)"
proof -
  have "good_fd (gpio_files F) s (fd, p)" using assms(4) by simp
  then obtain f where f: "fl_fds s fd = Some f" "f_inode (gpio_files F :: 'a gstate fs_env) f \<noteq> None" using assms(6) by (auto simp: good_fd_def)
  then have st: "stored (gpio_files F :: 'a gstate fs_env) (fl_fds s) (fd, p)" using assms(6) by (auto simp: stored_def gpio_files_def)
  have "(\<lambda>g. f_refs s g + uses (fl_fds s) [(fd, p)] g) = (f_refs s)(f := f_refs s f + 1)" using f assms(6) by (auto simp: fun_eq_iff)
  with gpoll.poll_bad_fd [OF assms(1-5,7-9), of rest timeout wait] f(1) st show ?thesis by auto
qed

subsection \<open>Witnesses\<close>

text \<open>The button device of a run, open as file 0 with descriptor 3, and the interrupt device likewise.\<close>

definition btn_fs :: "nat bstate fs_state" where
  "btn_fs = \<lparr>fl_fds = [3 \<mapsto> 0], f_refs = (\<lambda>_. 1), devs = brun1\<rparr>"

definition gpio_fs :: "nat gstate fs_state" where
  "gpio_fs = \<lparr>fl_fds = [3 \<mapsto> 0], f_refs = (\<lambda>_. 1), devs = run0\<rparr>"

lemma btn_fs_empty: "btn_slot brun1 = Map.empty"
proof
  fix k :: "nat \<times> nat"
  have "slot_of (replicate n None) i = None" for n i by (simp add: slot_of_def)
  then show "btn_slot brun1 k = None"
    by (simp add: btn_slot_def open_at_def brun1_facts demo_open_def zero_open_def)
qed

lemma btn_fs_fits:
  "fits (btn_files False [0 \<mapsto> \<lparr>bf_priv = 2\<rparr>] :: nat bstate fs_env) (btn_chan [0 \<mapsto> \<lparr>bf_priv = 2\<rparr>]) (fl_fds btn_fs) (btn_room (devs btn_fs)) [(3, 7), (- 1, 8)]"
proof -
  have "0 < btn_room (devs btn_fs) 2"
    by (simp add: btn_room_def btn_fs_def open_at_def brun1_facts demo_open_def zero_open_def free_count_def)
  then show ?thesis by (simp add: fits_def stored_def btn_fs_def btn_chan_def)
qed

theorem btn_poll_restores_witness:
  "\<exists>v e s'. poll (btn_files False [0 \<mapsto> \<lparr>bf_priv = 2\<rparr>]) [(3, 7), (- 1, 8)] 0 (\<lambda>t. (OK, t)) btn_fs = Some (v, e, s') \<and>
     btn_held (devs s') = {} \<and> f_refs s' = f_refs btn_fs \<and> e = 0"
proof -
  let ?F = "[0 \<mapsto> \<lparr>bf_priv = 2\<rparr>]" and ?w = "\<lambda>t. (OK, t)"
  have held: "btn_held (devs btn_fs) = {}" by (simp add: btn_held_def btn_fs_def btn_fs_empty)
  have "btn_linked Map.empty ?F (devs btn_fs)"
    using btn_reach_inv [OF brun1_facts(1)] by (simp add: btn_linked_def btn_fs_def btn_fs_empty linked_def open_at_def brun1_facts)
  moreover have "\<forall>x \<in> set [(3, 7), (- 1, 8)]. good_fd (btn_files False ?F) btn_fs x"
    by (simp add: good_fd_def btn_files_def btn_fs_def)
  ultimately obtain v e s' t where "poll (btn_files False ?F) [(3, 7), (- 1, 8)] 0 ?w btn_fs = Some (v, e, s')"
    "btn_held (devs s') = {}" "f_refs s' = f_refs btn_fs" "poll_outcome (btn_files False ?F) [(3, 7), (- 1, 8)] 0 ?w t (v, e, s')"
    using btn_poll_restores [of Map.empty ?F btn_fs "[(3, 7), (- 1, 8)]" False ?w 0] held unfolding if_P [OF btn_fs_fits] by auto
  moreover from this(4) have "e = 0" by (auto simp: poll_outcome_def poll_wait_def split: if_splits)
  ultimately show ?thesis by blast
qed

lemma run0_fds: "fds (gdev a run0) = [None, None]"
  by (simp add: run0_def gpio_ready_state_def) (simp add: gpio_start_def gdev_def)

theorem gpio_poll_bad_fd_witness:
  "\<exists>v s'. poll (gpio_files [0 \<mapsto> int_file]) [(3, 7), (4, 8)] 0 (\<lambda>t. (OK, t)) gpio_fs = Some (v, 0, s') \<and>
     gpio_held (devs gpio_fs) = {} \<and> gpio_held (devs s') = {7} \<and> f_refs s' 0 = 2"
proof -
  have "slot_of [None, None] i = None" for i by (simp add: slot_of_def nth_Cons' split: if_splits)
  then have sl: "gpio_slot run0 = Map.empty" by (simp add: gpio_slot_def run0_fds fun_eq_iff)
  then have held: "gpio_held (devs gpio_fs) = {}" by (simp add: gpio_held_def gpio_fs_def)
  have ok: "gpio_linked (devs gpio_fs)" by (simp add: gpio_linked_def gpio_fs_def sl linked_def)
  have g: "\<forall>x \<in> set ([] @ [(3, 7)]). good_fd (gpio_files [0 \<mapsto> int_file]) gpio_fs x"
    by (simp add: good_fd_def gpio_files_def gpio_fs_def)
  let ?E = "gpio_files [0 \<mapsto> int_file]" and ?s = "on_fd (gpio_files [0 \<mapsto> int_file]) 7 (\<lambda>f. f\<lparr>cb := True, revents := 0, priv := None\<rparr>) gpio_fs"
  obtain v where "gpio_poll int_file 7 True (on_pw (upd_pollfd 7 (\<lambda>f. f\<lparr>cb := True, revents := 0, priv := None\<rparr>)) run0) = (OK, v)"
    by (simp add: gpio_poll_def int_file_def run0_fds Let_def)
  then obtain u where u: "file_poll ?E 0 7 True (?s\<lparr>f_refs := (f_refs ?s)(0 := f_refs ?s 0 + 1)\<rparr>) = Some (OK, u)"
    by (auto simp: file_poll_def gpio_files_def on_fd_def gpio_fs_def)
  have "file_get 3 ?s = (OK, 0, ?s\<lparr>f_refs := (f_refs ?s)(0 := f_refs ?s 0 + 1)\<rparr>)" by (simp add: file_get_def gpio_fs_def)
  with u obtain c where st: "setup_loop ?E [] ([] @ [(3, 7)]) 0 gpio_fs = Some (c, False, u)" by simp
  show ?thesis
    using gpio_poll_bad_fd [OF ok _ _ g st, of 4 8 "[]" 0 "\<lambda>t. (OK, t)"] held by (auto simp: gpio_fs_def)
qed

end
