(* ===== verification/Spec2Isabelle.thy ===== *)
theory Spec2Isabelle
  imports Board_System Poll_Devices
begin

text \<open>
  Board support of the NUCLEO-H753ZI port of NuttX: how the board is brought up, and how buttons, LEDs,
  GPIO devices and SPI chip selects work on it, from the file operation of a task down to the registers of the
  chip, and from the edge on a pin up to the signal that a task gets.

  \<^bold>\<open>The program.\<close> Sources are under \<^verbatim>\<open>src/nuttx\<close>; \<^verbatim>\<open>BOARD\<close> is \<^verbatim>\<open>boards/arm/stm32h7/nucleo-h753zi\<close> and \<^verbatim>\<open>CHIP\<close>
  is \<^verbatim>\<open>arch/arm/src/stm32h7\<close>. At start-up \<^verbatim>\<open>stm32_bringup\<close> calls one function per subsystem. Those of the
  buttons and of the SPI buses parse lists of pin names from the configuration with the C library; all of
  them configure pins through the GPIO code of the chip and register devices. Afterwards tasks use the
  devices. The upper half of a driver (\<^verbatim>\<open>button_upper.c\<close>, \<^verbatim>\<open>gpio.c\<close>, \<^verbatim>\<open>userled_upper.c\<close>) keeps the open files
  and whom to notify; its lower half drives the pins of the board and attaches a callback to an external
  interrupt line. An interrupt goes from the vector of the kernel to the dispatcher of the line, to the
  callback, to the upper half, and from there to the tasks, by a signal or by \<^verbatim>\<open>poll\<close>.

  \<^bold>\<open>Theories and sources.\<close>

  \<^item> \<open>Nx_Prelude\<close>: machine types, error numbers, the register bus with the log of writes, register fields and
    checked arrays.
  \<^item> \<open>Libc_Str\<close>: \<^verbatim>\<open>strlen\<close>, \<^verbatim>\<open>strchr\<close>, \<^verbatim>\<open>strncpy\<close>, \<^verbatim>\<open>strtok\<close>, \<^verbatim>\<open>strtol\<close> and \<^verbatim>\<open>strtoul\<close> of \<^verbatim>\<open>libs/libc\<close>.
  \<^item> \<open>Stm32_Gpio\<close>: \<^verbatim>\<open>CHIP/stm32_gpio.c\<close>, one definition per function, with the encoding of a pin in
    \<^verbatim>\<open>stm32_gpio.h\<close>. The locale \<open>gpio_provider\<close> is what the drivers use of it.
  \<^item> \<open>Stm32_Exti\<close>: \<^verbatim>\<open>CHIP/stm32_exti_gpio.c\<close>, enabling at the NVIC in \<^verbatim>\<open>CHIP/stm32_irq.c\<close>, and \<^verbatim>\<open>irq_attach\<close> and
    \<^verbatim>\<open>irq_dispatch\<close> of \<^verbatim>\<open>sched/irq\<close>. \<open>Pin_Frame\<close>: which pins such code touches.
  \<^item> \<open>Pin_Names\<close>: the steps and the contract (\<open>pin_parser\<close>) of the two parsers of pin names.
  \<^item> \<open>Board_Buttons\<close>, \<open>Board_Spi\<close>, \<open>Board_Leds\<close>, \<open>Board_Gpio\<close>: \<^verbatim>\<open>stm32_buttons.c\<close>, \<^verbatim>\<open>stm32_spi.c\<close>,
    \<^verbatim>\<open>stm32_autoleds.c\<close> with \<^verbatim>\<open>stm32_userleds.c\<close>, and \<^verbatim>\<open>stm32_gpio.c\<close> of \<^verbatim>\<open>BOARD/src\<close>.
  \<^item> \<open>Button_Upper\<close>, \<open>Button_Lower\<close>: \<^verbatim>\<open>drivers/input/button_upper.c\<close> and \<^verbatim>\<open>button_lower.c\<close>; the locale
    \<open>lower_half\<close> is the interface between them. \<open>Userled_Upper\<close>, \<open>Userled_Lower\<close>: \<^verbatim>\<open>drivers/leds\<close>, with the
    locale \<open>led_lower\<close>. \<open>Gpio_Upper\<close>: \<^verbatim>\<open>drivers/ioexpander/gpio.c\<close>, with the locale \<open>subscribers\<close> for its table of
    tasks to signal.
  \<^item> \<open>Nx_Poll\<close>, \<open>Poll_Call\<close>, \<open>Poll_Devices\<close>: \<^verbatim>\<open>fs/vfs/fs_poll.c\<close> with the reference counts of
    \<^verbatim>\<open>fs/inode/fs_files.c\<close>; the locale \<open>poll_device\<close> is what \<^verbatim>\<open>poll\<close> relies on from a driver, and both the GPIO and the
    button driver are shown to provide it. \<open>Nx_Poll\<close> also has \<^verbatim>\<open>register_driver\<close>.
  \<^item> \<open>Board_Devices\<close>, \<open>Board_Bringup\<close>: the state of the whole board; \<^verbatim>\<open>stm32_bringup.c\<close>, \<^verbatim>\<open>stm32_boot.c\<close>,
    \<^verbatim>\<open>stm32_appinitialize.c\<close> and the start-up code of the other devices. \<open>Board_Up\<close>: the state they end in.
  \<^item> \<open>Board_System\<close>: all drivers in operation on one board, as a labelled step relation.

  \<^bold>\<open>State and operations.\<close> Registers are a store of 32-bit words by address, with the log of writes, from which
  registers that act on being written (\<^verbatim>\<open>BSRR\<close>, the enable registers of the NVIC) are read. The
  state of the interrupts (\<open>irq_state\<close>) holds the registers, the callbacks of the 16 lines, the vector, and
  in \<open>env\<close> the data of the driver at hand; on the whole board \<open>env\<close> holds the data of all drivers, and each driver
  works on a view of it. Functions of the source keep their names; a function that changes state
  returns the new one. Return codes are integers as in the source. A panic, a call through a NULL
  pointer and a store out of an array are the result \<open>None\<close>. Conditional compilation is a field of a
  record of settings. Results of allocation, locking and of reserving a path are arguments, so the
  theorems hold for each of them.

  \<^bold>\<open>What is shown.\<close>

  \<^item> Strings: \<^verbatim>\<open>strtok\<close> gives the tokens in order and a loop over them ends; \<^verbatim>\<open>strtol\<close> reads decimal numbers back.
    Both parsers accept the names of pins, with what each of them gets wrong.
  \<^item> Pins and lines: configuring a pin is an update of an abstract map of pins; the masks of the lines
    agree with the table of callbacks whatever is registered and removed; dispatching an interrupt acknowledges
    each pending line and calls its callback.
  \<^item> Drivers, by invariants over all reachable states: exactly the lines that somebody waits for are unmasked, a
    press of a button reaches each task registered for it, an interrupt of the GPIO device is counted and
    signalled, the LED driver shows what it reports, the active chip selects are those last selected.
  \<^item> Waiting: \<^verbatim>\<open>poll\<close> on devices with enough free slots leaves no structure with a driver and no reference behind and
    reports the wait; what it leaves when there is no slot, or when a descriptor is bad.
  \<^item> The LEDs as indicators: after any history of events each is as the last event left it that concerns it.
  \<^item> The board: for a configuration as under the assumptions below, the bring-up returns and leaves all
    drivers in their invariants; for any, it runs every subsystem and returns the first failure it checks for. From then on, under
    any interleaving of the operations of tasks, changes of the inputs and interrupts, the lines follow
    the users of both drivers that share the table, interrupts reach exactly the drivers concerned, and no
    driver touches pins of another; the one exception are the LEDs, which two drivers own.

  \<^bold>\<open>Termination, bounds and assumptions.\<close> Every definition is total and no fuel is used: loops run over the
  rest of a string, a range of indices or a list. The loops over the tokens of a list of pins are by
  well-founded recursion: each call of \<^verbatim>\<open>strtok\<close> shortens what is left of the string. Words are kept at their width where they wrap: the 8-bit count of registrations,
  the counter of interrupts, the index of a device on a bus. The reachable states of the
  GPIO driver are those of tasks that take back only registrations that were made and make fewer than 256 at a
  time; what happens otherwise is shown as well. The state after the bring-up and the board in operation are under the assumptions of
  \<open>good_board\<close> in \<open>Board_Up\<close>: the user LEDs, the buttons and the GPIO devices are configured and their memory can be allocated; the
  pin lists parse, and no two drivers claim a pin and no two buttons an interrupt line; there is no radio and no USB host, which attach handlers to lines of
  their own, and no partitions for firmware updates, whose alignment is asserted (\<open>plain_cfg\<close>); and the drivers that are not modelled leave the
  pins and lines of the modelled ones alone (\<open>ext_frame\<close>). On the board in operation no button is on line 5, since that line belongs to the GPIO
  interrupt pin. The states of the button driver by itself are those of a list of pins with no two buttons on one line.

  \<^bold>\<open>Not modelled.\<close>

  \<^item> The upstream drivers that the bring-up only starts (buses, timers, ADC, USB, flash, sensors, radio, file
    systems): they are the parameter \<open>ext\<close>. So are handlers they attach, and the thread that waits for
    USB devices.
  \<^item> \<^verbatim>\<open>stm32_boot_image.c\<close>, \<^verbatim>\<open>stm32_reset.c\<close>, \<^verbatim>\<open>stm32_uid.c\<close>, \<^verbatim>\<open>stm32_composite.c\<close>, \<^verbatim>\<open>stm32_usbmsc.c\<close>,
    \<^verbatim>\<open>stm32_ssd1306.c\<close> and \<^verbatim>\<open>stm32_mfrc522.c\<close> of the board: the bring-up does not reach them, and they hand on to code outside the board
    directory.
  \<^item> Spin locks, critical sections and preemption within one: an operation of a driver is one step. The compensation cell of the I/O pins, the
    priorities of interrupts and the initialization of the vector.
  \<^item> Thread cancellation within \<^verbatim>\<open>poll\<close>, its copy of the structures in a kernel build, and
    descriptors that are closed by others during the wait.
  \<^item> Messages to the system log.
\<close>

end
